(* ===== verification/Prelude.thy ===== *)
theory Prelude
  imports Main "HOL-Library.Word" "HOL-Library.Multiset"
begin

text \<open>
  Shared ground of the development: the types Go's built-ins are modelled by (errors,
  time, pointers, 64-bit integers, map iteration orders), the fact collections the
  component theories extend, and the generic lemmas on lists and maps that several of
  them use.
\<close>

section \<open>Fact collections\<close>

named_theorems chan_simps \<open>evaluation of the channel primitives\<close>
named_theorems plane_defs \<open>definitions of the execution plane's operations\<close>
named_theorems policy_defs \<open>definitions of the policy engine's operations\<close>
named_theorems bus_defs \<open>definitions of the event bus operations\<close>
named_theorems mem_defs \<open>definitions of the memory plane and its providers\<close>

section \<open>Errors\<close>

text \<open>
  A Go \<open>error\<close> built by \<open>fmt.Errorf\<close> is kept as its format string and arguments; \<open>%w\<close>
  wrapping keeps the cause, and \<open>Manyf\<close> a list of errors. \<open>CtxCanceled\<close> and \<open>CtxDeadline\<close> are the two errors a
  \<open>context.Context\<close> reports; \<open>Panic\<close> is a run-time panic, so that no panic of the
  source is lost in a total HOL function.
\<close>

datatype fmt_arg = FStr string | FInt int

datatype go_error =
    Errf string "fmt_arg list"
  | Wrapf string "fmt_arg list" go_error
  | Manyf string "go_error list"
  | CtxCanceled
  | CtxDeadline
  | Panic string

type_synonym 'a result = "go_error + 'a"

fun is_panic :: "go_error \<Rightarrow> bool" where
  "is_panic (Panic _) = True"
| "is_panic _ = False"

section \<open>Time, pointers and machine integers\<close>

text \<open>
  \<open>time.Time\<close> is the number of nanoseconds since Go's zero time, so \<open>IsZero\<close> is equality
  with \<open>0\<close>, \<open>Before\<close> and \<open>After\<close> are \<open><\<close> and \<open>>\<close>. \<open>time.Duration\<close> and \<open>int\<close>
  are 64-bit two's complement words, read by \<open>sint\<close>.
\<close>

type_synonym time = int
type_synonym gint = "64 word"
type_synonym ref = nat
type_synonym raw = string

abbreviation (input) zero_time :: time where
  "zero_time \<equiv> 0"

definition time_add :: "time \<Rightarrow> gint \<Rightarrow> time" where
  "time_add t d = t + sint d"

text \<open>\<open>t.Sub(u)\<close> saturates at the largest and smallest durations.\<close>

definition time_sub :: "time \<Rightarrow> time \<Rightarrow> gint" where
  "time_sub t u = word_of_int (max (- (2 ^ 63)) (min (2 ^ 63 - 1) (t - u)))"

definition millisecond :: gint where
  "millisecond = 1000000"

definition second :: gint where
  "second = 1000000000"

lemma sint_gint:
  assumes "- (2 ^ 63) \<le> i" "i < 2 ^ 63"
  shows "sint (word_of_int i :: gint) = i"
  using assms by (simp add: sint_sbintrunc' signed_take_bit_int_eq_self)

lemma sint_gint_scaled:
  assumes "0 \<le> b" "b \<le> m" "0 \<le> c" "c * m < 2 ^ 63"
  shows "sint (word_of_int (c * b) :: gint) = c * b"
proof (rule sint_gint)
  show "c * b < 2 ^ 63" using mult_left_mono [OF assms(2,3)] assms(4) by simp
  have "0 \<le> c * b" using assms(1,3) by (rule mult_nonneg_nonneg [rotated])
  then show "- (2 ^ 63) \<le> c * b" by (rule order_trans [rotated]) simp
qed

lemma sint_time_sub: "sint (time_sub t u) = max (- (2 ^ 63)) (min (2 ^ 63 - 1) (t - u))"
  unfolding time_sub_def by (rule sint_gint) auto

section \<open>Maps\<close>

text \<open>
  \<open>for k := range m\<close> visits the keys of a Go map once each, in an unspecified order. An
  operation that ranges over a map takes that order as an argument; \<open>key_order m ks\<close> says
  that \<open>ks\<close> is a possible one.
\<close>

definition key_order :: "('k \<rightharpoonup> 'v) \<Rightarrow> 'k list \<Rightarrow> bool" where
  "key_order m ks \<longleftrightarrow> distinct ks \<and> set ks = dom m"

text \<open>Indexing a Go map with a missing key yields the zero value of its element type.\<close>

definition map_get :: "'v \<Rightarrow> ('k \<rightharpoonup> 'v) \<Rightarrow> 'k \<Rightarrow> 'v" where
  "map_get z m k = (case m k of None \<Rightarrow> z | Some v \<Rightarrow> v)"

lemma map_get_upd [simp]: "map_get z (m(k \<mapsto> v)) k' = (if k' = k then v else map_get z m k')"
  by (simp add: map_get_def)

lemma map_get_empty [simp]: "map_get z (\<lambda>_. None) k = z"
  by (simp add: map_get_def)

lemma key_order_finite: "key_order m ks \<Longrightarrow> finite (dom m)"
  by (metis List.finite_set key_order_def)

lemma key_order_mset: "key_order m ks \<Longrightarrow> key_order m ks' \<Longrightarrow> mset ks = mset ks'"
  by (metis key_order_def set_eq_iff_mset_eq_distinct)

lemma key_order_empty [simp]: "key_order (\<lambda>_. None) ks \<longleftrightarrow> ks = []"
  by (auto simp: key_order_def)

lemma key_order_ex: "finite (dom m) \<Longrightarrow> \<exists>ks. key_order m ks"
  unfolding key_order_def by (metis finite_distinct_list)

section \<open>Lists\<close>

lemma snoc_eq_split: "xs @ [v] = ys @ x # zs \<longleftrightarrow>
    zs = [] \<and> ys = xs \<and> x = v \<or> (\<exists>zs'. zs = zs' @ [v] \<and> xs = ys @ x # zs')"
  by (cases zs rule: rev_cases) auto

lemma mset_concat_update:
  "i < length xss \<Longrightarrow>
     mset (concat (xss[i := ys])) + mset (xss ! i) = mset (concat xss) + mset ys"
proof (induction xss arbitrary: i)
  case (Cons xs xss)
  then show ?case by (cases i) (auto simp: ac_simps)
qed simp

lemma distinct_mset_mono:
  assumes "mset xs \<subseteq># mset ys" "distinct ys" shows "distinct xs"
  unfolding distinct_count_atmost_1
proof
  fix a
  have le: "count (mset xs) a \<le> count (mset ys) a" using assms(1) by (rule mset_subset_eq_count)
  moreover have "count (mset ys) a \<le> 1" using assms(2) by (simp add: distinct_count_atmost_1)
  ultimately have one: "count (mset xs) a \<le> 1" by simp
  show "count (mset xs) a = (if a \<in> set xs then 1 else 0)"
  proof (cases "a \<in> set xs")
    case True
    then have "count (mset xs) a \<noteq> 0" by (simp only: count_mset_0_iff) simp
    with one have "count (mset xs) a = 1" by linarith
    with True show ?thesis by simp
  qed simp
qed

lemma mset_partition: "mset (filter P xs) + mset (filter (\<lambda>x. \<not> P x) xs) = mset xs"
  by (induction xs) auto

end
