(* ===== verification/Envelope.thy ===== *)
theory Envelope
  imports Prelude
begin

text \<open>
  Identities, tenants and the message envelope (\<open>internal/body/envelope.go\<close>). Go maps are
  references: the metadata map of an envelope is an address in an explicit heap of string
  maps, \<open>None\<close> for the nil map, so that the sharing made by shallow copies is visible. The
  string newtypes \<open>EnvelopeType\<close> and \<open>ActorKind\<close> stay strings, since any string may occur.
\<close>

section \<open>The metadata heap\<close>

type_synonym meta_map = "string \<rightharpoonup> string"
type_synonym meta_heap = "meta_map list"

definition meta_alloc :: "meta_map \<Rightarrow> meta_heap \<Rightarrow> ref \<times> meta_heap" where
  "meta_alloc m h = (length h, h @ [m])"

definition meta_read :: "meta_heap \<Rightarrow> ref option \<Rightarrow> meta_map" where
  "meta_read h r = (case r of None \<Rightarrow> Map.empty | Some a \<Rightarrow> h ! a)"

text \<open>Assignment \<open>m[k] = v\<close> panics on the nil map.\<close>

definition meta_write :: "meta_heap \<Rightarrow> ref option \<Rightarrow> string \<Rightarrow> string \<Rightarrow> meta_heap result" where
  "meta_write h r k v =
     (case r of None \<Rightarrow> Inl (Panic ''assignment to entry in nil map'')
      | Some a \<Rightarrow> Inr (h[a := (h ! a)(k \<mapsto> v)]))"

definition meta_valid :: "meta_heap \<Rightarrow> ref option \<Rightarrow> bool" where
  "meta_valid h r \<longleftrightarrow> (case r of None \<Rightarrow> True | Some a \<Rightarrow> a < length h)"

text \<open>
  The copy made by both \<open>WithMetadata\<close> methods: a fresh map, filled from the old one when
  there is one (\<open>ks\<close> orders its keys), then the new entry.
\<close>

definition meta_copy :: "meta_heap \<Rightarrow> ref option \<Rightarrow> string list \<Rightarrow> string \<Rightarrow> string \<Rightarrow>
    (ref \<times> meta_heap) result" where
  "meta_copy h r ks key val =
     (let (a, h1) = meta_alloc Map.empty h;
          h2 = (case r of
                  None \<Rightarrow> h1
                | Some _ \<Rightarrow>
                   fold (\<lambda>k h'. h'[a := (h' ! a)(k \<mapsto> map_get [] (meta_read h r) k)]) ks h1)
      in map_sum id (Pair a) (meta_write h2 (Some a) key val))"

lemma meta_fill:
  "fold (\<lambda>k h'. h'[length h := (h' ! length h)(k \<mapsto> f k)]) ks (h @ [m]) =
   h @ [\<lambda>k. if k \<in> set ks then Some (f k) else m k]"
proof (induction ks arbitrary: m)
  case (Cons k ks)
  have step: "(h @ [m])[length h := ((h @ [m]) ! length h)(k \<mapsto> f k)] = h @ [m(k \<mapsto> f k)]"
    by (simp add: list_update_append)
  then have "fold (\<lambda>k h'. h'[length h := (h' ! length h)(k \<mapsto> f k)]) (k # ks) (h @ [m]) =
      h @ [\<lambda>x. if x \<in> set ks then Some (f x) else (m(k \<mapsto> f k)) x]"
    by (simp only: fold_simps step Cons.IH)
  moreover have "(\<lambda>x. if x \<in> set ks then Some (f x) else (m(k \<mapsto> f k)) x) =
      (\<lambda>x. if x \<in> set (k # ks) then Some (f x) else m x)" by auto
  ultimately show ?case by (simp only:)
qed simp

lemma meta_copy_eq:
  assumes "key_order (meta_read h r) ks"
  shows "meta_copy h r ks key val = Inr (length h, h @ [(meta_read h r)(key \<mapsto> val)])"
proof (cases r)
  case None
  then show ?thesis
    by (simp add: meta_copy_def meta_alloc_def meta_write_def meta_read_def list_update_append)
next
  case (Some a)
  have "(\<lambda>k. if k \<in> set ks then Some (map_get [] (meta_read h (Some a)) k) else None) =
      meta_read h (Some a)"
    using assms Some by (auto simp: key_order_def map_get_def fun_eq_iff split: option.split)
  then show ?thesis
    by (simp add: Some meta_copy_def meta_alloc_def meta_write_def meta_fill list_update_append)
qed

section \<open>Identity, tenant and envelope\<close>

record identity =
  actor_id :: string
  actor_kind :: string
  actor_roles :: "string list"
  actor_tenant :: string

record tenant =
  tenant_id :: string
  tenant_name :: string

record envelope =
  env_id :: string
  env_trace :: string
  env_actor :: identity
  env_tenant :: tenant
  env_type :: string
  env_action :: string
  env_payload :: raw
  env_meta :: "ref option"
  env_time :: time

abbreviation (input) env_request :: string where "env_request \<equiv> ''request''"
abbreviation (input) env_response :: string where "env_response \<equiv> ''response''"
abbreviation (input) env_event :: string where "env_event \<equiv> ''event''"
abbreviation (input) env_error :: string where "env_error \<equiv> ''error''"
abbreviation (input) actor_human :: string where "actor_human \<equiv> ''human''"
abbreviation (input) actor_agent :: string where "actor_agent \<equiv> ''agent''"
abbreviation (input) actor_tool :: string where "actor_tool \<equiv> ''tool''"
abbreviation (input) actor_system :: string where "actor_system \<equiv> ''system''"

definition no_actor :: identity where
  "no_actor = \<lparr>actor_id = [], actor_kind = [], actor_roles = [], actor_tenant = []\<rparr>"

definition no_tenant :: tenant where
  "no_tenant = \<lparr>tenant_id = [], tenant_name = []\<rparr>"

text \<open>The two generated identifiers and the clock reading are arguments.\<close>

definition new_envelope :: "string \<Rightarrow> string \<Rightarrow> time \<Rightarrow> string \<Rightarrow> string \<Rightarrow> identity \<Rightarrow> tenant \<Rightarrow>
    envelope" where
  "new_envelope uuid1 uuid2 now typ action actor ten =
     \<lparr>env_id = uuid1, env_trace = uuid2, env_actor = actor, env_tenant = ten,
      env_type = typ, env_action = action, env_payload = [], env_meta = None, env_time = now\<rparr>"

text \<open>\<open>data\<close> is the outcome of marshalling the value; the copy shares the metadata map.\<close>

definition with_payload :: "raw result \<Rightarrow> envelope \<Rightarrow> envelope result" where
  "with_payload data e =
     (case data of
        Inl err \<Rightarrow> Inl (Wrapf ''marshal payload: %w'' [] err)
      | Inr d \<Rightarrow> Inr (e\<lparr>env_payload := d\<rparr>))"

definition decode_payload :: "(raw \<Rightarrow> 'a result) \<Rightarrow> envelope \<Rightarrow> 'a result" where
  "decode_payload unmarshal e =
     (if length (env_payload e) = 0 then Inl (Errf ''payload is empty'' [])
      else case unmarshal (env_payload e) of
             Inl err \<Rightarrow> Inl (Wrapf ''unmarshal payload: %w'' [] err)
           | Inr v \<Rightarrow> Inr v)"

definition with_metadata :: "meta_heap \<Rightarrow> string list \<Rightarrow> string \<Rightarrow> string \<Rightarrow> envelope \<Rightarrow>
    (envelope \<times> meta_heap) result" where
  "with_metadata h ks key val e =
     map_sum id (\<lambda>(a, h'). (e\<lparr>env_meta := Some a\<rparr>, h')) (meta_copy h (env_meta e) ks key val)"

section \<open>Validation\<close>

text \<open>
  \<open>Validate\<close> hands the struct to the validator package with the rules of its field tags.
  The rules are data of the source; the package is the argument \<open>vld\<close>.
\<close>

datatype rule = Required | One_Of "string list"

fun rule_holds :: "rule \<Rightarrow> string \<Rightarrow> bool" where
  "rule_holds Required v = (v \<noteq> [])"
| "rule_holds (One_Of vs) v = (v \<in> set vs)"

type_synonym field_check = "string \<times> rule list \<times> string"

definition identity_checks :: "identity \<Rightarrow> field_check list" where
  "identity_checks a =
     [(''ID'', [Required], actor_id a),
      (''Kind'', [Required, One_Of [''human'', ''agent'', ''tool'', ''system'']], actor_kind a),
      (''TenantID'', [Required], actor_tenant a)]"

definition tenant_checks :: "tenant \<Rightarrow> field_check list" where
  "tenant_checks t = [(''ID'', [Required], tenant_id t)]"

definition envelope_checks :: "envelope \<Rightarrow> field_check list" where
  "envelope_checks e =
     [(''ID'', [Required], env_id e), (''TraceID'', [Required], env_trace e)] @
     identity_checks (env_actor e) @ tenant_checks (env_tenant e) @
     [(''Type'', [Required, One_Of [''request'', ''response'', ''event'', ''error'']], env_type e),
      (''Action'', [Required], env_action e)]"

definition env_validate :: "(field_check list \<Rightarrow> unit result) \<Rightarrow> envelope \<Rightarrow> unit result" where
  "env_validate vld e = vld (envelope_checks e)"

definition checks_hold :: "field_check list \<Rightarrow> bool" where
  "checks_hold fs \<longleftrightarrow> (\<forall>(n, rules, v) \<in> set fs. \<forall>r \<in> set rules. rule_holds r v)"

text \<open>The validator as its documentation describes it, for the witness.\<close>

definition doc_validator :: "field_check list \<Rightarrow> unit result" where
  "doc_validator fs = (if checks_hold fs then Inr () else Inl (Errf ''validation'' []))"

section \<open>Properties\<close>

text \<open>
  \<open>WithMetadata\<close> never changes a metadata map that already exists, whoever shares it:
  every envelope reads the same metadata as before, and the copy reads the old entries of its
  original with the new one added. It never writes to a nil map.
\<close>

theorem with_metadata_isolated:
  assumes "meta_valid h (env_meta e)" "key_order (meta_read h (env_meta e)) ks"
  shows "\<exists>e' h'. with_metadata h ks key val e = Inr (e', h') \<and>
    meta_read h' (env_meta e') = (meta_read h (env_meta e))(key \<mapsto> val) \<and>
    (\<forall>r. meta_valid h r \<longrightarrow> meta_read h' r = meta_read h r \<and> env_meta e' \<noteq> r) \<and>
    meta_valid h' (env_meta e') \<and> e'\<lparr>env_meta := env_meta e\<rparr> = e"
proof -
  let ?e' = "e\<lparr>env_meta := Some (length h)\<rparr>"
  let ?h' = "h @ [(meta_read h (env_meta e))(key \<mapsto> val)]"
  have "with_metadata h ks key val e = Inr (?e', ?h')"
    by (simp add: with_metadata_def meta_copy_eq [OF assms(2)])
  moreover have "\<forall>r. meta_valid h r \<longrightarrow> meta_read ?h' r = meta_read h r \<and> env_meta ?e' \<noteq> r"
    by (auto simp: meta_valid_def meta_read_def nth_append split: option.splits)
  ultimately show ?thesis by (auto simp: meta_read_def meta_valid_def)
qed

definition sample_env :: envelope where
  "sample_env = (new_envelope ''u1'' ''u2'' 7 ''request'' ''chat'' no_actor no_tenant)
     \<lparr>env_meta := Some 0\<rparr>"

theorem with_metadata_isolated_witness:
  "\<exists>e' h'. with_metadata [[''a'' \<mapsto> ''1'']] [''a''] ''b'' ''2'' sample_env = Inr (e', h') \<and>
     meta_read h' (env_meta e') = [''a'' \<mapsto> ''1'', ''b'' \<mapsto> ''2''] \<and>
     meta_read h' (env_meta sample_env) = [''a'' \<mapsto> ''1'']"
proof -
  have "meta_valid [[''a'' \<mapsto> ''1'']] (env_meta sample_env)"
    "key_order (meta_read [[''a'' \<mapsto> ''1'']] (env_meta sample_env)) [''a'']"
    by (simp_all add: meta_valid_def sample_env_def meta_read_def key_order_def)
  from with_metadata_isolated [OF this, of "''b''" "''2''"] this(1)
  show ?thesis by (fastforce simp: sample_env_def meta_read_def)
qed

text \<open>
  With a validator that checks the field tags as documented, an envelope is accepted
  exactly when its identifiers, action and tenants are filled in and its type and actor kind
  are among the declared constants.
\<close>

theorem env_validate_iff:
  assumes "\<And>fs. vld fs = Inr () \<longleftrightarrow> checks_hold fs"
  shows "env_validate vld e = Inr () \<longleftrightarrow>
    env_id e \<noteq> [] \<and> env_trace e \<noteq> [] \<and> env_action e \<noteq> [] \<and>
    env_type e \<in> {env_request, env_response, env_event, env_error} \<and>
    actor_id (env_actor e) \<noteq> [] \<and> actor_tenant (env_actor e) \<noteq> [] \<and>
    actor_kind (env_actor e) \<in> {actor_human, actor_agent, actor_tool, actor_system} \<and>
    tenant_id (env_tenant e) \<noteq> []"
  unfolding env_validate_def assms
  by (auto simp: checks_hold_def envelope_checks_def identity_checks_def tenant_checks_def)

theorem env_validate_iff_witness:
  "env_validate doc_validator sample_env \<noteq> Inr () \<and>
   env_validate doc_validator (sample_env\<lparr>
     env_actor := \<lparr>actor_id = ''a'', actor_kind = ''tool'', actor_roles = [], actor_tenant = ''t''\<rparr>,
     env_tenant := \<lparr>tenant_id = ''t'', tenant_name = []\<rparr>\<rparr>) = Inr ()"
proof -
  have v: "doc_validator fs = Inr () \<longleftrightarrow> checks_hold fs" for fs
    by (simp add: doc_validator_def)
  show ?thesis
    unfolding env_validate_iff [of doc_validator, OF v]
    by (simp add: sample_env_def new_envelope_def no_actor_def)
qed

end
