(* ===== verification/Unique_Map.thy ===== *)
theory Unique_Map
  imports Prelude
begin

text \<open>
  The contract behind every registry of the source (heads, tools, roles, jobs of a graph):
  an insertion that refuses a key already present and never overwrites. The lemmas on a
  batch of insertions, as \<open>main\<close> makes them, are proved once in the locale.
\<close>

fun put_all :: "('k \<Rightarrow> 'v \<Rightarrow> 's \<Rightarrow> 's result) \<Rightarrow> ('k \<times> 'v) list \<Rightarrow> 's \<Rightarrow> 's result" where
  "put_all put [] s = Inr s"
| "put_all put ((k, v) # kvs) s =
     (case put k v s of Inl e \<Rightarrow> Inl e | Inr s' \<Rightarrow> put_all put kvs s')"

locale unique_map =
  fixes put :: "'k \<Rightarrow> 'v \<Rightarrow> 's \<Rightarrow> 's result"
    and look :: "'s \<Rightarrow> 'k \<Rightarrow> 'v option"
    and ok :: "'s \<Rightarrow> 'k \<Rightarrow> 'v \<Rightarrow> bool"
  assumes put_new: "ok s k v \<Longrightarrow> look s k = None \<Longrightarrow>
      \<exists>s'. put k v s = Inr s' \<and> look s' = (look s)(k \<mapsto> v)"
    and put_dup: "ok s k v \<Longrightarrow> look s k \<noteq> None \<Longrightarrow> \<exists>e. put k v s = Inl e \<and> \<not> is_panic e"
    and put_ok: "ok s k' v' \<Longrightarrow> put k v s = Inr s' \<Longrightarrow> ok s' k' v'"
begin

lemma put_Inr: "ok s k v \<Longrightarrow> put k v s = Inr s' \<Longrightarrow>
    look s k = None \<and> look s' = (look s)(k \<mapsto> v)"
  using put_new [of s k v] put_dup [of s k v] by (cases "look s k") auto

lemma put_Inl: "ok s k v \<Longrightarrow> put k v s = Inl e \<Longrightarrow> look s k \<noteq> None \<and> \<not> is_panic e"
  using put_new [of s k v] put_dup [of s k v] by (cases "look s k") auto

text \<open>The first registration of a key is the one that stays.\<close>

lemma put_keeps: "ok s k v \<Longrightarrow> put k v s = Inr s' \<Longrightarrow> look s k' = Some w \<Longrightarrow> look s' k' = Some w"
  using put_Inr by fastforce

lemma put_all_ok:
  assumes "\<And>k v. (k, v) \<in> set kvs \<Longrightarrow> ok s k v"
    and "distinct (map fst kvs)" "fst ` set kvs \<inter> dom (look s) = {}"
  shows "\<exists>s'. put_all put kvs s = Inr s' \<and> look s' = look s ++ map_of kvs"
  using assms
proof (induction kvs arbitrary: s)
  case (Cons kv kvs)
  obtain k v where kv: "kv = (k, v)" by force
  have ok: "ok s k v" using Cons.prems(1) kv by simp
  have "look s k = None" using Cons.prems(3) kv by auto
  with put_new [OF ok] obtain s1 where s1: "put k v s = Inr s1" "look s1 = (look s)(k \<mapsto> v)"
    by blast
  have "fst ` set kvs \<inter> dom (look s1) = {}"
    using Cons.prems(2,3) s1(2) kv by (auto simp: image_iff)
  with Cons.IH [of s1] Cons.prems kv put_ok [OF _ s1(1)] obtain s' where
    s': "put_all put kvs s1 = Inr s'" "look s' = look s1 ++ map_of kvs" by auto
  have k: "k \<notin> dom (map_of kvs)" using Cons.prems(2) kv by (simp add: dom_map_of_conv_image_fst)
  have "look s' = look s ++ map_of (kv # kvs)"
    unfolding s'(2) s1(2) kv map_add_upd_left [OF k] map_of.simps(2) map_add_upd by simp
  moreover have "put_all put (kv # kvs) s = Inr s'" using s'(1) s1(1) kv by simp
  ultimately show ?case by blast
qed simp

lemma put_all_fails:
  assumes "\<And>k v. (k, v) \<in> set kvs \<Longrightarrow> ok s k v"
    and "\<not> distinct (map fst kvs) \<or> fst ` set kvs \<inter> dom (look s) \<noteq> {}"
  shows "\<exists>e. put_all put kvs s = Inl e \<and> \<not> is_panic e"
  using assms
proof (induction kvs arbitrary: s)
  case (Cons kv kvs)
  obtain k v where kv: "kv = (k, v)" by force
  have ok: "ok s k v" using Cons.prems(1) kv by simp
  show ?case
  proof (cases "put k v s")
    case (Inl e)
    with put_Inl [OF ok] kv show ?thesis by auto
  next
    case (Inr s1)
    with put_Inr [OF ok] have s1: "look s k = None" "look s1 = (look s)(k \<mapsto> v)" by auto
    have "\<not> distinct (map fst kvs) \<or> fst ` set kvs \<inter> dom (look s1) \<noteq> {}"
      using Cons.prems(2) s1 kv by (auto simp: image_iff)
    with Cons.IH [of s1] Cons.prems(1) put_ok [OF _ Inr] Inr kv show ?thesis by auto
  qed
qed simp

end

end
