(* ===== verification/Registry.thy ===== *)
theory Registry
  imports Unique_Map
begin

text \<open>
  The registry of heads and their lifecycle (\<open>internal/body/registry.go\<close>,
  \<open>internal/body/health.go\<close>). A head is what the \<open>Head\<close> interface lists, over a world \<open>'w\<close>
  that its \<open>Start\<close> and \<open>Stop\<close> change. The registry ranges over a Go map, so every sweep
  takes the order of that iteration.
\<close>

section \<open>Health\<close>

datatype health_status = Healthy | Degraded | Unhealthy

fun severity :: "health_status \<Rightarrow> nat" where
  "severity Healthy = 0"
| "severity Degraded = 1"
| "severity Unhealthy = 2"

lemma severity_inj: "severity a = severity b \<Longrightarrow> a = b"
  by (cases a; cases b) auto

text \<open>Health states are ordered from best to worst.\<close>

instantiation health_status :: linorder
begin

definition less_eq_health_status :: "health_status \<Rightarrow> health_status \<Rightarrow> bool" where
  "less_eq_health_status a b \<longleftrightarrow> severity a \<le> severity b"

definition less_health_status :: "health_status \<Rightarrow> health_status \<Rightarrow> bool" where
  "less_health_status a b \<longleftrightarrow> severity a < severity b"

instance
  by standard
    (auto simp: less_eq_health_status_def less_health_status_def intro: severity_inj)

end

lemma Healthy_least [simp]: "Healthy \<le> s"
  by (simp add: less_eq_health_status_def)

lemma le_Healthy [simp]: "s \<le> Healthy \<longleftrightarrow> s = Healthy"
  by (cases s) (simp_all add: less_eq_health_status_def)

record health_report =
  hr_head :: string
  hr_status :: health_status
  hr_detail :: string

section \<open>Heads and registry\<close>

record 'w head =
  hd_name :: string
  hd_start :: "'w \<Rightarrow> unit result \<times> 'w"
  hd_stop :: "'w \<Rightarrow> unit result \<times> 'w"
  hd_health :: "'w \<Rightarrow> health_report"

type_synonym 'w registry = "string \<rightharpoonup> 'w head"

definition new_registry :: "'w registry" where
  "new_registry = Map.empty"

definition register :: "'w head \<Rightarrow> 'w registry \<Rightarrow> 'w registry result" where
  "register h r =
     (if r (hd_name h) \<noteq> None then Inl (Errf ''head %q already registered'' [FStr (hd_name h)])
      else Inr (r(hd_name h \<mapsto> h)))"

definition get_head :: "string \<Rightarrow> 'w registry \<Rightarrow> 'w head result" where
  "get_head n r =
     (case r n of None \<Rightarrow> Inl (Errf ''head %q not found'' [FStr n]) | Some h \<Rightarrow> Inr h)"

definition list_heads :: "string list \<Rightarrow> 'w registry \<Rightarrow> 'w head list" where
  "list_heads ns r = map (\<lambda>n. the (r n)) ns"

definition head_names :: "string list \<Rightarrow> 'w registry \<Rightarrow> string list" where
  "head_names ns r = ns"

fun start_heads :: "'w head list \<Rightarrow> 'w \<Rightarrow> unit result \<times> 'w" where
  "start_heads [] w = (Inr (), w)"
| "start_heads (h # hs) w =
     (case hd_start h w of
        (Inl e, w') \<Rightarrow> (Inl e, w')
      | (Inr _, w') \<Rightarrow> start_heads hs w')"

definition start_all :: "string list \<Rightarrow> 'w registry \<Rightarrow> 'w \<Rightarrow> unit result \<times> 'w" where
  "start_all ns r w = start_heads (list_heads ns r) w"

fun stop_heads :: "'w head list \<Rightarrow> 'w \<Rightarrow> go_error list \<Rightarrow> go_error list \<times> 'w" where
  "stop_heads [] w errs = (errs, w)"
| "stop_heads (h # hs) w errs =
     (case hd_stop h w of
        (Inl e, w') \<Rightarrow> stop_heads hs w' (errs @ [e])
      | (Inr _, w') \<Rightarrow> stop_heads hs w' errs)"

definition stop_all :: "string list \<Rightarrow> 'w registry \<Rightarrow> 'w \<Rightarrow> unit result \<times> 'w" where
  "stop_all ns r w =
     (let (errs, w') = stop_heads (list_heads ns r) w []
      in (if 0 < length errs then Inl (Manyf ''stop errors: %v'' errs) else Inr (), w'))"

definition health_all :: "string list \<Rightarrow> 'w registry \<Rightarrow> 'w \<Rightarrow> health_report list" where
  "health_all ns r w = map (\<lambda>h. hd_health h w) (list_heads ns r)"

fun all_healthy :: "health_report list \<Rightarrow> bool" where
  "all_healthy [] = True"
| "all_healthy (x # xs) = (if hr_status x \<noteq> Healthy then False else all_healthy xs)"

definition is_healthy :: "string list \<Rightarrow> 'w registry \<Rightarrow> 'w \<Rightarrow> bool" where
  "is_healthy ns r w = all_healthy (health_all ns r w)"

interpretation heads: unique_map "\<lambda>_. register" "\<lambda>r. r" "\<lambda>_ n h. n = hd_name h"
  by unfold_locales (auto simp: register_def)

section \<open>Lemmas\<close>

text \<open>A registry files every head under its own name.\<close>

definition registry_inv :: "'w registry \<Rightarrow> bool" where
  "registry_inv r \<longleftrightarrow> (\<forall>n h. r n = Some h \<longrightarrow> hd_name h = n)"

lemma registry_inv_new [simp]: "registry_inv new_registry"
  by (simp add: registry_inv_def new_registry_def)

lemma register_inv: "registry_inv r \<Longrightarrow> register h r = Inr r' \<Longrightarrow> registry_inv r'"
  by (auto simp: registry_inv_def register_def split: if_splits)

lemma all_healthy_iff: "all_healthy xs \<longleftrightarrow> (\<forall>x \<in> set xs. hr_status x \<le> Healthy)"
  by (induction xs) auto

lemma set_list_heads: "key_order r ns \<Longrightarrow> set (list_heads ns r) = ran r"
  by (force simp: list_heads_def key_order_def ran_def)

text \<open>What a sweep of \<open>Stop\<close> calls does when nothing cuts it short.\<close>

fun stop_trace :: "'w head list \<Rightarrow> 'w \<Rightarrow> (string \<times> unit result) list \<times> 'w" where
  "stop_trace [] w = ([], w)"
| "stop_trace (h # hs) w =
     (let (res, w') = hd_stop h w; (tr, w'') = stop_trace hs w' in ((hd_name h, res) # tr, w''))"

fun stop_errors :: "(string \<times> unit result) list \<Rightarrow> go_error list" where
  "stop_errors [] = []"
| "stop_errors ((n, Inl e) # tr) = e # stop_errors tr"
| "stop_errors ((n, Inr u) # tr) = stop_errors tr"

lemma stop_heads_trace:
  "stop_trace hs w = (tr, w') \<Longrightarrow> stop_heads hs w errs = (errs @ stop_errors tr, w')"
proof (induction hs arbitrary: w tr errs)
  case (Cons h hs)
  obtain res w1 where res: "hd_stop h w = (res, w1)" by force
  obtain tr1 w2 where tr1: "stop_trace hs w1 = (tr1, w2)" by force
  from Cons.prems res tr1 have "tr = (hd_name h, res) # tr1" "w' = w2" by simp_all
  with Cons.IH [of w1 tr1] tr1 res show ?case by (cases res) simp_all
qed simp

lemma stop_trace_names: "stop_trace hs w = (tr, w') \<Longrightarrow> map fst tr = map hd_name hs"
  by (induction hs arbitrary: w tr) (auto simp: Let_def split: prod.splits)

lemma stop_errors_empty: "stop_errors tr = [] \<longleftrightarrow> (\<forall>p \<in> set tr. snd p = Inr ())"
  by (induction tr rule: stop_errors.induct) auto

section \<open>Properties\<close>

text \<open>
  \<open>StopAll\<close> stops every registered head exactly once, whatever the other heads return,
  and reports an error exactly when some \<open>Stop\<close> failed, listing all their errors in order.
\<close>

theorem stop_all_reaches_every_head:
  assumes "registry_inv r" "key_order r ns" "stop_all ns r w = (res, w')"
  shows "\<exists>tr. stop_trace (list_heads ns r) w = (tr, w') \<and> distinct (map fst tr) \<and>
    set (map fst tr) = dom r \<and>
    (case res of
       Inr _ \<Rightarrow> \<forall>p \<in> set tr. snd p = Inr ()
     | Inl e \<Rightarrow> e = Manyf ''stop errors: %v'' (stop_errors tr) \<and> (\<exists>p \<in> set tr. snd p \<noteq> Inr ()))"
proof -
  obtain tr w1 where tr: "stop_trace (list_heads ns r) w = (tr, w1)" by force
  have "map hd_name (list_heads ns r) = ns"
    using assms(1,2) unfolding list_heads_def key_order_def registry_inv_def
    by (auto intro!: map_idI)
  with stop_trace_names [OF tr] have names: "map fst tr = ns" by simp
  have sets: "set (map fst tr) = dom r" "distinct (map fst tr)"
    using assms(2) by (simp_all only: names key_order_def)
  have run: "res = (if 0 < length (stop_errors tr)
      then Inl (Manyf ''stop errors: %v'' (stop_errors tr)) else Inr ())" "w' = w1"
    using assms(3) stop_heads_trace [OF tr, of "[]"] by (auto simp: stop_all_def)
  with tr sets run stop_errors_empty [of tr] show ?thesis
    by (intro exI [of _ tr]) simp
qed

definition broken_head :: "string \<Rightarrow> string list head" where
  "broken_head n = \<lparr>hd_name = n, hd_start = \<lambda>w. (Inr (), w @ [n]),
     hd_stop = \<lambda>w. (Inl (Errf n []), w @ [n]),
     hd_health = \<lambda>w. \<lparr>hr_head = n, hr_status = if n \<in> set w then Healthy else Unhealthy,
       hr_detail = []\<rparr>\<rparr>"

definition two_heads :: "string list registry" where
  "two_heads = [''a'' \<mapsto> broken_head ''a'', ''b'' \<mapsto> broken_head ''b'']"

lemma two_heads: "registry_inv two_heads" "key_order two_heads [''b'', ''a'']"
  by (auto simp: two_heads_def registry_inv_def broken_head_def key_order_def split: if_splits)

theorem stop_all_reaches_every_head_witness:
  "\<exists>errs. stop_all [''b'', ''a''] two_heads [] =
     (Inl (Manyf ''stop errors: %v'' errs), [''b'', ''a'']) \<and> length errs = 2"
proof -
  obtain res w' where run: "stop_all [''b'', ''a''] two_heads [] = (res, w')" by force
  have "stop_trace (list_heads [''b'', ''a''] two_heads) [] =
      ([(''b'', Inl (Errf ''b'' [])), (''a'', Inl (Errf ''a'' []))], [''b'', ''a''])"
    by (simp add: list_heads_def two_heads_def broken_head_def)
  with stop_all_reaches_every_head [OF two_heads run] run show ?thesis
    by (cases res) auto
qed

text \<open>
  The registry is healthy exactly when no registered head reports anything worse than
  healthy, in whatever order the map is ranged over.
\<close>

theorem is_healthy_iff:
  assumes "key_order r ns"
  shows "is_healthy ns r w \<longleftrightarrow> (\<forall>h \<in> ran r. hr_status (hd_health h w) \<le> Healthy)"
  using set_list_heads [OF assms] by (simp add: is_healthy_def all_healthy_iff health_all_def)

theorem is_healthy_iff_witness:
  "\<not> is_healthy [''b'', ''a''] two_heads [''a''] \<and> is_healthy [''b'', ''a''] two_heads [''a'', ''b'']"
proof -
  have "ran two_heads = {broken_head ''a'', broken_head ''b''}" by (auto simp: two_heads_def)
  then show ?thesis
    unfolding is_healthy_iff [OF two_heads(2)] by (simp add: broken_head_def)
qed

text \<open>
  \<open>StartAll\<close> returns the error of the first head, in the order of the iteration, whose
  \<open>Start\<close> fails; the heads before it have been started, and none after it is touched.
\<close>

theorem start_all_aborts:
  assumes "start_all ns r w = (Inl e, w')"
  shows "\<exists>pre n post w1. ns = pre @ n # post \<and> start_all pre r w = (Inr (), w1) \<and>
    hd_start (the (r n)) w1 = (Inl e, w')"
  using assms
proof (induction ns arbitrary: w)
  case (Cons n ns)
  obtain x w1 where x: "hd_start (the (r n)) w = (x, w1)" by force
  have unfold: "start_all (n # ms) r w =
      (case x of Inl e \<Rightarrow> (Inl e, w1) | Inr _ \<Rightarrow> start_all ms r w1)" for ms
    using x by (simp add: start_all_def list_heads_def split: sum.split)
  show ?case
  proof (cases x)
    case (Inl e')
    have "start_all [] r w = (Inr (), w)" by (simp add: start_all_def list_heads_def)
    moreover have "hd_start (the (r n)) w = (Inl e, w')" using Cons.prems unfold Inl x by simp
    ultimately show ?thesis by (metis append_Nil)
  next
    case (Inr u)
    with Cons.prems unfold Cons.IH [of w1] obtain pre n' post w2 where
      "ns = pre @ n' # post" "start_all pre r w1 = (Inr (), w2)"
      "hd_start (the (r n')) w2 = (Inl e, w')" by auto
    with unfold [of pre] Inr show ?thesis by (metis append_Cons old.sum.simps(6))
  qed
qed (simp add: start_all_def list_heads_def)

definition refusing_head :: "string \<Rightarrow> string list head" where
  "refusing_head n = (broken_head n)\<lparr>hd_start := \<lambda>w. (Inl (Errf n []), w)\<rparr>"

theorem start_all_aborts_witness:
  "start_all [''a'', ''b'', ''c''] (two_heads(''b'' \<mapsto> refusing_head ''b'', ''c'' \<mapsto> broken_head ''c'')) [] =
     (Inl (Errf ''b'' []), [''a'']) \<and>
   (\<exists>pre n post. [''a'', ''b'', ''c''] = pre @ n # post \<and> n = ''b'')"
proof -
  let ?r = "two_heads(''b'' \<mapsto> refusing_head ''b'', ''c'' \<mapsto> broken_head ''c'')"
  have run: "start_all [''a'', ''b'', ''c''] ?r [] = (Inl (Errf ''b'' []), [''a''])"
    by (simp add: start_all_def list_heads_def two_heads_def refusing_head_def broken_head_def)
  from start_all_aborts [OF run] obtain pre n post w1 where
    split: "[''a'', ''b'', ''c''] = pre @ n # post" "hd_start (the (?r n)) w1 = (Inl (Errf ''b'' []), [''a''])"
    by blast
  then have "n \<in> {''a'', ''b'', ''c''}" by (metis in_set_conv_decomp list.simps(15) list.set(1))
  with split(2) have "n = ''b''"
    by (auto simp: two_heads_def refusing_head_def broken_head_def)
  with run split(1) show ?thesis by blast
qed

end
