(* ===== verification/Json.thy ===== *)
theory Json
  imports Prelude
begin

text \<open>
  The part of \<open>encoding/json\<close> the source uses: JSON text, its compact printer with Go's
  HTML-safe escapes, its parser, and the decoding of an object into struct fields (names
  compared without regard to ASCII case, the last duplicate wins, \<open>null\<close> leaves a field at
  its zero value, a \<open>RawMessage\<close> keeps the bytes of its value). Strings are byte strings;
  bytes from 128 on are passed through, which is what Go does on valid UTF-8. Numbers keep
  their literal. Go's nesting limit of 10000 and its float range check are not modelled.
\<close>

section \<open>Values and printing\<close>

datatype json =
    JNull
  | JBool bool
  | JNum string
  | JStr string
  | JArr "json list"
  | JObj "(string \<times> json) list"

abbreviation (input) "quote \<equiv> CHR 0x22"
abbreviation (input) "backslash \<equiv> CHR 0x5C"

definition hex_digit :: "nat \<Rightarrow> char" where
  "hex_digit n = (if n < 10 then char_of (48 + n) else char_of (87 + n))"

definition escape_char :: "char \<Rightarrow> string" where
  "escape_char c =
     (let n = (of_char c :: nat) in
      if c = quote \<or> c = backslash then [backslash, c]
      else if n = 8 then [backslash, CHR ''b'']
      else if n = 12 then [backslash, CHR ''f'']
      else if n = 10 then [backslash, CHR ''n'']
      else if n = 13 then [backslash, CHR ''r'']
      else if n = 9 then [backslash, CHR ''t'']
      else if n < 32 \<or> c = CHR ''<'' \<or> c = CHR ''>'' \<or> c = CHR ''&'' then
        [backslash, CHR ''u'', CHR ''0'', CHR ''0'', hex_digit (n div 16), hex_digit (n mod 16)]
      else [c])"

definition print_string :: "string \<Rightarrow> string" where
  "print_string s = quote # concat (map escape_char s) @ [quote]"

fun print :: "json \<Rightarrow> string" and prints :: "json list \<Rightarrow> string"
  and print_fields :: "(string \<times> json) list \<Rightarrow> string" where
  "print JNull = ''null''"
| "print (JBool b) = (if b then ''true'' else ''false'')"
| "print (JNum s) = s"
| "print (JStr s) = print_string s"
| "print (JArr vs) = ''['' @ prints vs @ '']''"
| "print (JObj kvs) = ''{'' @ print_fields kvs @ ''}''"
| "prints [] = []"
| "prints [v] = print v"
| "prints (v # vs) = print v @ '','' @ prints vs"
| "print_fields [] = []"
| "print_fields [(k, v)] = print_string k @ '':'' @ print v"
| "print_fields ((k, v) # kvs) = print_string k @ '':'' @ print v @ '','' @ print_fields kvs"

section \<open>Parsing\<close>

definition ws :: "char \<Rightarrow> bool" where
  "ws c \<longleftrightarrow> c \<in> {CHR '' '', CHR 0x09, CHR 0x0A, CHR 0x0D}"

abbreviation skip :: "string \<Rightarrow> string" where
  "skip \<equiv> dropWhile ws"

definition hex_val :: "char \<Rightarrow> nat option" where
  "hex_val c =
     (let n = (of_char c :: nat) in
      if 48 \<le> n \<and> n \<le> 57 then Some (n - 48)
      else if 97 \<le> n \<and> n \<le> 102 then Some (n - 87)
      else if 65 \<le> n \<and> n \<le> 70 then Some (n - 55)
      else None)"

fun hex4 :: "string \<Rightarrow> (nat \<times> string) option" where
  "hex4 (a # b # c # d # s) =
     (case (hex_val a, hex_val b, hex_val c, hex_val d) of
        (Some a, Some b, Some c, Some d) \<Rightarrow> Some (((a * 16 + b) * 16 + c) * 16 + d, s)
      | _ \<Rightarrow> None)"
| "hex4 _ = None"

definition utf8 :: "nat \<Rightarrow> string" where
  "utf8 n =
     (if n < 0x80 then [char_of n]
      else if n < 0x800 then [char_of (0xC0 + n div 64), char_of (0x80 + n mod 64)]
      else if n < 0x10000 then
        [char_of (0xE0 + n div 4096), char_of (0x80 + n div 64 mod 64), char_of (0x80 + n mod 64)]
      else
        [char_of (0xF0 + n div 262144), char_of (0x80 + n div 4096 mod 64),
         char_of (0x80 + n div 64 mod 64), char_of (0x80 + n mod 64)])"

text \<open>A surrogate pair is one code point; an unpaired surrogate is replaced by U+FFFD.\<close>

definition unescape_u :: "nat \<Rightarrow> string \<Rightarrow> string \<times> string" where
  "unescape_u n s =
     (if 0xD800 \<le> n \<and> n < 0xDC00 then
        (if take 2 s = [backslash, CHR ''u''] then
           (case hex4 (drop 2 s) of
              Some (m, r) \<Rightarrow>
                if 0xDC00 \<le> m \<and> m < 0xE000
                then (utf8 (0x10000 + (n - 0xD800) * 1024 + (m - 0xDC00)), r)
                else (utf8 0xFFFD, s)
            | None \<Rightarrow> (utf8 0xFFFD, s))
         else (utf8 0xFFFD, s))
      else if 0xDC00 \<le> n \<and> n < 0xE000 then (utf8 0xFFFD, s)
      else (utf8 n, s))"

definition simple_escape :: "char \<Rightarrow> char option" where
  "simple_escape c =
     (if c \<in> {quote, backslash, CHR ''/''} then Some c
      else if c = CHR ''b'' then Some (CHR 0x08)
      else if c = CHR ''f'' then Some (CHR 0x0C)
      else if c = CHR ''n'' then Some (CHR 0x0A)
      else if c = CHR ''r'' then Some (CHR 0x0D)
      else if c = CHR ''t'' then Some (CHR 0x09)
      else None)"

text \<open>The text after the opening quote, with the length of the text as fuel.\<close>

fun p_chars :: "nat \<Rightarrow> string \<Rightarrow> (string \<times> string) option" where
  "p_chars 0 s = None"
| "p_chars (Suc n) s =
     (case s of
        [] \<Rightarrow> None
      | c # r \<Rightarrow>
          if c = quote then Some ([], r)
          else if c = backslash then
            (case r of
               [] \<Rightarrow> None
             | e # r' \<Rightarrow>
                 if e = CHR ''u'' then
                   (case hex4 r' of
                      None \<Rightarrow> None
                    | Some (m, r'') \<Rightarrow>
                        (case unescape_u m r'' of (t, q) \<Rightarrow> map_option (apfst ((@) t)) (p_chars n q)))
                 else (case simple_escape e of
                         None \<Rightarrow> None
                       | Some d \<Rightarrow> map_option (apfst (Cons d)) (p_chars n r')))
          else if (of_char c :: nat) < 32 then None
          else map_option (apfst (Cons c)) (p_chars n r))"

definition p_string :: "string \<Rightarrow> (string \<times> string) option" where
  "p_string s = p_chars (Suc (length s)) s"

definition digit :: "char \<Rightarrow> bool" where
  "digit c \<longleftrightarrow> (48 :: nat) \<le> of_char c \<and> of_char c \<le> (57 :: nat)"

definition digits :: "string \<Rightarrow> (string \<times> string) option" where
  "digits s = (if takeWhile digit s = [] then None else Some (takeWhile digit s, dropWhile digit s))"

text \<open>\<open>-? (0 | [1-9] digits) (. digits)? ([eE] [+-]? digits)?\<close>\<close>

fun p_sign :: "string \<Rightarrow> string \<times> string" where
  "p_sign (c # s) = (if c = CHR ''-'' then ([c], s) else ([], c # s))"
| "p_sign [] = ([], [])"

fun p_int :: "string \<Rightarrow> (string \<times> string) option" where
  "p_int (c # s) = (if c = CHR ''0'' then Some ([c], s) else digits (c # s))"
| "p_int [] = None"

fun p_frac :: "string \<Rightarrow> (string \<times> string) option" where
  "p_frac (c # s) =
     (if c = CHR ''.'' then map_option (apfst (Cons c)) (digits s) else Some ([], c # s))"
| "p_frac [] = Some ([], [])"

fun p_exp_sign :: "string \<Rightarrow> string \<times> string" where
  "p_exp_sign (c # s) = (if c \<in> {CHR ''-'', CHR ''+''} then ([c], s) else ([], c # s))"
| "p_exp_sign [] = ([], [])"

fun p_exp :: "string \<Rightarrow> (string \<times> string) option" where
  "p_exp (c # s) =
     (if c \<in> {CHR ''e'', CHR ''E''}
      then (case p_exp_sign s of (g, r) \<Rightarrow> map_option (apfst (\<lambda>ds. c # g @ ds)) (digits r))
      else Some ([], c # s))"
| "p_exp [] = Some ([], [])"

definition p_number :: "string \<Rightarrow> (string \<times> string) option" where
  "p_number s =
     (case p_sign s of (g, s1) \<Rightarrow>
      (case p_int s1 of None \<Rightarrow> None | Some (i, s2) \<Rightarrow>
       (case p_frac s2 of None \<Rightarrow> None | Some (f, s3) \<Rightarrow>
        (case p_exp s3 of None \<Rightarrow> None | Some (e, s4) \<Rightarrow> Some (g @ i @ f @ e, s4)))))"

fun p_lit :: "string \<Rightarrow> json \<Rightarrow> string \<Rightarrow> (json \<times> string) option" where
  "p_lit [] v s = Some (v, s)"
| "p_lit (c # cs) v (d # s) = (if c = d then p_lit cs v s else None)"
| "p_lit (c # cs) v [] = None"

fun p_val :: "nat \<Rightarrow> string \<Rightarrow> (json \<times> string) option"
  and p_elems :: "nat \<Rightarrow> string \<Rightarrow> (json list \<times> string) option"
  and p_members :: "nat \<Rightarrow> string \<Rightarrow> ((string \<times> json) list \<times> string) option" where
  "p_val 0 s = None"
| "p_val (Suc n) s =
     (case skip s of
        [] \<Rightarrow> None
      | c # r \<Rightarrow>
          if c = CHR ''n'' then p_lit ''null'' JNull (c # r)
          else if c = CHR ''t'' then p_lit ''true'' (JBool True) (c # r)
          else if c = CHR ''f'' then p_lit ''false'' (JBool False) (c # r)
          else if c = quote then map_option (apfst JStr) (p_string r)
          else if c = CHR ''['' then
            (if take 1 (skip r) = '']'' then Some (JArr [], tl (skip r))
             else map_option (apfst JArr) (p_elems n r))
          else if c = CHR ''{'' then
            (if take 1 (skip r) = ''}'' then Some (JObj [], tl (skip r))
             else map_option (apfst JObj) (p_members n r))
          else map_option (apfst JNum) (p_number (c # r)))"
| "p_elems 0 s = None"
| "p_elems (Suc n) s =
     (case p_val n s of
        None \<Rightarrow> None
      | Some (v, r) \<Rightarrow>
          (case skip r of
             [] \<Rightarrow> None
           | d # r' \<Rightarrow>
               if d = CHR '','' then map_option (apfst (Cons v)) (p_elems n r')
               else if d = CHR '']'' then Some ([v], r') else None))"
| "p_members 0 s = None"
| "p_members (Suc n) s =
     (case skip s of
        [] \<Rightarrow> None
      | q # s1 \<Rightarrow>
          if q \<noteq> quote then None
          else (case p_string s1 of
                  None \<Rightarrow> None
                | Some (k, s2) \<Rightarrow>
                    (case skip s2 of
                       [] \<Rightarrow> None
                     | d # s3 \<Rightarrow>
                         if d \<noteq> CHR '':'' then None
                         else (case p_val n s3 of
                                 None \<Rightarrow> None
                               | Some (v, s4) \<Rightarrow>
                                   (case skip s4 of
                                      [] \<Rightarrow> None
                                    | e # s5 \<Rightarrow>
                                        if e = CHR '','' then
                                          map_option (apfst (Cons (k, v))) (p_members n s5)
                                        else if e = CHR ''}'' then Some ([(k, v)], s5)
                                        else None)))))"

text \<open>Every level of the recursion consumes a byte, so the length is fuel enough.\<close>

definition parse :: "string \<Rightarrow> json option" where
  "parse s =
     (case p_val (2 * length s + 1) s of
        Some (v, r) \<Rightarrow> if skip r = [] then Some v else None
      | None \<Rightarrow> None)"

section \<open>Round trip\<close>

lemma hex_val_digit: "n < 16 \<Longrightarrow> hex_val (hex_digit n) = Some n"
  by (simp add: hex_val_def hex_digit_def)



lemma escape_char_cases:
  obtains "escape_char c = [c]" "c \<noteq> quote" "c \<noteq> backslash" "\<not> (of_char c :: nat) < 32"
  | e where "escape_char c = [backslash, e]" "e \<noteq> CHR ''u''" "simple_escape e = Some c"
  | h l where "escape_char c = [backslash, CHR ''u'', CHR ''0'', CHR ''0'', h, l]"
      "\<And>s. hex4 (CHR ''0'' # CHR ''0'' # h # l # s) = Some (of_char c, s)" "(of_char c :: nat) < 128"
proof -
  let ?n = "of_char c :: nat"
  consider "c = quote \<or> c = backslash"
    | "c \<noteq> quote" "c \<noteq> backslash" "?n \<in> {8, 12, 10, 13, 9}"
    | "c \<noteq> quote" "c \<noteq> backslash" "?n \<notin> {8, 12, 10, 13, 9}"
      "?n < 32 \<or> c = CHR ''<'' \<or> c = CHR ''>'' \<or> c = CHR ''&''"
    | "c \<noteq> quote" "c \<noteq> backslash" "?n \<notin> {8, 12, 10, 13, 9}" "\<not> ?n < 32"
      "c \<notin> {CHR ''<'', CHR ''>'', CHR ''&''}" by blast
  then show ?thesis
  proof cases
    case 1
    then have "escape_char c = [backslash, c]" by (simp add: escape_char_def)
    moreover have "simple_escape c = Some c" "c \<noteq> CHR ''u''" using 1 by (auto simp: simple_escape_def)
    ultimately show ?thesis using that(2) by blast
  next
    case 2
    then consider "?n = 8" | "?n = 12" | "?n = 10" | "?n = 13" | "?n = 9" by blast
    then have "c = CHR 0x08 \<or> c = CHR 0x0C \<or> c = CHR 0x0A \<or> c = CHR 0x0D \<or> c = CHR 0x09"
      by cases (simp_all flip: of_char_eq_iff [where 'a = nat])
    then show ?thesis
      by (elim disjE) (rule that(2), (simp add: escape_char_def simple_escape_def; fail)+)+
  next
    case 3
    then have small: "?n < 128" by auto
    have "escape_char c = [backslash, CHR ''u'', CHR ''0'', CHR ''0'',
        hex_digit (?n div 16), hex_digit (?n mod 16)]"
      using 3 by (simp add: escape_char_def Let_def)
    moreover have "hex4 (CHR ''0'' # CHR ''0'' # hex_digit (?n div 16) # hex_digit (?n mod 16) # s) =
        Some (?n, s)" for s
      using small by (simp add: hex_val_digit) (simp add: hex_val_def)
    ultimately show ?thesis using small by (rule that(3))
  next
    case 4
    then show ?thesis by (intro that(1)) (auto simp: escape_char_def)
  qed
qed

lemma p_chars_escape:
  "length s < n \<Longrightarrow> p_chars n (concat (map escape_char s) @ quote # r) = Some (s, r)"
proof (induction s arbitrary: n)
  case Nil
  then show ?case by (cases n) simp_all
next
  case (Cons c s)
  then obtain m where m: "n = Suc m" "length s < m" by (cases n) auto
  note IH = Cons.IH [OF m(2)]
  show ?case
  proof (cases rule: escape_char_cases [of c])
    case 1
    with m IH show ?thesis by simp
  next
    case (2 e)
    with m IH show ?thesis by simp
  next
    case (3 h l)
    then have "unescape_u (of_char c) t = ([c], t)" for t
      by (simp add: unescape_u_def utf8_def)
    with 3 m IH show ?thesis by simp
  qed
qed

lemma p_string_print: "p_string (concat (map escape_char s) @ quote # r) = Some (s, r)"
proof -
  have "escape_char c \<noteq> []" for c by (cases rule: escape_char_cases [of c]) simp_all
  then have "length s \<le> length (concat (map escape_char s))"
    by (induction s) (simp_all add: Suc_le_eq trans_less_add1 add_less_le_mono [of 0, simplified]
      add_strict_increasing)
  then show ?thesis unfolding p_string_def by (intro p_chars_escape) simp
qed

text \<open>What follows a value in printed text.\<close>

definition delim :: "string \<Rightarrow> bool" where
  "delim r \<longleftrightarrow> r = [] \<or> ws (hd r) \<or> hd r \<in> {CHR '','', CHR '']'', CHR ''}''}"

definition num_ok :: "string \<Rightarrow> bool" where
  "num_ok s \<longleftrightarrow> p_number s = Some (s, [])"

lemma delim_hd:
  assumes "delim (c # r)"
  shows "\<not> digit c" "c \<noteq> CHR ''.''" "c \<noteq> CHR ''e''" "c \<noteq> CHR ''E''"
  using assms by (auto simp: delim_def ws_def digit_def)

lemma digits_ext:
  assumes "delim r" "digits s = Some (d, t)"
  shows "digits (s @ r) = Some (d, t @ r)"
proof -
  have "takeWhile digit r = []" "dropWhile digit r = r"
    using delim_hd(1) assms(1) by (cases r; auto)+
  then have "takeWhile digit (s @ r) = takeWhile digit s" "dropWhile digit (s @ r) = dropWhile digit s @ r"
    by (induction s) auto
  with assms(2) show ?thesis by (auto simp: digits_def split: if_splits)
qed

lemma p_frac_ext: "delim r \<Longrightarrow> p_frac s = Some (d, t) \<Longrightarrow> p_frac (s @ r) = Some (d, t @ r)"
  using digits_ext delim_hd(2) by (cases s; cases r) (fastforce split: if_splits)+

lemma p_exp_ext: "delim r \<Longrightarrow> p_exp s = Some (d, t) \<Longrightarrow> p_exp (s @ r) = Some (d, t @ r)"
proof (cases s)
  case Nil
  moreover assume "delim r" "p_exp s = Some (d, t)"
  ultimately show ?thesis using delim_hd(3,4) by (cases r) auto
next
  case (Cons c u)
  assume a: "delim r" "p_exp s = Some (d, t)"
  obtain g v where gv: "p_exp_sign u = (g, v)" by force
  show ?thesis
  proof (cases "c \<in> {CHR ''e'', CHR ''E''}")
    case True
    with a(2) Cons gv obtain ds where ds: "digits v = Some (ds, t)" "d = c # g @ ds" by auto
    then have "v \<noteq> []" by (auto simp: digits_def)
    with gv have "p_exp_sign (u @ r) = (g, v @ r)" by (cases u) (auto split: if_splits)
    with True Cons ds digits_ext [OF a(1) ds(1)] show ?thesis by simp
  next
    case False
    with a(2) Cons have "d = []" "t = s" by auto
    moreover from False Cons have "p_exp (s @ r) = Some ([], s @ r)" by simp
    ultimately show ?thesis by simp
  qed
qed

lemma p_number_ext:
  assumes "delim r" "num_ok s"
  shows "p_number (s @ r) = Some (s, r)"
proof -
  from assms(2) obtain g s1 i s2 f s3 e where
    p: "p_sign s = (g, s1)" "p_int s1 = Some (i, s2)" "p_frac s2 = Some (f, s3)"
      "p_exp s3 = Some (e, [])" "s = g @ i @ f @ e"
    by (auto simp: num_ok_def p_number_def split: prod.splits option.splits)
  have "s1 \<noteq> []" using p(2) by auto
  with p(1) have "p_sign (s @ r) = (g, s1 @ r)" by (cases s) (auto split: if_splits)
  moreover have "p_int (s1 @ r) = Some (i, s2 @ r)"
    using \<open>s1 \<noteq> []\<close> p(2) digits_ext [OF assms(1), of s1] by (cases s1) (auto split: if_splits)
  moreover have "p_frac (s2 @ r) = Some (f, s3 @ r)" by (rule p_frac_ext [OF assms(1) p(3)])
  moreover have "p_exp (s3 @ r) = Some (e, r)" using p_exp_ext [OF assms(1) p(4)] by simp
  ultimately show ?thesis by (simp add: p_number_def p(5))
qed

lemma num_ok_hd:
  assumes "num_ok s"
  obtains c u where "s = c # u" "c = CHR ''-'' \<or> digit c"
proof (cases s)
  case Nil
  with assms show ?thesis by (simp add: num_ok_def p_number_def)
next
  case (Cons c u)
  with assms have "c = CHR ''-'' \<or> c = CHR ''0'' \<or> digits (c # u) \<noteq> None"
    by (auto simp: num_ok_def p_number_def split: if_splits option.splits)
  then have "c = CHR ''-'' \<or> digit c" by (auto simp: digits_def digit_def split: if_splits)
  with Cons that show ?thesis by blast
qed

fun json_ok :: "json \<Rightarrow> bool" where
  "json_ok (JNum s) = num_ok s"
| "json_ok (JArr vs) = (\<forall>v \<in> set vs. json_ok v)"
| "json_ok (JObj kvs) = (\<forall>kv \<in> set kvs. json_ok (snd kv))"
| "json_ok _ = True"

fun need :: "json \<Rightarrow> nat" and needs :: "json list \<Rightarrow> nat"
  and needf :: "(string \<times> json) list \<Rightarrow> nat" where
  "need (JArr vs) = Suc (needs vs)"
| "need (JObj kvs) = Suc (needf kvs)"
| "need _ = 1"
| "needs [] = 0"
| "needs (v # vs) = Suc (max (need v) (needs vs))"
| "needf [] = 0"
| "needf ((k, v) # kvs) = Suc (max (need v) (needf kvs))"

lemma first_char:
  assumes "json_ok v"
  obtains c u where "print v = c # u" "\<not> ws c" "c \<noteq> CHR '']''" "c \<noteq> CHR ''}''"
proof (cases v)
  case (JNum s)
  with assms num_ok_hd [of s] obtain c u where "s = c # u" "c = CHR ''-'' \<or> digit c" by auto
  then have "\<not> ws c" "c \<noteq> CHR '']''" "c \<noteq> CHR ''}''" by (auto simp: ws_def digit_def)
  with JNum that [of c u] \<open>s = c # u\<close> show ?thesis by simp
next
  case (JBool b)
  with that show ?thesis by (cases b) (auto simp: ws_def)
qed (use that in \<open>auto simp: ws_def print_string_def\<close>)

lemma p_val_number:
  assumes "num_ok s" "delim r"
  shows "p_val (Suc n) (s @ r) = Some (JNum s, r)"
proof -
  obtain c u where s: "s = c # u" "c = CHR ''-'' \<or> digit c" using num_ok_hd [OF assms(1)] .
  then have "c \<noteq> CHR ''n''" "c \<noteq> CHR ''t''" "c \<noteq> CHR ''f''" "c \<noteq> quote" "c \<noteq> CHR ''[''"
    "c \<noteq> CHR ''{''" "\<not> ws c" by (auto simp: digit_def ws_def)
  moreover have "p_number (c # u @ r) = Some (s, r)" using p_number_ext [OF assms(2,1)] s by simp
  ultimately show ?thesis using s by simp
qed

lemma delim_simps [simp]: "delim (CHR '','' # r)" "delim (CHR '']'' # r)" "delim (CHR ''}'' # r)" "delim []"
  by (simp_all add: delim_def)

lemma ws_simps [simp]: "\<not> ws (CHR '','')" "\<not> ws (CHR '']'')" "\<not> ws (CHR ''}'')" "\<not> ws (CHR '':'')"
  "\<not> ws quote" "\<not> ws (CHR ''['')" "\<not> ws (CHR ''{'')" "\<not> ws (CHR ''n'')" "\<not> ws (CHR ''t'')"
  "\<not> ws (CHR ''f'')"
  by (simp_all add: ws_def)

lemma skip_print: "json_ok v \<Longrightarrow> skip (print v @ r) = print v @ r"
  using first_char [of v] by fastforce

lemma print_parse:
  "json_ok v \<Longrightarrow> need v \<le> n \<Longrightarrow> delim r \<Longrightarrow> p_val n (print v @ r) = Some (v, r)"
  "vs \<noteq> [] \<Longrightarrow> \<forall>v \<in> set vs. json_ok v \<Longrightarrow> needs vs \<le> n \<Longrightarrow>
     p_elems n (prints vs @ CHR '']'' # r) = Some (vs, r)"
  "kvs \<noteq> [] \<Longrightarrow> \<forall>kv \<in> set kvs. json_ok (snd kv) \<Longrightarrow> needf kvs \<le> n \<Longrightarrow>
     p_members n (print_fields kvs @ CHR ''}'' # r) = Some (kvs, r)"
proof (induction v and vs and kvs arbitrary: n r and n r and n r rule: print_prints_print_fields.induct)
  case 1
  then show ?case by (cases n) auto
next
  case (2 b)
  then show ?case by (cases n) auto
next
  case (3 s)
  then show ?case using p_val_number by (cases n) auto
next
  case (4 s)
  then show ?case using p_string_print by (cases n) (auto simp: print_string_def)
next
  case (5 vs)
  then obtain m where m: "n = Suc m" "needs vs \<le> m" by (cases n) auto
  show ?case
  proof (cases vs)
    case Nil
    with m show ?thesis by simp
  next
    case (Cons v vs')
    then have ok: "json_ok v" using 5 by simp
    obtain c u where c: "print v = c # u" "\<not> ws c" "c \<noteq> CHR '']''" using first_char [OF ok] .
    then obtain u' where "prints vs = c # u'" using Cons by (cases vs') auto
    with 5 m Cons c show ?thesis by simp
  qed
next
  case (6 kvs)
  then obtain m where m: "n = Suc m" "needf kvs \<le> m" by (cases n) auto
  show ?case
  proof (cases kvs)
    case Nil
    with m show ?thesis by simp
  next
    case (Cons kv kvs')
    then obtain u' where "print_fields kvs = quote # u'"
      by (cases kv; cases kvs') (auto simp: print_string_def)
    with 6 m Cons show ?thesis by simp
  qed
next
  case 7
  then show ?case by simp
next
  case (8 v)
  then show ?case by (cases n) auto
next
  case (9 v w vs)
  then show ?case by (cases n) auto
next
  case 10
  then show ?case by simp
next
  case (11 k v)
  then show ?case by (cases n) (auto simp: print_string_def p_string_print)
next
  case (12 k v w kvs)
  then show ?case by (cases n) (auto simp: print_string_def p_string_print)
qed

lemma need_le:
  "json_ok v \<Longrightarrow> need v \<le> length (print v)"
  "\<forall>v \<in> set vs. json_ok v \<Longrightarrow> needs vs \<le> Suc (length (prints vs))"
  "\<forall>kv \<in> set kvs. json_ok (snd kv) \<Longrightarrow> needf kvs \<le> Suc (length (print_fields kvs))"
proof (induction v and vs and kvs rule: print_prints_print_fields.induct)
  case (3 s)
  then show ?case using num_ok_hd [of s] by fastforce
qed (auto simp: print_string_def)

theorem parse_print: "json_ok v \<Longrightarrow> parse (print v) = Some v"
  using print_parse(1) [of v "2 * length (print v) + 1" "[]"] need_le(1) [of v]
  by (simp add: parse_def)

end
