(* ===== verification/Go_Strings.thy ===== *)
theory Go_Strings
  imports Main
begin

text \<open>
  The functions of Go's \<open>strings\<close> package that the source uses, on strings as lists of
  bytes. Case mapping is the one of ASCII letters; the code lowers and upper-cases only
  configuration keys and words of English text.
\<close>

section \<open>Prefixes and case\<close>

definition has_prefix :: "string \<Rightarrow> string \<Rightarrow> bool" where
  "has_prefix p s \<longleftrightarrow> take (length p) s = p"

definition trim_prefix :: "string \<Rightarrow> string \<Rightarrow> string" where
  "trim_prefix p s = (if has_prefix p s then drop (length p) s else s)"

definition has_suffix :: "string \<Rightarrow> string \<Rightarrow> bool" where
  "has_suffix p s \<longleftrightarrow> has_prefix (rev p) (rev s)"

definition trim_suffix :: "string \<Rightarrow> string \<Rightarrow> string" where
  "trim_suffix p s = rev (trim_prefix (rev p) (rev s))"

definition lower_char :: "char \<Rightarrow> char" where
  "lower_char c =
     (if (65 :: nat) \<le> of_char c \<and> of_char c \<le> (90 :: nat) then char_of (of_char c + 32 :: nat) else c)"

definition upper_char :: "char \<Rightarrow> char" where
  "upper_char c =
     (if (97 :: nat) \<le> of_char c \<and> of_char c \<le> (122 :: nat) then char_of (of_char c - 32 :: nat) else c)"

definition to_lower :: "string \<Rightarrow> string" where
  "to_lower s = map lower_char s"

definition to_upper :: "string \<Rightarrow> string" where
  "to_upper s = map upper_char s"

definition is_upper :: "char \<Rightarrow> bool" where
  "is_upper c \<longleftrightarrow> (65 :: nat) \<le> of_char c \<and> of_char c \<le> (90 :: nat)"

lemma has_prefix_append [simp]: "has_prefix p (p @ s)"
  by (simp add: has_prefix_def)

lemma trim_prefix_append [simp]: "trim_prefix p (p @ s) = s"
  by (simp add: trim_prefix_def)

lemma trim_suffix_append [simp]: "trim_suffix p (s @ p) = s"
  by (simp add: trim_suffix_def)

lemma lower_upper_char: "\<not> is_upper c \<Longrightarrow> lower_char (upper_char c) = c"
  by (cases "(97 :: nat) \<le> of_char c \<and> of_char c \<le> (122 :: nat)")
     (auto simp: lower_char_def upper_char_def is_upper_def)

lemma lower_upper: "\<forall>c \<in> set s. \<not> is_upper c \<Longrightarrow> to_lower (to_upper s) = s"
  unfolding to_lower_def to_upper_def by (induction s) (simp_all add: lower_upper_char)

section \<open>Searching and replacing\<close>

text \<open>\<open>ReplaceAll\<close> goes left to right and does not look again at what it has inserted.\<close>

fun replace_all :: "string \<Rightarrow> string \<Rightarrow> string \<Rightarrow> string" where
  "replace_all old new [] = []"
| "replace_all old new (c # s) =
     (if old \<noteq> [] \<and> has_prefix old (c # s)
      then new @ replace_all old new (drop (length old - 1) s)
      else c # replace_all old new s)"

fun contains :: "string \<Rightarrow> string \<Rightarrow> bool" where
  "contains [] p = (p = [])"
| "contains (c # s) p = (has_prefix p (c # s) \<or> contains s p)"

text \<open>\<open>Index\<close> and \<open>LastIndex\<close> of a byte, \<open>None\<close> for \<open>-1\<close>.\<close>

fun index_of :: "char \<Rightarrow> string \<Rightarrow> nat option" where
  "index_of c [] = None"
| "index_of c (d # s) = (if d = c then Some 0 else map_option Suc (index_of c s))"

definition last_index_of :: "char \<Rightarrow> string \<Rightarrow> nat option" where
  "last_index_of c s = map_option (\<lambda>i. length s - 1 - i) (index_of c (rev s))"

lemma index_of_Some: "index_of c s = Some i \<Longrightarrow> i < length s \<and> s ! i = c \<and> c \<notin> set (take i s)"
  by (induction s arbitrary: i) (auto split: if_splits)

lemma index_of_None [simp]: "index_of c s = None \<longleftrightarrow> c \<notin> set s"
  by (induction s) auto

lemma index_of_append: "c \<notin> set s \<Longrightarrow> index_of c (s @ c # t) = Some (length s)"
  by (induction s) auto

lemma last_index_of_Some:
  assumes "last_index_of c s = Some i"
  shows "i < length s \<and> s ! i = c \<and> c \<notin> set (drop (Suc i) s)"
proof -
  from assms obtain j where j: "index_of c (rev s) = Some j" "i = length s - 1 - j"
    by (auto simp: last_index_of_def)
  from index_of_Some [OF j(1)] have "j < length s" "rev s ! j = c" "c \<notin> set (take j (rev s))" by auto
  moreover from this(1) j(2) have "Suc i = length s - j" by simp
  ultimately show ?thesis using j(2) by (auto simp: rev_nth take_rev)
qed

lemma last_index_of_None [simp]: "last_index_of c s = None \<longleftrightarrow> c \<notin> set s"
  by (simp add: last_index_of_def)

lemma last_index_of_append: "c \<notin> set t \<Longrightarrow> last_index_of c (s @ c # t) = Some (length s)"
  using index_of_append [of c "rev t" "rev s"] by (simp add: last_index_of_def)

section \<open>White space, splitting and joining\<close>

text \<open>The ASCII white space that \<open>TrimSpace\<close> and \<open>Fields\<close> look for.\<close>

definition is_space :: "char \<Rightarrow> bool" where
  "is_space c \<longleftrightarrow> of_char c \<in> {9 :: nat, 10, 11, 12, 13, 32}"

definition trim_left :: "(char \<Rightarrow> bool) \<Rightarrow> string \<Rightarrow> string" where
  "trim_left P s = dropWhile P s"

definition trim_right :: "(char \<Rightarrow> bool) \<Rightarrow> string \<Rightarrow> string" where
  "trim_right P s = rev (dropWhile P (rev s))"

definition trim_space :: "string \<Rightarrow> string" where
  "trim_space s = trim_right is_space (trim_left is_space s)"

fun join :: "string \<Rightarrow> string list \<Rightarrow> string" where
  "join sep [] = []"
| "join sep [s] = s"
| "join sep (s # t # ss) = s @ sep @ join sep (t # ss)"

text \<open>\<open>Fields\<close> splits around runs of white space.\<close>

fun fields_acc :: "string \<Rightarrow> string \<Rightarrow> string list" where
  "fields_acc w [] = (if w = [] then [] else [rev w])"
| "fields_acc w (c # s) =
     (if is_space c then (if w = [] then fields_acc [] s else rev w # fields_acc [] s)
      else fields_acc (c # w) s)"

definition str_fields :: "string \<Rightarrow> string list" where
  "str_fields s = fields_acc [] s"

lemma trim_left_id: "(\<And>c s'. s = c # s' \<Longrightarrow> \<not> P c) \<Longrightarrow> trim_left P s = s"
  by (cases s) (simp_all add: trim_left_def)

lemma trim_right_set: "set (trim_right P s) \<subseteq> set s"
  unfolding trim_right_def using set_dropWhileD [of _ P "rev s"] by auto

lemma set_trim_space: "set (trim_space s) \<subseteq> set s"
  unfolding trim_space_def trim_left_def
  using trim_right_set [of is_space "dropWhile is_space s"] set_dropWhileD [of _ is_space s] by blast

section \<open>Runes\<close>

text \<open>
  What ranging over a string yields: the code points of its UTF-8 encoding; a byte that does
  not start a valid encoding counts as U+FFFD and is skipped alone.
\<close>

definition cont_byte :: "nat \<Rightarrow> bool" where
  "cont_byte b \<longleftrightarrow> 128 \<le> b \<and> b < 192"

fun runes_of :: "nat list \<Rightarrow> nat list" where
  "runes_of [] = []"
| "runes_of (b # bs) =
     (if b < 128 then b # runes_of bs
      else case bs of
        [] \<Rightarrow> [65533]
      | c # cs \<Rightarrow>
          if 194 \<le> b \<and> b < 224 \<and> cont_byte c then ((b - 192) * 64 + (c - 128)) # runes_of cs
          else case cs of
            [] \<Rightarrow> 65533 # runes_of bs
          | d # ds \<Rightarrow>
              if 224 \<le> b \<and> b < 240 \<and> cont_byte c \<and> cont_byte d \<and>
                 (b = 224 \<longrightarrow> 160 \<le> c) \<and> (b = 237 \<longrightarrow> c < 160)
              then ((b - 224) * 4096 + (c - 128) * 64 + (d - 128)) # runes_of ds
              else case ds of
                [] \<Rightarrow> 65533 # runes_of bs
              | e # es \<Rightarrow>
                  if 240 \<le> b \<and> b < 245 \<and> cont_byte c \<and> cont_byte d \<and> cont_byte e \<and>
                     (b = 240 \<longrightarrow> 144 \<le> c) \<and> (b = 244 \<longrightarrow> c < 144)
                  then ((b - 240) * 262144 + (c - 128) * 4096 + (d - 128) * 64 + (e - 128)) # runes_of es
                  else 65533 # runes_of bs)"

definition runes :: "string \<Rightarrow> nat list" where
  "runes s = runes_of (map of_char s)"

definition ascii :: "string \<Rightarrow> bool" where
  "ascii s \<longleftrightarrow> (\<forall>c \<in> set s. of_char c < (128 :: nat))"

lemma runes_ascii: "ascii s \<Longrightarrow> runes s = map of_char s"
  unfolding runes_def ascii_def by (induction s) simp_all

end
