(* ===== verification/Json_Decode.thy ===== *)
theory Json_Decode
  imports Json Go_Strings
begin

text \<open>
  Decoding JSON text into struct fields as \<open>json.Unmarshal\<close> does, and decimal integers.
  A decoder takes the bytes of a value and the field's present content, and returns the
  new content.
\<close>

section \<open>Decimal integers\<close>

fun show_nat :: "nat \<Rightarrow> string" where
  "show_nat n = (if n < 10 then [char_of (48 + n)] else show_nat (n div 10) @ [char_of (48 + n mod 10)])"

declare show_nat.simps [simp del]

definition show_int :: "int \<Rightarrow> string" where
  "show_int i = (if i < 0 then CHR ''-'' # show_nat (nat (- i)) else show_nat (nat i))"

definition digit_value :: "char \<Rightarrow> nat" where
  "digit_value c = of_char c - 48"

definition read_nat :: "string \<Rightarrow> nat" where
  "read_nat s = foldl (\<lambda>n c. n * 10 + digit_value c) 0 s"

fun read_int :: "string \<Rightarrow> int option" where
  "read_int (c # s) =
     (if c = CHR ''-'' then (if s \<noteq> [] \<and> list_all digit s then Some (- int (read_nat s)) else None)
      else if list_all digit (c # s) then Some (int (read_nat (c # s))) else None)"
| "read_int [] = None"

lemma show_nat_digits: "show_nat n \<noteq> [] \<and> list_all digit (show_nat n) \<and> read_nat (show_nat n) = n"
proof (induction n rule: show_nat.induct)
  case (1 n)
  show ?case
  proof (cases "n < 10")
    case True
    then show ?thesis
      by (subst (1 2 3) show_nat.simps) (simp add: digit_def read_nat_def digit_value_def)
  next
    case False
    have "digit (char_of (48 + n mod 10))" "digit_value (char_of (48 + n mod 10)) = n mod 10"
      by (auto simp: digit_def digit_value_def)
    with 1 False show ?thesis
      by (subst (1 2 3) show_nat.simps) (simp add: read_nat_def)
  qed
qed

lemma show_nat_lead: "n \<noteq> 0 \<Longrightarrow> hd (show_nat n) \<noteq> CHR ''0''"
proof (induction n rule: show_nat.induct)
  case (1 n)
  show ?case
  proof (cases "n < 10")
    case True
    have "char_of (48 + n) \<noteq> CHR ''0''"
      using True 1(2) by (simp flip: of_char_eq_iff [where 'a = nat])
    with True show ?thesis by (subst show_nat.simps) simp
  next
    case False
    with 1 show_nat_digits [of "n div 10"] show ?thesis by (subst show_nat.simps) simp
  qed
qed

lemma digit_minus [simp]: "\<not> digit (CHR ''-'')"
  by (simp add: digit_def)

lemma read_show_int: "read_int (show_int i) = Some i"
proof (cases "i < 0")
  case True
  with show_nat_digits [of "nat (- i)"] show ?thesis by (simp add: show_int_def)
next
  case False
  obtain c s where cs: "show_nat (nat i) = c # s" using show_nat_digits [of "nat i"] by (cases "show_nat (nat i)") auto
  then have "digit c" using show_nat_digits [of "nat i"] by simp
  then have "c \<noteq> CHR ''-''" by auto
  with False cs show_nat_digits [of "nat i"] show ?thesis by (simp add: show_int_def)
qed

lemma show_nat_num: "p_int (show_nat n) = Some (show_nat n, [])"
proof (cases "n = 0")
  case True
  have "char_of (48 :: nat) = CHR ''0''" by (simp flip: of_char_eq_iff [where 'a = nat])
  with True show ?thesis by (simp add: show_nat.simps)
next
  case False
  obtain c s where cs: "show_nat n = c # s" using show_nat_digits [of n] by (cases "show_nat n") auto
  have "c \<noteq> CHR ''0''" using show_nat_lead [OF False] cs by simp
  moreover have "takeWhile digit (c # s) = c # s" "dropWhile digit (c # s) = []"
    using show_nat_digits [of n] cs by (simp_all add: list_all_iff takeWhile_eq_all_conv dropWhile_eq_Nil_conv)
  ultimately show ?thesis using cs by (simp add: digits_def)
qed

lemma num_ok_show_int [simp]: "num_ok (show_int i)"
proof (cases "i < 0")
  case True
  then show ?thesis by (simp add: num_ok_def p_number_def show_int_def show_nat_num)
next
  case False
  obtain c s where cs: "show_nat (nat i) = c # s" using show_nat_digits [of "nat i"] by (cases "show_nat (nat i)") auto
  then have "digit c" using show_nat_digits [of "nat i"] by simp
  then have "c \<noteq> CHR ''-''" by auto
  then have "p_sign (show_nat (nat i)) = ([], show_nat (nat i))" using cs by simp
  with False show ?thesis by (simp add: num_ok_def p_number_def show_int_def show_nat_num)
qed

section \<open>Objects as fields of raw bytes\<close>

definition err_json :: go_error where
  "err_json = Errf ''json'' []"

fun p_slices :: "nat \<Rightarrow> string \<Rightarrow> (string \<times> raw) list option" where
  "p_slices 0 s = None"
| "p_slices (Suc n) s =
     (case p_string (tl (skip s)) of
        None \<Rightarrow> None
      | Some (k, s2) \<Rightarrow>
          (let s3 = skip (tl (skip s2)) in
           case p_val n s3 of
             None \<Rightarrow> None
           | Some (_, s4) \<Rightarrow>
               (let v = take (length s3 - length s4) s3 in
                if take 1 (skip s4) = '',''
                then map_option (Cons (k, v)) (p_slices n (tl (skip s4)))
                else Some [(k, v)])))"

text \<open>
  The whole text is checked first. The top-level \<open>null\<close> sets no field; any other value than
  an object is a type error.
\<close>

definition obj_fields :: "raw \<Rightarrow> (string \<times> raw) list result" where
  "obj_fields s =
     (case parse s of
        Some JNull \<Rightarrow> Inr []
      | Some (JObj []) \<Rightarrow> Inr []
      | Some (JObj _) \<Rightarrow>
          (case p_slices (2 * length s + 1) (tl (skip s)) of Some kvs \<Rightarrow> Inr kvs | None \<Rightarrow> Inl err_json)
      | _ \<Rightarrow> Inl err_json)"

lemma p_slices_print:
  "kvs \<noteq> [] \<Longrightarrow> \<forall>kv \<in> set kvs. json_ok (snd kv) \<Longrightarrow> needf kvs \<le> n \<Longrightarrow>
     p_slices n (print_fields kvs @ CHR ''}'' # r) = Some (map (\<lambda>(k, v). (k, print v)) kvs)"
proof (induction kvs arbitrary: n)
  case (Cons kv kvs)
  obtain k v where kv: "kv = (k, v)" by force
  obtain m where m: "n = Suc m" "need v \<le> m" "needf kvs \<le> m"
    using Cons.prems(3) kv by (cases n) auto
  have ok: "json_ok v" using Cons.prems(2) kv by simp
  have val: "p_val m (print v @ c # t) = Some (v, c # t)" if "delim (c # t)" for c t
    using print_parse(1) [OF ok m(2) that] .
  show ?case
  proof (cases kvs)
    case Nil
    with kv m val show ?thesis
      by (simp add: print_string_def p_string_print skip_print [OF ok])
  next
    case (Cons w ws)
    with Cons.IH [OF _ _ m(3)] Cons.prems(2) kv m val
    show ?thesis
      by (simp add: print_string_def p_string_print skip_print [OF ok] Let_def)
  qed
qed simp

theorem obj_fields_print:
  assumes "\<forall>kv \<in> set kvs. json_ok (snd kv)"
  shows "obj_fields (print (JObj kvs)) = Inr (map (\<lambda>(k, v). (k, print v)) kvs)"
proof (cases kvs)
  case Nil
  with parse_print [of "JObj []"] show ?thesis by (simp add: obj_fields_def)
next
  case (Cons kv kvs')
  have ok: "json_ok (JObj kvs)" using assms by simp
  have "needf kvs \<le> 2 * length (print (JObj kvs)) + 1" using need_le(1) [OF ok] by simp
  with p_slices_print [OF _ assms this, of "[]"] Cons parse_print [OF ok]
  show ?thesis by (simp add: obj_fields_def)
qed

text \<open>The elements of an array likewise, each with the bytes of its text.\<close>

fun p_elems :: "nat \<Rightarrow> string \<Rightarrow> raw list option" where
  "p_elems 0 s = None"
| "p_elems (Suc n) s =
     (let s3 = skip s in
      case p_val n s3 of
        None \<Rightarrow> None
      | Some (_, s4) \<Rightarrow>
          (let v = take (length s3 - length s4) s3 in
           if take 1 (skip s4) = '',''
           then map_option (Cons v) (p_elems n (tl (skip s4)))
           else Some [v]))"

definition arr_elems :: "raw \<Rightarrow> raw list result" where
  "arr_elems s =
     (case parse s of
        Some JNull \<Rightarrow> Inr []
      | Some (JArr []) \<Rightarrow> Inr []
      | Some (JArr _) \<Rightarrow>
          (case p_elems (2 * length s + 1) (tl (skip s)) of Some vs \<Rightarrow> Inr vs | None \<Rightarrow> Inl err_json)
      | _ \<Rightarrow> Inl err_json)"

lemma p_elems_print:
  "vs \<noteq> [] \<Longrightarrow> \<forall>v \<in> set vs. json_ok v \<Longrightarrow> needs vs \<le> n \<Longrightarrow>
     p_elems n (prints vs @ CHR '']'' # r) = Some (map print vs)"
proof (induction vs arbitrary: n)
  case (Cons v vs)
  obtain m where m: "n = Suc m" "need v \<le> m" "needs vs \<le> m" using Cons.prems(3) by (cases n) auto
  have ok: "json_ok v" using Cons.prems(2) by simp
  have val: "p_val m (print v @ c # t) = Some (v, c # t)" if "delim (c # t)" for c t
    using print_parse(1) [OF ok m(2) that] .
  show ?case
  proof (cases vs)
    case Nil
    with m val show ?thesis by (simp add: skip_print [OF ok] Let_def)
  next
    case (Cons w ws)
    with Cons.IH [OF _ _ m(3)] Cons.prems(2) m val show ?thesis
      by (simp add: skip_print [OF ok] Let_def)
  qed
qed simp

lemma arr_elems_print:
  assumes "\<forall>v \<in> set vs. json_ok v"
  shows "arr_elems (print (JArr vs)) = Inr (map print vs)"
proof (cases vs)
  case Nil
  with parse_print [of "JArr []"] show ?thesis by (simp add: arr_elems_def)
next
  case (Cons v vs')
  have ok: "json_ok (JArr vs)" using assms by simp
  have "needs vs \<le> 2 * length (print (JArr vs)) + 1" using need_le(1) [OF ok] by simp
  with p_elems_print [OF _ assms this, of "[]"] Cons parse_print [OF ok]
  show ?thesis by (simp add: arr_elems_def)
qed

text \<open>A \<open>RawMessage\<close> as it is marshalled: nil, which stands for no bytes, is \<open>null\<close>.\<close>

definition payload_json :: "raw \<Rightarrow> json result" where
  "payload_json p =
     (if p = [] then Inr JNull else case parse p of Some j \<Rightarrow> Inr j | None \<Rightarrow> Inl err_json)"

section \<open>Field decoders\<close>

definition same_fold :: "string \<Rightarrow> string \<Rightarrow> bool" where
  "same_fold a b \<longleftrightarrow> map lower_char a = map lower_char b"

lemma same_fold_lower: "to_lower a = a \<Longrightarrow> same_fold a k \<longleftrightarrow> to_lower k = a"
  by (auto simp: same_fold_def to_lower_def)

text \<open>Deciding by evaluation whether a key names a field.\<close>

lemmas field_names = same_fold_lower to_lower_def lower_char_def

type_synonym 'a decoder = "raw \<Rightarrow> 'a \<Rightarrow> 'a result"

fun dec_field :: "string \<Rightarrow> 'a decoder \<Rightarrow> (string \<times> raw) list \<Rightarrow> 'a \<Rightarrow> 'a result" where
  "dec_field name dec [] x = Inr x"
| "dec_field name dec ((k, v) # kvs) x =
     (if same_fold k name
      then (case dec v x of Inl e \<Rightarrow> Inl e | Inr x' \<Rightarrow> dec_field name dec kvs x')
      else dec_field name dec kvs x)"

definition dec_string :: "string decoder" where
  "dec_string v x =
     (case parse v of Some (JStr s) \<Rightarrow> Inr s | Some JNull \<Rightarrow> Inr x | _ \<Rightarrow> Inl err_json)"

definition dec_raw :: "raw decoder" where
  "dec_raw v x = Inr v"

definition dec_int :: "gint decoder" where
  "dec_int v x =
     (case parse v of
        Some (JNum s) \<Rightarrow>
          (case read_int s of
             Some i \<Rightarrow> if - (2 ^ 63) \<le> i \<and> i < 2 ^ 63 then Inr (word_of_int i) else Inl err_json
           | None \<Rightarrow> Inl err_json)
      | Some JNull \<Rightarrow> Inr x
      | _ \<Rightarrow> Inl err_json)"

fun dec_elems :: "json list \<Rightarrow> string list result" where
  "dec_elems [] = Inr []"
| "dec_elems (JStr s # vs) = map_sum id (Cons s) (dec_elems vs)"
| "dec_elems (JNull # vs) = map_sum id (Cons []) (dec_elems vs)"
| "dec_elems (_ # vs) = Inl err_json"

definition dec_strings :: "string list decoder" where
  "dec_strings v x =
     (case parse v of Some (JArr vs) \<Rightarrow> dec_elems vs | Some JNull \<Rightarrow> Inr [] | _ \<Rightarrow> Inl err_json)"

text \<open>Decoding continues only while there is no error, as every caller drops the target then.\<close>

definition bind :: "'a result \<Rightarrow> ('a \<Rightarrow> 'b result) \<Rightarrow> 'b result" where
  "bind m f = (case m of Inl e \<Rightarrow> Inl e | Inr x \<Rightarrow> f x)"

lemma bind_simps [simp]: "bind (Inl e) f = Inl e" "bind (Inr x) f = f x"
  by (simp_all add: bind_def)

lemma bind_Inr: "bind m f = Inr y \<longleftrightarrow> (\<exists>x. m = Inr x \<and> f x = Inr y)"
  by (cases m) auto

lemma dec_string_print [simp]: "dec_string (print (JStr s)) x = Inr s"
  using parse_print [of "JStr s"] by (simp add: dec_string_def)

lemma dec_int_print [simp]:
  "- (2 ^ 63) \<le> i \<Longrightarrow> i < 2 ^ 63 \<Longrightarrow> dec_int (print (JNum (show_int i))) x = Inr (word_of_int i)"
  using parse_print [of "JNum (show_int i)"] by (simp add: dec_int_def read_show_int)

lemma dec_elems_strings [simp]: "dec_elems (map JStr ss) = Inr ss"
  by (induction ss) simp_all

lemma dec_strings_print [simp]: "dec_strings (print (JArr (map JStr ss))) x = Inr ss"
  using parse_print [of "JArr (map JStr ss)"] by (simp add: dec_strings_def)

text \<open>The text of a string that was printed is what a decoder reads back from a field of its name.\<close>

lemma dec_field_other: "\<forall>kv \<in> set kvs. \<not> same_fold (fst kv) name \<Longrightarrow> dec_field name dec kvs x = Inr x"
  by (induction kvs) auto

end
