(* ===== verification/Go_Fmt.thy ===== *)
theory Go_Fmt
  imports Json_Decode
begin

text \<open>
  The text of errors: \<open>fmt.Errorf\<close> with the verbs the source uses (\<open>%s\<close>, \<open>%q\<close>, \<open>%d\<close>,
  \<open>%v\<close>, and \<open>%w\<close>, which is always the last one), and \<open>Error()\<close>.
\<close>

definition quote_char :: "char \<Rightarrow> string" where
  "quote_char c =
     (let n = (of_char c :: nat) in
      if c = CHR 0x22 \<or> c = CHR 0x5C then [CHR 0x5C, c]
      else if n = 7 then [CHR 0x5C, CHR ''a'']
      else if n = 8 then [CHR 0x5C, CHR ''b'']
      else if n = 9 then [CHR 0x5C, CHR ''t'']
      else if n = 10 then [CHR 0x5C, CHR ''n'']
      else if n = 11 then [CHR 0x5C, CHR ''v'']
      else if n = 12 then [CHR 0x5C, CHR ''f'']
      else if n = 13 then [CHR 0x5C, CHR ''r'']
      else if n < 32 \<or> n = 127 then
        [CHR 0x5C, CHR ''x'', hex_digit (n div 16), hex_digit (n mod 16)]
      else [c])"

definition go_quote :: "string \<Rightarrow> string" where
  "go_quote s = CHR 0x22 # concat (map quote_char s) @ [CHR 0x22]"

fun fmt_verb :: "char \<Rightarrow> fmt_arg \<Rightarrow> string" where
  "fmt_verb c (FStr s) = (if c = CHR ''q'' then go_quote s else s)"
| "fmt_verb c (FInt i) = show_int i"

fun sprintf :: "string \<Rightarrow> fmt_arg list \<Rightarrow> string" where
  "sprintf [] args = []"
| "sprintf [c] args = [c]"
| "sprintf (c # v # f) args =
     (if c = CHR ''%''
      then (case args of
              [] \<Rightarrow> c # v # sprintf f []
            | a # args' \<Rightarrow> fmt_verb v a @ sprintf f args')
      else c # sprintf (v # f) args)"

fun err_text :: "go_error \<Rightarrow> string" where
  "err_text (Errf f args) = sprintf f args"
| "err_text (Wrapf f args e) = sprintf f (args @ [FStr (err_text e)])"
| "err_text (Manyf f es) =
     sprintf f [FStr (CHR ''['' # concat (List.map (\<lambda>e. err_text e @ '' '') es) @ '']'')]"
| "err_text CtxCanceled = ''context canceled''"
| "err_text CtxDeadline = ''context deadline exceeded''"
| "err_text (Panic m) = m"

end
