(* ===== verification/Mux.thy ===== *)
theory Mux
  imports Json Go_Strings
begin

text \<open>
  How \<open>net/http\<close>'s \<open>ServeMux\<close> takes a request to the gateway's one pattern
  \<open>/api/v1/{action}\<close> (\<open>NewGateway\<close> in \<open>internal/gateway/gateway.go\<close>): paths that are not clean
  are redirected, the segments of a path are unescaped one by one, and the wildcard stands for
  one segment that is not empty. A path here is \<open>URL.EscapedPath()\<close>.
\<close>

section \<open>Paths\<close>

fun split_path :: "string \<Rightarrow> string list" where
  "split_path [] = [[]]"
| "split_path (c # s) =
     (if c = CHR ''/'' then [] # split_path s
      else (case split_path s of [] \<Rightarrow> [[c]] | w # rest \<Rightarrow> (c # w) # rest))"

text \<open>\<open>path.Clean\<close> of a rooted path: empty and \<open>.\<close> segments go, \<open>..\<close> takes one back.\<close>

fun clean_steps :: "string list \<Rightarrow> string list \<Rightarrow> string list" where
  "clean_steps acc [] = rev acc"
| "clean_steps acc (w # rest) =
     (if w = [] \<or> w = ''.'' then clean_steps acc rest
      else if w = ''..'' then clean_steps (drop 1 acc) rest
      else clean_steps (w # acc) rest)"

definition path_clean :: "string \<Rightarrow> string" where
  "path_clean p = CHR ''/'' # join ''/'' (clean_steps [] (split_path p))"

text \<open>\<open>cleanPath\<close> keeps a slash at the end.\<close>

definition clean_path :: "string \<Rightarrow> string" where
  "clean_path p =
     (if p = [] then ''/''
      else let p = (if has_prefix ''/'' p then p else CHR ''/'' # p); np = path_clean p
           in if has_suffix ''/'' p \<and> np \<noteq> ''/'' then np @ ''/'' else np)"

section \<open>Percent escapes\<close>

fun path_unescape :: "string \<Rightarrow> string option" where
  "path_unescape [] = Some []"
| "path_unescape (c # s) =
     (if c = CHR ''%''
      then (case s of
              a # b # _ \<Rightarrow>
                (case (hex_val a, hex_val b) of
                   (Some x, Some y) \<Rightarrow> map_option (Cons (char_of (16 * x + y))) (path_unescape (drop 2 s))
                 | _ \<Rightarrow> None)
            | _ \<Rightarrow> None)
      else map_option (Cons c) (path_unescape s))"

definition segment :: "string \<Rightarrow> string" where
  "segment w = (case path_unescape w of Some t \<Rightarrow> t | None \<Rightarrow> w)"

text \<open>The bytes that stand for themselves in a path, and the others as escapes.\<close>

definition path_char :: "char \<Rightarrow> bool" where
  "path_char c \<longleftrightarrow>
     (let n = (of_char c :: nat) in 48 \<le> n \<and> n \<le> 57 \<or> 65 \<le> n \<and> n \<le> 90 \<or> 97 \<le> n \<and> n \<le> 122) \<or>
     c \<in> set ''-_.~$&+,/:;=@''"

definition path_escape :: "string \<Rightarrow> string" where
  "path_escape s = concat (map (\<lambda>c. if path_char c then [c]
     else [CHR ''%'', upper_char (hex_digit (of_char c div 16)), upper_char (hex_digit (of_char c mod 16))]) s)"

section \<open>The pattern\<close>

definition mux_action :: "string \<Rightarrow> string option" where
  "mux_action path =
     (case split_path path of
        [[], a, b, c] \<Rightarrow>
          if segment a = ''api'' \<and> segment b = ''v1'' \<and> c \<noteq> [] \<and> segment c \<noteq> ''/'' then Some (segment c) else None
      | _ \<Rightarrow> None)"

text \<open>
  Where a request goes. The asterisk of a request that is about the server is refused, and the
  paths of \<open>CONNECT\<close> are not cleaned.
\<close>

datatype mux_target = M_Asterisk | M_Redirect string | M_NotFound | M_Action string

definition mux_target :: "string \<Rightarrow> string \<Rightarrow> mux_target" where
  "mux_target meth path =
     (if path = ''*'' then M_Asterisk
      else if meth \<noteq> ''CONNECT'' \<and> clean_path path \<noteq> path then M_Redirect (clean_path path)
      else case mux_action path of None \<Rightarrow> M_NotFound | Some a \<Rightarrow> M_Action a)"

section \<open>Lemmas\<close>

lemma mux_targetD:
  "mux_target meth path = M_Asterisk \<Longrightarrow> path = ''*''"
  "mux_target meth path = M_Redirect p \<Longrightarrow> p = clean_path path \<and> p \<noteq> path"
  "mux_target meth path = M_NotFound \<Longrightarrow> mux_action path = None"
  "mux_target meth path = M_Action a \<Longrightarrow> mux_action path = Some a"
  by (auto simp: mux_target_def split: if_splits option.splits)

lemma split_path_free: "CHR ''/'' \<notin> set a \<Longrightarrow> split_path a = [a]"
  by (induction a) auto

lemma path_unescape_free: "CHR ''%'' \<notin> set s \<Longrightarrow> path_unescape s = Some s"
  by (induction s) auto

lemma segment_free [simp]: "CHR ''%'' \<notin> set s \<Longrightarrow> segment s = s"
  by (simp add: segment_def path_unescape_free)

text \<open>A segment that a client may write as it is.\<close>

definition plain_segment :: "string \<Rightarrow> bool" where
  "plain_segment a \<longleftrightarrow> a \<notin> {[], ''.'', ''..''} \<and> CHR ''/'' \<notin> set a \<and> CHR ''%'' \<notin> set a"

lemma split_api: "CHR ''/'' \<notin> set a \<Longrightarrow> split_path (''/api/v1/'' @ a) = [[], ''api'', ''v1'', a]"
  by (simp add: split_path_free)

lemma clean_api:
  assumes "plain_segment a"
  shows "clean_path (''/api/v1/'' @ a) = ''/api/v1/'' @ a"
proof -
  have "clean_steps [] (split_path (''/api/v1/'' @ a)) = [''api'', ''v1'', a]"
    using assms unfolding plain_segment_def by (subst split_api) auto
  then have np: "path_clean (''/api/v1/'' @ a) = ''/api/v1/'' @ a" by (simp add: path_clean_def)
  have "rev a \<noteq> []" "CHR ''/'' \<notin> set (rev a)" using assms by (auto simp: plain_segment_def)
  then have "\<not> has_suffix ''/'' (''/api/v1/'' @ a)"
    by (cases "rev a") (auto simp: has_suffix_def has_prefix_def)
  with np show ?thesis by (simp add: clean_path_def has_prefix_def)
qed

lemma mux_api:
  assumes "plain_segment a"
  shows "mux_target meth (''/api/v1/'' @ a) = M_Action a"
proof -
  have "mux_action (''/api/v1/'' @ a) = Some a"
    using assms unfolding mux_action_def plain_segment_def by (subst split_api) auto
  then show ?thesis using clean_api [OF assms] by (simp add: mux_target_def)
qed

end
