(* ===== verification/Gateway.thy ===== *)
theory Gateway
  imports Envelope Registry Go_Fmt Mux "HOL-Library.Char_ord" "HOL-Library.List_Lexorder"
begin

text \<open>
  The HTTP gateway (\<open>internal/gateway/gateway.go\<close>): routing of actions, the checks before a
  handler runs, and the responses. A handler is any function on the envelope and the state
  behind it (with the heap of metadata maps); it returns an envelope, an error, or panics.
\<close>

section \<open>Requests and responses\<close>

text \<open>
  \<open>rq_header\<close> is \<open>Header.Get\<close>: the empty string for a missing header. \<open>rq_path\<close> is the path as
  it came, with its percent escapes.
\<close>

record http_request =
  rq_method :: string
  rq_path :: string
  rq_header :: "string \<Rightarrow> string"
  rq_body :: "raw result"

text \<open>
  A \<open>ResponseWriter\<close>: the status is sent once, headers set after that are lost, the body is
  appended to.
\<close>

record writer =
  wr_headers :: "string \<rightharpoonup> string"
  wr_status :: "nat option"
  wr_body :: string

definition new_writer :: writer where
  "new_writer = \<lparr>wr_headers = Map.empty, wr_status = None, wr_body = []\<rparr>"

definition set_header :: "string \<Rightarrow> string \<Rightarrow> writer \<Rightarrow> writer" where
  "set_header k v w =
     (if wr_status w = None then w\<lparr>wr_headers := (wr_headers w)(k \<mapsto> v)\<rparr> else w)"

definition write_header :: "nat \<Rightarrow> writer \<Rightarrow> writer" where
  "write_header s w = (if wr_status w = None then w\<lparr>wr_status := Some s\<rparr> else w)"

definition write_body :: "string \<Rightarrow> writer \<Rightarrow> writer" where
  "write_body t w = (write_header 200 w)\<lparr>wr_body := wr_body w @ t\<rparr>"

definition set_cors :: "writer \<Rightarrow> writer" where
  "set_cors w =
     set_header ''Access-Control-Allow-Headers'' ''Content-Type, Authorization, X-Trace-ID''
       (set_header ''Access-Control-Allow-Methods'' ''POST, GET, OPTIONS''
         (set_header ''Access-Control-Allow-Origin'' ''*'' w))"

text \<open>\<open>v\<close> is the outcome of encoding the value; on an error nothing more is written.\<close>

definition write_json :: "nat \<Rightarrow> json result \<Rightarrow> writer \<Rightarrow> writer" where
  "write_json status v w =
     (let w1 = write_header status (set_header ''Content-Type'' ''application/json'' w) in
      case v of Inl _ \<Rightarrow> w1 | Inr j \<Rightarrow> write_body (print j @ [CHR 0x0A]) w1)"

definition error_json :: "string \<Rightarrow> string \<Rightarrow> json" where
  "error_json trace msg = JObj [(''error'', JStr msg), (''trace_id'', JStr trace)]"

definition write_error :: "nat \<Rightarrow> string \<Rightarrow> string \<Rightarrow> writer \<Rightarrow> writer" where
  "write_error status trace msg w =
     write_body (print (error_json trace msg) @ [CHR 0x0A])
       (write_header status (set_header ''Content-Type'' ''application/json'' w))"

section \<open>Envelopes as JSON\<close>

definition identity_json :: "identity \<Rightarrow> json" where
  "identity_json a =
     JObj ([(''id'', JStr (actor_id a)), (''kind'', JStr (actor_kind a))] @
       (if actor_roles a = [] then [] else [(''roles'', JArr (map JStr (actor_roles a)))]) @
       [(''tenant_id'', JStr (actor_tenant a))])"

definition tenant_json :: "tenant \<Rightarrow> json" where
  "tenant_json t =
     JObj ((''id'', JStr (tenant_id t)) #
       (if tenant_name t = [] then [] else [(''name'', JStr (tenant_name t))]))"

text \<open>The keys of a map are sorted; an empty metadata map is omitted; \<open>ks\<close> is any order of them.\<close>

definition map_json :: "meta_map \<Rightarrow> string list \<Rightarrow> json" where
  "map_json m ks = JObj (map (\<lambda>k. (k, JStr (map_get [] m k))) (sort ks))"

text \<open>\<open>ft\<close> formats a time stamp (RFC 3339).\<close>

definition envelope_json :: "(time \<Rightarrow> string) \<Rightarrow> meta_heap \<Rightarrow> string list \<Rightarrow> envelope \<Rightarrow> json result" where
  "envelope_json ft h ks e =
     map_sum id (\<lambda>p. JObj
       ([(''id'', JStr (env_id e)), (''trace_id'', JStr (env_trace e)),
         (''actor'', identity_json (env_actor e)), (''tenant'', tenant_json (env_tenant e)),
         (''type'', JStr (env_type e)), (''action'', JStr (env_action e)), (''payload'', p)] @
        (if ks = [] then [] else [(''metadata'', map_json (meta_read h (env_meta e)) ks)]) @
        [(''timestamp'', JStr (ft (env_time e)))]))
     (payload_json (env_payload e))"

section \<open>The gateway\<close>

datatype handled = Answer "envelope option" | Failure go_error | Crash string

type_synonym 's handler_func = "envelope \<Rightarrow> meta_heap \<times> 's \<Rightarrow> handled \<times> (meta_heap \<times> 's)"

record gw_state =
  gw_host :: string
  gw_port :: gint
  gw_server :: bool
  gw_running :: bool

record 's gateway = gw_state +
  gw_routes :: "string \<rightharpoonup> 's handler_func"

definition new_gateway :: "string \<Rightarrow> gint \<Rightarrow> 's gateway" where
  "new_gateway host port =
     \<lparr>gw_host = host, gw_port = port, gw_server = False, gw_running = False, gw_routes = Map.empty\<rparr>"

text \<open>\<open>listen\<close> is the outcome of binding the address.\<close>

definition listen_addr :: "'g gw_state_scheme \<Rightarrow> string" where
  "listen_addr g = sprintf ''%s:%d'' [FStr (gw_host g), FInt (sint (gw_port g))]"

definition gateway_start :: "(string \<Rightarrow> unit result) \<Rightarrow> 'g gw_state_scheme \<Rightarrow>
    unit result \<times> 'g gw_state_scheme" where
  "gateway_start listen g =
     (case listen (listen_addr g) of
        Inl e \<Rightarrow> (Inl (Wrapf ''gateway listen: %w'' [] e), g)
      | Inr _ \<Rightarrow> (Inr (), g\<lparr>gw_server := True, gw_running := True\<rparr>))"

text \<open>What the serving goroutine does once \<open>Serve\<close> has returned.\<close>

definition gateway_served :: "'g gw_state_scheme \<Rightarrow> 'g gw_state_scheme" where
  "gateway_served g = g\<lparr>gw_running := False\<rparr>"

definition gateway_stop :: "unit result \<Rightarrow> 'g gw_state_scheme \<Rightarrow> unit result \<times> 'g gw_state_scheme" where
  "gateway_stop shutdown g =
     (if gw_server g then shutdown else Inr (), g\<lparr>gw_running := False\<rparr>)"

definition gateway_health :: "'g gw_state_scheme \<Rightarrow> health_report" where
  "gateway_health g =
     (if gw_running g then \<lparr>hr_head = ''gateway'', hr_status = Healthy, hr_detail = []\<rparr>
      else \<lparr>hr_head = ''gateway'', hr_status = Unhealthy, hr_detail = ''not running''\<rparr>)"

definition register_handler :: "string \<Rightarrow> 's handler_func \<Rightarrow> 's gateway \<Rightarrow> 's gateway" where
  "register_handler action f g = g\<lparr>gw_routes := (gw_routes g)(action \<mapsto> f)\<rparr>"

text \<open>The body of a request must be empty or decode into a JSON object (or \<open>null\<close>).\<close>

definition body_ok :: "raw \<Rightarrow> bool" where
  "body_ok b \<longleftrightarrow> b = [] \<or> (case parse b of Some (JObj _) \<Rightarrow> True | Some JNull \<Rightarrow> True | _ \<Rightarrow> False)"

text \<open>The envelope of a request, with its freshly made metadata map.\<close>

definition request_envelope :: "string \<Rightarrow> time \<Rightarrow> string \<Rightarrow> string \<Rightarrow> raw \<Rightarrow> string \<Rightarrow> meta_heap \<Rightarrow>
    envelope \<times> meta_heap" where
  "request_envelope uuid now trace action body auth h =
     (let (a, h1) = meta_alloc Map.empty h;
          h2 = (if auth \<noteq> [] then h1[a := (h1 ! a)(''authorization'' \<mapsto> auth)] else h1)
      in (\<lparr>env_id = uuid, env_trace = trace, env_actor = no_actor, env_tenant = no_tenant,
           env_type = env_request, env_action = action, env_payload = body,
           env_meta = Some a, env_time = now\<rparr>, h2))"

text \<open>\<open>re_moved\<close> is the status with which \<open>ServeMux\<close> redirects: 301, and 307 from Go 1.26 on.\<close>

record request_env =
  re_uuid1 :: string
  re_uuid2 :: string
  re_now :: time
  re_keys :: "string list"
  re_moved :: nat

text \<open>The trace ID of the header, or a fresh one.\<close>

definition req_trace :: "request_env \<Rightarrow> http_request \<Rightarrow> string" where
  "req_trace re rq =
     (if rq_header rq ''X-Trace-ID'' = [] then re_uuid1 re else rq_header rq ''X-Trace-ID'')"

text \<open>
  \<open>handleAction\<close>. The Boolean says that the handler panicked; the writer is then as it was
  at that point.
\<close>

definition handle_action :: "(time \<Rightarrow> string) \<Rightarrow> request_env \<Rightarrow> 's gateway \<Rightarrow> string \<Rightarrow> http_request \<Rightarrow>
    writer \<Rightarrow> meta_heap \<times> 's \<Rightarrow> bool \<times> writer \<times> (meta_heap \<times> 's)" where
  "handle_action ft re g action rq w s =
     (let w = set_cors w in
      if rq_method rq = ''OPTIONS'' then (False, write_header 204 w, s)
      else
        let trace = req_trace re rq
        in case gw_routes g action of
             None \<Rightarrow>
               (False, write_error 404 trace (sprintf ''no handler for action: %s'' [FStr action]) w, s)
           | Some f \<Rightarrow>
               if rq_method rq \<noteq> ''POST''
               then (False, write_error 405 trace ''method not allowed'' w, s)
               else case rq_body rq of
                 Inl _ \<Rightarrow> (False, write_error 400 trace ''failed to read request body'' w, s)
               | Inr b \<Rightarrow>
                   if \<not> body_ok b then (False, write_error 400 trace ''invalid JSON body'' w, s)
                   else
                     let (e, h) = request_envelope (re_uuid2 re) (re_now re) trace action b
                                    (rq_header rq ''Authorization'') (fst s)
                     in case f e (h, snd s) of
                          (Crash m, s') \<Rightarrow> (True, w, s')
                        | (Failure err, s') \<Rightarrow> (False, write_error 500 trace (err_text err) w, s')
                        | (Answer None, s') \<Rightarrow> (False, write_json 200 (Inr JNull) w, s')
                        | (Answer (Some resp), s') \<Rightarrow>
                            (False, write_json 200 (envelope_json ft (fst s') (re_keys re) resp) w, s'))"

text \<open>
  The answers of \<open>net/http\<close> itself: to an asterisk, to a path that is not clean, and to one the
  mux does not know. The short HTML page of a redirect is left out.
\<close>

definition asterisk_writer :: writer where
  "asterisk_writer = write_header 400 (set_header ''Connection'' ''close'' new_writer)"

definition redirect_writer :: "nat \<Rightarrow> string \<Rightarrow> string \<Rightarrow> writer" where
  "redirect_writer status meth path =
     write_header status
       ((if meth = ''GET'' \<or> meth = ''HEAD'' then set_header ''Content-Type'' ''text/html; charset=utf-8'' else id)
         (set_header ''Location'' (path_escape path) new_writer))"

definition not_found_writer :: writer where
  "not_found_writer =
     write_body (''404 page not found'' @ [CHR 0x0A])
       (write_header 404
         (set_header ''X-Content-Type-Options'' ''nosniff''
           (set_header ''Content-Type'' ''text/plain; charset=utf-8'' new_writer)))"

definition serve_http :: "(time \<Rightarrow> string) \<Rightarrow> request_env \<Rightarrow> 's gateway \<Rightarrow> http_request \<Rightarrow>
    meta_heap \<times> 's \<Rightarrow> writer \<times> (meta_heap \<times> 's)" where
  "serve_http ft re g rq s =
     (case mux_target (rq_method rq) (rq_path rq) of
        M_Asterisk \<Rightarrow> (asterisk_writer, s)
      | M_Redirect p \<Rightarrow> (redirect_writer (re_moved re) (rq_method rq) p, s)
      | M_NotFound \<Rightarrow> (not_found_writer, s)
      | M_Action action \<Rightarrow>
          (case handle_action ft re g action rq new_writer s of
             (True, w, s') \<Rightarrow> (write_error 500 [] ''internal server error'' w, s')
           | (False, w, s') \<Rightarrow> (w, s')))"

section \<open>Lemmas\<close>

lemmas writer_defs = set_cors_def set_header_def write_header_def write_body_def write_error_def
  write_json_def new_writer_def

lemma own_writers:
  "wr_status asterisk_writer = Some 400" "wr_status (redirect_writer st meth p) = Some st"
  "wr_headers (redirect_writer st meth p) ''Location'' = Some (path_escape p)" "wr_status not_found_writer = Some 404"
  by (simp_all add: asterisk_writer_def redirect_writer_def not_found_writer_def writer_defs)

definition cors_headers :: "string \<rightharpoonup> string" where
  "cors_headers = [''Access-Control-Allow-Origin'' \<mapsto> ''*'',
     ''Access-Control-Allow-Methods'' \<mapsto> ''POST, GET, OPTIONS'',
     ''Access-Control-Allow-Headers'' \<mapsto> ''Content-Type, Authorization, X-Trace-ID'']"

lemma set_cors_new: "set_cors new_writer = \<lparr>wr_headers = cors_headers, wr_status = None, wr_body = []\<rparr>"
  by (simp add: writer_defs cors_headers_def)

lemma write_error_new: "write_error s t m \<lparr>wr_headers = hs, wr_status = None, wr_body = []\<rparr> =
    \<lparr>wr_headers = hs(''Content-Type'' \<mapsto> ''application/json''), wr_status = Some s,
     wr_body = print (error_json t m) @ [CHR 0x0A]\<rparr>"
  by (simp add: writer_defs)

lemma error_json_ok: "json_ok (error_json t m)"
  by (simp add: error_json_def)

lemma skip_newline [simp]: "skip [CHR 0x0A] = []"
  by (simp add: ws_def)

lemma parse_line: "json_ok v \<Longrightarrow> parse (print v @ [CHR 0x0A]) = Some v"
  using print_parse(1) [of v "2 * length (print v @ [CHR 0x0A]) + 1" "[CHR 0x0A]"] need_le(1) [of v]
  by (simp add: parse_def delim_def ws_def)

text \<open>What a request amounts to, before anything is written.\<close>

datatype verdict = V_Preflight | V_Refuse nat string | V_Run

definition judge :: "'s gateway \<Rightarrow> string \<Rightarrow> http_request \<Rightarrow> verdict" where
  "judge g action rq =
     (if rq_method rq = ''OPTIONS'' then V_Preflight
      else if gw_routes g action = None then V_Refuse 404 (''no handler for action: '' @ action)
      else if rq_method rq \<noteq> ''POST'' then V_Refuse 405 ''method not allowed''
      else if \<exists>e. rq_body rq = Inl e then V_Refuse 400 ''failed to read request body''
      else if \<not> body_ok (projr (rq_body rq)) then V_Refuse 400 ''invalid JSON body''
      else V_Run)"

lemma handle_action_cases:
  "handle_action ft re g action rq new_writer s =
     (case judge g action rq of
        V_Preflight \<Rightarrow> (False, write_header 204 (set_cors new_writer), s)
      | V_Refuse st m \<Rightarrow> (False, write_error st (req_trace re rq) m (set_cors new_writer), s)
      | V_Run \<Rightarrow>
          (let (e, h) = request_envelope (re_uuid2 re) (re_now re) (req_trace re rq) action
                          (projr (rq_body rq)) (rq_header rq ''Authorization'') (fst s)
           in case the (gw_routes g action) e (h, snd s) of
                (Crash m, s') \<Rightarrow> (True, set_cors new_writer, s')
              | (Failure err, s') \<Rightarrow>
                  (False, write_error 500 (req_trace re rq) (err_text err) (set_cors new_writer), s')
              | (Answer None, s') \<Rightarrow> (False, write_json 200 (Inr JNull) (set_cors new_writer), s')
              | (Answer (Some resp), s') \<Rightarrow>
                  (False, write_json 200 (envelope_json ft (fst s') (re_keys re) resp)
                     (set_cors new_writer), s')))"
  by (cases "gw_routes g action"; cases "rq_body rq")
    (simp_all add: handle_action_def judge_def Let_def)

lemma judge_run:
  "judge g action rq = V_Run \<Longrightarrow>
     rq_method rq = ''POST'' \<and> gw_routes g action \<noteq> None \<and> (\<exists>b. rq_body rq = Inr b \<and> body_ok b)"
  by (cases "rq_body rq") (simp_all add: judge_def split: if_splits)

text \<open>How a request that is not run is answered.\<close>

fun refusal :: "string \<Rightarrow> verdict \<Rightarrow> writer" where
  "refusal t V_Preflight = write_header 204 (set_cors new_writer)"
| "refusal t (V_Refuse st m) = write_error st t m (set_cors new_writer)"
| "refusal t V_Run = new_writer"

lemma serve_refused:
  "mux_target (rq_method rq) (rq_path rq) = M_Action action \<Longrightarrow> judge g action rq \<noteq> V_Run \<Longrightarrow>
     serve_http ft re g rq s = (refusal (req_trace re rq) (judge g action rq), s)"
  by (cases "judge g action rq") (simp_all add: serve_http_def handle_action_cases)

lemma refusal_status:
  "judge g action rq \<noteq> V_Run \<Longrightarrow> wr_status (refusal t (judge g action rq)) = Some
     (if rq_method rq = ''OPTIONS'' then 204 else if gw_routes g action = None then 404
      else if rq_method rq \<noteq> ''POST'' then 405 else 400)"
  by (cases "rq_body rq") (simp_all add: judge_def set_cors_new write_header_def write_error_new split: if_splits)

lemma write_json_ok: "wr_status (write_json 200 v (set_cors new_writer)) = Some 200"
  by (simp add: writer_defs Let_def split: sum.split)

lemma write_error_cors: "wr_status (write_error st t m (set_cors new_writer)) = Some st"
  "wr_body (write_error st t m (set_cors new_writer)) = print (error_json t m) @ [CHR 0x0A]"
  by (simp_all add: set_cors_new write_error_new)

lemma request_envelope_fields:
  assumes "request_envelope uuid now trace action b auth h0 = (e, h)"
  shows "env_action e = action \<and> env_trace e = trace \<and> env_payload e = b \<and> env_type e = env_request \<and>
    env_meta e = Some (length h0) \<and> take (length h0) h = h0 \<and> length h = Suc (length h0) \<and>
    meta_read h (Some (length h0)) ''authorization'' = (if auth = [] then None else Some auth)"
  using assms by (auto simp: request_envelope_def meta_alloc_def meta_read_def Let_def list_update_append split: if_splits)

text \<open>How the outcome of a handler becomes the response.\<close>

fun answer_writer :: "(time \<Rightarrow> string) \<Rightarrow> string list \<Rightarrow> string \<Rightarrow> meta_heap \<Rightarrow> handled \<Rightarrow> writer" where
  "answer_writer ft ks trace h (Crash m) = write_error 500 [] ''internal server error'' (set_cors new_writer)"
| "answer_writer ft ks trace h (Failure err) = write_error 500 trace (err_text err) (set_cors new_writer)"
| "answer_writer ft ks trace h (Answer None) = write_json 200 (Inr JNull) (set_cors new_writer)"
| "answer_writer ft ks trace h (Answer (Some resp)) = write_json 200 (envelope_json ft h ks resp) (set_cors new_writer)"

lemma answer_status: "wr_status (answer_writer ft ks trace h out) = Some (case out of Answer _ \<Rightarrow> 200 | _ \<Rightarrow> 500)"
  by (cases "(ft, ks, trace, h, out)" rule: answer_writer.cases) (simp_all add: write_json_ok write_error_cors)

lemma serve_run:
  assumes "mux_target (rq_method rq) (rq_path rq) = M_Action action" "rq_method rq = ''POST''"
    and "gw_routes g action = Some f" "rq_body rq = Inr b" "body_ok b"
    and "request_envelope (re_uuid2 re) (re_now re) (req_trace re rq) action b
      (rq_header rq ''Authorization'') (fst s) = (e, h)"
    and "f e (h, snd s) = (out, s')"
  shows "serve_http ft re g rq s = (answer_writer ft (re_keys re) (req_trace re rq) (fst s') out, s')"
proof -
  have "judge g action rq = V_Run" using assms by (simp add: judge_def)
  with assms show ?thesis
    by (simp add: serve_http_def handle_action_cases split: handled.split option.split)
qed

section \<open>Properties\<close>

text \<open>
  C29. A handler runs only for a POST to a registered action whose body is empty, a JSON object
  or \<open>null\<close>; every other request is answered without touching any state. A path that is not
  clean is redirected to its clean form and a clean one outside the API is a 404; a path of the
  API is answered with 204 to OPTIONS, else with 404, 405 or 400 in that order of precedence.
\<close>

theorem gateway_refuses:
  assumes "\<And>action. mux_target (rq_method rq) (rq_path rq) = M_Action action \<Longrightarrow>
      rq_method rq \<noteq> ''POST'' \<or> gw_routes g action = None \<or>
      (\<exists>e. rq_body rq = Inl e) \<or> (\<exists>b. rq_body rq = Inr b \<and> \<not> body_ok b)"
  shows "snd (serve_http ft re g rq s) = s \<and>
    (case mux_target (rq_method rq) (rq_path rq) of
       M_Asterisk \<Rightarrow> rq_path rq = ''*'' \<and> wr_status (fst (serve_http ft re g rq s)) = Some 400
     | M_Redirect p \<Rightarrow> p = clean_path (rq_path rq) \<and> p \<noteq> rq_path rq \<and>
         wr_status (fst (serve_http ft re g rq s)) = Some (re_moved re) \<and>
         wr_headers (fst (serve_http ft re g rq s)) ''Location'' = Some (path_escape p)
     | M_NotFound \<Rightarrow> mux_action (rq_path rq) = None \<and> wr_status (fst (serve_http ft re g rq s)) = Some 404
     | M_Action action \<Rightarrow> mux_action (rq_path rq) = Some action \<and>
         wr_status (fst (serve_http ft re g rq s)) = Some
           (if rq_method rq = ''OPTIONS'' then 204
            else if gw_routes g action = None then 404
            else if rq_method rq \<noteq> ''POST'' then 405 else 400))"
proof (cases "mux_target (rq_method rq) (rq_path rq)")
  case (M_Action action)
  have run: "judge g action rq \<noteq> V_Run" using judge_run [of g action rq] assms [OF M_Action] by auto
  show ?thesis using serve_refused [OF M_Action run] refusal_status [OF run] M_Action mux_targetD(4) [OF M_Action] by simp
qed (auto simp: serve_http_def own_writers dest: mux_targetD)

definition echo_gateway :: "nat gateway" where
  "echo_gateway = register_handler ''chat''
     (\<lambda>e (h, n). (if env_payload e = ''{}'' then Failure (Errf ''no %q'' [FStr ''text'']) else Answer None, (h, Suc n)))
     (new_gateway ''localhost'' 8080)"

definition get_request :: http_request where
  "get_request = \<lparr>rq_method = ''GET'', rq_path = ''/api/v1/chat'',
     rq_header = (\<lambda>k. if k = ''X-Trace-ID'' then ''t1'' else []), rq_body = Inr ''{}''\<rparr>"

definition plain_env :: request_env where
  "plain_env = \<lparr>re_uuid1 = ''u1'', re_uuid2 = ''u2'', re_now = 5, re_keys = [], re_moved = 307\<rparr>"

lemma chat_path: "mux_target meth ''/api/v1/chat'' = M_Action ''chat''"
  using mux_api [of "''chat''" meth] by (simp add: plain_segment_def)

theorem gateway_refuses_witness:
  "snd (serve_http (\<lambda>_. []) plain_env echo_gateway get_request ([], 0)) = ([], 0) \<and>
   wr_status (fst (serve_http (\<lambda>_. []) plain_env echo_gateway get_request ([], 0))) = Some 405 \<and>
   wr_headers (fst (serve_http (\<lambda>_. []) plain_env echo_gateway (get_request\<lparr>rq_path := ''/api//v1/chat''\<rparr>) ([], 0)))
     ''Location'' = Some ''/api/v1/chat''"
proof -
  let ?rq = "get_request\<lparr>rq_path := ''/api//v1/chat''\<rparr>"
  have m: "mux_target (rq_method get_request) (rq_path get_request) = M_Action ''chat''"
    "mux_target (rq_method ?rq) (rq_path ?rq) = M_Redirect ''/api/v1/chat''"
    by (simp add: get_request_def chat_path)
      (simp add: get_request_def mux_target_def clean_path_def path_clean_def has_prefix_def has_suffix_def)
  have r: "rq_method get_request = ''GET''" "gw_routes echo_gateway ''chat'' \<noteq> None"
    by (simp_all add: get_request_def echo_gateway_def register_handler_def)
  have "path_escape ''/api/v1/chat'' = ''/api/v1/chat''" by (simp add: path_escape_def path_char_def)
  with gateway_refuses [of get_request echo_gateway "\<lambda>_. []" plain_env "([], 0)"]
    gateway_refuses [of ?rq echo_gateway "\<lambda>_. []" plain_env "([], 0)"] m r show ?thesis by simp
qed

text \<open>
  Every refused or failed API request is answered with the CORS headers and a JSON object
  that parses back to the message and the trace ID of the request: the \<open>X-Trace-ID\<close> header
  when there is one, a fresh ID otherwise.
\<close>

theorem gateway_error_body:
  assumes "mux_target (rq_method rq) (rq_path rq) = M_Action action" "rq_method rq \<noteq> ''OPTIONS''"
    and "judge g action rq = V_Run \<Longrightarrow>
      \<exists>err s'. the (gw_routes g action)
          (fst (request_envelope (re_uuid2 re) (re_now re) (req_trace re rq) action
             (projr (rq_body rq)) (rq_header rq ''Authorization'') (fst s)))
          (snd (request_envelope (re_uuid2 re) (re_now re) (req_trace re rq) action
             (projr (rq_body rq)) (rq_header rq ''Authorization'') (fst s)), snd s) = (Failure err, s')"
  shows "\<exists>msg. parse (wr_body (fst (serve_http ft re g rq s))) =
      Some (JObj [(''error'', JStr msg), (''trace_id'', JStr (req_trace re rq))]) \<and>
    cors_headers \<subseteq>\<^sub>m wr_headers (fst (serve_http ft re g rq s)) \<and>
    (case judge g action rq of V_Refuse st m \<Rightarrow> msg = m | _ \<Rightarrow> True)"
proof -
  have cors: "cors_headers \<subseteq>\<^sub>m cors_headers(''Content-Type'' \<mapsto> ''application/json'')"
    by (auto simp: map_le_def cors_headers_def)
  have body: "parse (print (error_json t m) @ [CHR 0x0A]) =
      Some (JObj [(''error'', JStr m), (''trace_id'', JStr t)])" for t m
    using parse_line [OF error_json_ok] by (simp add: error_json_def)
  show ?thesis
  proof (cases "judge g action rq")
    case V_Preflight
    with assms(2) show ?thesis by (auto simp: judge_def split: if_splits)
  next
    case (V_Refuse st m)
    with assms(1) cors body show ?thesis
      by (simp add: serve_http_def handle_action_cases set_cors_new write_error_new)
  next
    case V_Run
    obtain e h where eh: "request_envelope (re_uuid2 re) (re_now re) (req_trace re rq) action
        (projr (rq_body rq)) (rq_header rq ''Authorization'') (fst s) = (e, h)" by force
    with assms(3) [OF V_Run] obtain err s' where "the (gw_routes g action) e (h, snd s) = (Failure err, s')"
      by auto
    with assms(1) V_Run eh cors body show ?thesis
      by (simp add: serve_http_def handle_action_cases set_cors_new write_error_new)
  qed
qed

theorem gateway_error_body_witness:
  "parse (wr_body (fst (serve_http (\<lambda>_. []) plain_env echo_gateway get_request ([], 0)))) =
     Some (JObj [(''error'', JStr ''method not allowed''), (''trace_id'', JStr ''t1'')])"
proof -
  have j: "judge echo_gateway ''chat'' get_request = V_Refuse 405 ''method not allowed''"
    by (simp add: judge_def get_request_def echo_gateway_def register_handler_def)
  have p: "mux_target (rq_method get_request) (rq_path get_request) = M_Action ''chat''" "rq_method get_request \<noteq> ''OPTIONS''"
    by (simp_all add: get_request_def chat_path)
  from gateway_error_body [OF p, of echo_gateway plain_env "([], 0)" "\<lambda>_. []"] j
  show ?thesis by (simp add: req_trace_def get_request_def)
qed

text \<open>
  C14. A request that passes the checks reaches its handler exactly once, as a request envelope
  that carries its action, trace ID and body bytes and a metadata map of its own, with the
  \<open>Authorization\<close> header when there is one. A handler's error is a 500 with the error's text;
  its panic is recovered into a 500 whose trace ID is empty, against \<open>docs/api.md\<close>, which puts
  the trace ID into error responses. Strings are valid UTF-8, as in Wire.
\<close>

theorem gateway_runs_handler:
  assumes "mux_target (rq_method rq) (rq_path rq) = M_Action action" "rq_method rq = ''POST''"
    and "gw_routes g action = Some f" "rq_body rq = Inr b" "body_ok b"
  shows "\<exists>e h. env_action e = action \<and> env_trace e = req_trace re rq \<and> env_payload e = b \<and>
    env_type e = env_request \<and> env_meta e = Some (length (fst s)) \<and>
    take (length (fst s)) h = fst s \<and> length h = Suc (length (fst s)) \<and>
    meta_read h (env_meta e) ''authorization'' =
      (if rq_header rq ''Authorization'' = [] then None else Some (rq_header rq ''Authorization'')) \<and>
    (case f e (h, snd s) of
       (Answer _, s') \<Rightarrow> snd (serve_http ft re g rq s) = s' \<and>
         wr_status (fst (serve_http ft re g rq s)) = Some 200
     | (Failure err, s') \<Rightarrow> snd (serve_http ft re g rq s) = s' \<and>
         wr_status (fst (serve_http ft re g rq s)) = Some 500 \<and>
         wr_body (fst (serve_http ft re g rq s)) =
           print (error_json (req_trace re rq) (err_text err)) @ [CHR 0x0A]
     | (Crash _, s') \<Rightarrow> snd (serve_http ft re g rq s) = s' \<and>
         wr_status (fst (serve_http ft re g rq s)) = Some 500 \<and>
         wr_body (fst (serve_http ft re g rq s)) =
           print (error_json [] ''internal server error'') @ [CHR 0x0A])"
proof -
  obtain e h where eh: "request_envelope (re_uuid2 re) (re_now re) (req_trace re rq) action b
      (rq_header rq ''Authorization'') (fst s) = (e, h)" by force
  obtain out s' where out: "f e (h, snd s) = (out, s')" by (metis surj_pair)
  note fields = request_envelope_fields [OF eh] and served = serve_run [OF assms eh out]
  show ?thesis
    by (rule exI [of _ e], rule exI [of _ h], cases out)
      (simp_all add: fields out served answer_status write_error_cors del: print.simps)
qed

definition post_request :: http_request where
  "post_request = get_request\<lparr>rq_method := ''POST''\<rparr>"

theorem gateway_runs_handler_witness:
  "wr_status (fst (serve_http (\<lambda>_. []) plain_env echo_gateway post_request ([], 0))) = Some 500 \<and>
   snd (snd (serve_http (\<lambda>_. []) plain_env echo_gateway post_request ([], 0))) = 1"
proof -
  let ?f = "\<lambda>e (h, n :: nat). (if env_payload e = ''{}'' then Failure (Errf ''no %q'' [FStr ''text'']) else Answer None, (h, Suc n))"
  have ok: "body_ok ''{}''" using parse_print [of "JObj []"] by (simp add: body_ok_def)
  have r: "gw_routes echo_gateway ''chat'' = Some ?f" by (simp add: echo_gateway_def register_handler_def)
  have q: "mux_target (rq_method post_request) (rq_path post_request) = M_Action ''chat''" "rq_method post_request = ''POST''"
    "rq_body post_request = Inr ''{}''" by (simp_all add: post_request_def get_request_def chat_path)
  from gateway_runs_handler [OF q(1,2) r q(3) ok, of plain_env "([], 0)" "\<lambda>_. []"]
  show ?thesis by (elim exE conjE) (simp del: print.simps)
qed

end
