(* ===== verification/Go_Float.thy ===== *)
theory Go_Float
  imports Complex_Main "HOL-Library.Log_Nat"
begin

text \<open>
  Go's \<open>float32\<close> and \<open>float64\<close>: the rational they stand for, and rounding to nearest, ties
  to even, with subnormal numbers; \<open>None\<close> is a result that is not finite. Signed zeros and
  NaN have no counterpart: nothing in the source depends on them.
\<close>

section \<open>Rounding\<close>

definition round_even :: "rat \<Rightarrow> int" where
  "round_even x =
     (let f = \<lfloor>x\<rfloor>; d = x - of_int f
      in if d < 1 / 2 then f else if 1 / 2 < d then f + 1 else if even f then f else f + 1)"

text \<open>The exponent of the binade of a positive number.\<close>

definition binade :: "rat \<Rightarrow> int" where
  "binade q =
     (let (n, d) = quotient_of q; e = bitlen n - bitlen d
      in if q < 2 powi e then e - 1 else e)"

definition float_round :: "nat \<Rightarrow> int \<Rightarrow> int \<Rightarrow> rat \<Rightarrow> rat option" where
  "float_round prec emin emax q =
     (if q = 0 then Some 0
      else let a = \<bar>q\<bar>;
               u = 2 powi (max (binade a) emin - int prec + 1);
               r = of_int (round_even (a / u)) * u
           in if r < 2 powi (emax + 1) then Some (sgn q * r) else None)"

definition fl64 :: "rat \<Rightarrow> rat option" where
  "fl64 = float_round 53 (- 1022) 1023"

definition fl32 :: "rat \<Rightarrow> rat option" where
  "fl32 = float_round 24 (- 126) 127"

section \<open>Lemmas\<close>

lemma round_even_bound: "\<bar>of_int (round_even x) - x\<bar> \<le> 1 / 2"
proof -
  have "of_int \<lfloor>x\<rfloor> \<le> x" "x < of_int \<lfloor>x\<rfloor> + 1" by linarith+
  then show ?thesis by (simp add: round_even_def Let_def abs_le_iff)
qed

lemma round_even_le: "x \<le> of_int n \<Longrightarrow> round_even x \<le> n"
proof -
  assume "x \<le> of_int n"
  then consider "x < of_int n" | "x = of_int n" by linarith
  then show ?thesis
  proof cases
    case 1
    then have "\<lfloor>x\<rfloor> < n" by (simp add: floor_less_iff)
    then show ?thesis by (simp add: round_even_def Let_def)
  qed (simp add: round_even_def)
qed

lemma round_even_ge: "of_int n \<le> x \<Longrightarrow> n \<le> round_even x"
proof -
  assume "of_int n \<le> x"
  then have "n \<le> \<lfloor>x\<rfloor>" by (simp add: le_floor_iff)
  then show ?thesis by (simp add: round_even_def Let_def)
qed

lemma powi_pos: "(0 :: rat) < 2 powi n"
  by simp

lemma powi_split: "(2 :: rat) powi (m + n) = 2 powi m * 2 powi n"
  by (simp add: power_int_add)

lemma bitlen_powi:
  assumes "0 < n" shows "(2 :: rat) powi (bitlen n - 1) \<le> of_int n" "(of_int n :: rat) < 2 powi bitlen n"
proof -
  have pos: "0 < bitlen n" using assms bitlen_eq_zero_iff [of n] bitlen_nonneg [of n] by linarith
  then obtain k where k: "bitlen n = int k + 1"
    by (metis add.commute add_diff_cancel_left' diff_ge_0_iff_ge nonneg_int_cases
        add_diff_eq int_one_le_iff_zero_less le_add_diff_inverse)
  from bitlen_bounds [OF assms] have b: "2 ^ nat (bitlen n - 1) \<le> n" "n < 2 ^ nat (bitlen n)" by auto
  from b(1) k have "(2 :: int) ^ k \<le> n" by simp
  then have "(of_int (2 ^ k) :: rat) \<le> of_int n" by (subst of_int_le_iff)
  then show "(2 :: rat) powi (bitlen n - 1) \<le> of_int n" by (simp add: k)
  from b(2) k have "n < 2 ^ Suc k" by (simp add: nat_add_distrib)
  then have "(of_int n :: rat) < of_int (2 ^ Suc k)" by (subst of_int_less_iff)
  then show "(of_int n :: rat) < 2 powi bitlen n" by (simp add: k power_int_def nat_add_distrib)
qed

lemma binade_bounds:
  assumes "0 < q" shows "2 powi binade q \<le> q" "q < 2 powi (binade q + 1)"
proof -
  obtain n d where nd: "quotient_of q = (n, d)" by force
  then have q: "q = of_int n / of_int d" and d: "0 < d"
    by (rule quotient_of_div, rule quotient_of_denom_pos)
  then have n: "0 < n" using assms by (simp add: zero_less_divide_iff)
  let ?e = "bitlen n - bitlen d"
  have "q < 2 powi bitlen n / 2 powi (bitlen d - 1)"
    unfolding q using bitlen_powi [OF n] bitlen_powi [OF d] d
    by (intro frac_less) (use n in simp_all)
  also have "\<dots> = 2 powi (?e + 1)" by (simp add: power_int_diff power_int_add)
  finally have up: "q < 2 powi (?e + 1)" .
  have "2 powi (bitlen n - 1) / 2 powi bitlen d \<le> q"
    unfolding q using bitlen_powi [OF n] bitlen_powi [OF d] d
    by (intro frac_le) (use n in \<open>simp_all add: less_imp_le\<close>)
  moreover have "2 powi (bitlen n - 1) / 2 powi bitlen d = (2 :: rat) powi (?e - 1)"
    by (simp add: power_int_diff)
  ultimately have lo: "2 powi (?e - 1) \<le> q" by simp
  show "2 powi binade q \<le> q" "q < 2 powi (binade q + 1)"
    using up lo by (auto simp: binade_def nd Let_def not_less)
qed

lemma float_round_0 [simp]: "float_round p m M 0 = Some 0"
  by (simp add: float_round_def)

text \<open>A number between 0 and 1 stays there and moves by less than its last digit.\<close>

lemma float_round_unit:
  assumes "0 \<le> q" "q \<le> 1" "m < 0" "0 \<le> M" "0 < p"
  shows "\<exists>r. float_round p m M q = Some r \<and> 0 \<le> r \<and> r \<le> 1 \<and> \<bar>r - q\<bar> \<le> 2 powi (- int p)"
proof (cases "q = 0")
  case False
  with assms(1) have q: "0 < q" by simp
  let ?e = "max (binade q) m"
  define u where "u = (2 :: rat) powi (?e - int p + 1)"
  let ?r = "of_int (round_even (q / u)) * u"
  have u: "0 < u" by (simp add: u_def)
  have e0: "binade q \<le> 0"
  proof (rule ccontr)
    assume "\<not> ?thesis"
    then have "(2 :: rat) powi 1 \<le> 2 powi binade q" by (intro power_int_increasing) simp_all
    with binade_bounds(1) [OF q] assms(2) show False by simp
  qed
  have "\<bar>of_int (round_even (q / u)) - q / u\<bar> * u \<le> 1 / 2 * u"
    by (rule mult_right_mono [OF round_even_bound]) (use u in simp)
  moreover have "\<bar>of_int (round_even (q / u)) - q / u\<bar> * u = \<bar>?r - q\<bar>"
  proof -
    have "(of_int (round_even (q / u)) - q / u) * u = ?r - q" using u by (simp add: left_diff_distrib)
    then show ?thesis using u by (metis abs_mult abs_of_pos)
  qed
  ultimately have near: "\<bar>?r - q\<bar> \<le> u / 2" by simp
  have "u \<le> 2 powi (1 - int p)"
    unfolding u_def using e0 assms(3) by (intro power_int_increasing) simp_all
  then have half: "u / 2 \<le> 2 powi (- int p)" using powi_split [of 1 "- int p"] by simp
  have nonneg: "0 \<le> ?r" using u q round_even_ge [of 0 "q / u"] by simp
  have inv: "1 / u = of_int (2 ^ nat (int p - 1 - ?e))"
  proof -
    have "1 / u = 2 powi (int p - 1 - ?e)" unfolding u_def
      by (simp add: power_int_diff power_int_add field_simps)
    also have "\<dots> = 2 ^ nat (int p - 1 - ?e)" using e0 assms(3,5) by (simp add: power_int_def)
    finally show ?thesis by simp
  qed
  have "q / u \<le> 1 / u" using assms(2) u by (simp add: divide_right_mono)
  then have "round_even (q / u) \<le> 2 ^ nat (int p - 1 - ?e)" unfolding inv by (rule round_even_le)
  then have "(of_int (round_even (q / u)) :: rat) \<le> 1 / u" unfolding inv by (subst of_int_le_iff)
  then have "?r \<le> 1 / u * u" using u by (intro mult_right_mono) simp_all
  then have one: "?r \<le> 1" using u by simp
  have "(2 :: rat) powi 1 \<le> 2 powi (M + 1)" using assms(4) by (intro power_int_increasing) simp_all
  with one have "?r < 2 powi (M + 1)" by simp
  then have "float_round p m M q = Some ?r"
    using q by (simp add: float_round_def Let_def u_def)
  with near half nonneg one show ?thesis by auto
qed simp

lemma fl64_unit:
  assumes "0 \<le> q" "q \<le> 1"
  shows "\<exists>r. fl64 q = Some r \<and> 0 \<le> r \<and> r \<le> 1 \<and> \<bar>r - q\<bar> \<le> 2 powi (- 53)"
  using float_round_unit [of q "- 1022" 1023 53] assms by (simp add: fl64_def)

lemma fl32_unit:
  assumes "0 \<le> q" "q \<le> 1"
  shows "\<exists>r. fl32 q = Some r \<and> 0 \<le> r \<and> r \<le> 1 \<and> \<bar>r - q\<bar> \<le> 2 powi (- 24)"
  using float_round_unit [of q "- 126" 127 24] assms by (simp add: fl32_def)

lemma fl64_0 [simp]: "fl64 0 = Some 0"
  by (simp add: fl64_def)

lemma round_even_int: "round_even (of_int n) = n"
  by (simp add: round_even_def)

lemma fl64_1 [simp]: "fl64 1 = Some 1"
proof -
  have b: "binade 1 = 0" by (simp add: binade_def bitlen_def floorlog_def)
  have "round_even 4503599627370496 = 4503599627370496"
    using round_even_int [of 4503599627370496] by simp
  with b show ?thesis by (simp add: fl64_def float_round_def Let_def power_int_minus)
qed

text \<open>Distinct 16-bit fractions stay distinct as \<open>float32\<close>.\<close>

lemma fl32_frac_inj:
  assumes "a \<le> 65535" "b \<le> 65535"
    and "fl32 (of_nat a / 65535) = fl32 (of_nat b / 65535)"
  shows "a = b"
proof -
  have unit: "0 \<le> (of_nat n / 65535 :: rat)" "(of_nat n / 65535 :: rat) \<le> 1" if "n \<le> 65535" for n
  proof -
    have "(of_nat n :: rat) \<le> of_nat 65535" using that by (subst of_nat_le_iff)
    then show "(of_nat n / 65535 :: rat) \<le> 1" by simp
  qed simp
  obtain r where a: "fl32 (of_nat a / 65535) = Some r" "\<bar>r - of_nat a / 65535\<bar> \<le> 2 powi (- 24)"
    using fl32_unit [OF unit [OF assms(1)]] by blast
  obtain s where b: "fl32 (of_nat b / 65535) = Some s" "\<bar>s - of_nat b / 65535\<bar> \<le> 2 powi (- 24)"
    using fl32_unit [OF unit [OF assms(2)]] by blast
  have "(2 :: rat) powi (- 24) = 1 / 16777216" by (simp add: power_int_minus)
  with a b assms(3) have "\<bar>r - of_nat a / 65535\<bar> \<le> 1 / 16777216" "\<bar>r - of_nat b / 65535\<bar> \<le> 1 / 16777216"
    by simp_all
  then have "\<bar>of_nat a / 65535 - of_nat b / 65535 :: rat\<bar> \<le> 2 / 16777216" by linarith
  then have "\<bar>of_nat a - of_nat b :: rat\<bar> \<le> 2 * 65535 / 16777216"
    by (simp add: diff_divide_distrib [symmetric] abs_divide divide_le_eq)
  then have "\<bar>of_int (int a - int b) :: rat\<bar> < of_int 1" by simp
  then have "\<bar>int a - int b\<bar> < 1" unfolding of_int_abs [symmetric] of_int_less_iff .
  then show ?thesis by simp
qed

section \<open>Exactness and monotonicity of \<open>float64\<close> arithmetic\<close>

lemma powi_less: "(2 :: rat) powi a < 2 powi b \<Longrightarrow> a < b"
  using power_int_increasing [of b a "2 :: rat"] by (cases "a < b") auto

lemma binade_unique: "2 powi e \<le> q \<Longrightarrow> q < 2 powi (e + 1) \<Longrightarrow> binade q = e"
proof -
  assume e: "2 powi e \<le> q" "q < 2 powi (e + 1)"
  then have q: "0 < q" using powi_pos [of e] by linarith
  note b = binade_bounds [OF q]
  have "(2 :: rat) powi e < 2 powi (binade q + 1)" "(2 :: rat) powi binade q < 2 powi (e + 1)"
    using e b by linarith+
  from this [THEN powi_less] show ?thesis by linarith
qed

lemma round_even_mono: "x \<le> y \<Longrightarrow> round_even x \<le> round_even y"
proof (cases "\<lfloor>x\<rfloor> < \<lfloor>y\<rfloor>")
  case True
  have "round_even x \<le> \<lfloor>x\<rfloor> + 1" by (rule round_even_le) linarith
  moreover have "\<lfloor>y\<rfloor> \<le> round_even y" by (rule round_even_ge) simp
  ultimately show ?thesis using True by linarith
next
  case False
  assume "x \<le> y"
  moreover from this False have "\<lfloor>x\<rfloor> = \<lfloor>y\<rfloor>" using floor_mono [of x y] by linarith
  ultimately show ?thesis by (simp add: round_even_def Let_def)
qed

text \<open>The spacing of the numbers around \<open>q\<close>, and rounding before the overflow check.\<close>

definition ulp :: "nat \<Rightarrow> int \<Rightarrow> rat \<Rightarrow> rat" where
  "ulp p m q = 2 powi (max (binade q) m - int p + 1)"

definition rounded :: "nat \<Rightarrow> int \<Rightarrow> rat \<Rightarrow> rat" where
  "rounded p m q = of_int (round_even (q / ulp p m q)) * ulp p m q"

lemma ulp_pos [simp]: "0 < ulp p m q"
  by (simp add: ulp_def)

lemma float_round_pos:
  "0 < q \<Longrightarrow> float_round p m M q =
     (if rounded p m q < 2 powi (M + 1) then Some (rounded p m q) else None)"
  by (simp add: float_round_def rounded_def ulp_def Let_def)

lemma powi_of_int: "a \<le> b \<Longrightarrow> (2 :: rat) powi b / 2 powi a = of_int (2 ^ nat (b - a))"
proof -
  assume "a \<le> b"
  have "(2 :: rat) powi b / 2 powi a = 2 powi (b - a)" by (simp add: power_int_diff)
  also have "\<dots> = 2 ^ nat (b - a)" using \<open>a \<le> b\<close> by (simp add: power_int_def)
  finally show ?thesis by simp
qed

text \<open>A number with fewer than \<open>p\<close> binary digits is kept.\<close>

lemma rounded_exact:
  assumes "0 < n" "n < 2 ^ p" "m - int p + 1 \<le> k" "q = of_int n * 2 powi k"
  shows "rounded p m q = q"
proof -
  have q: "0 < q" using assms(1,4) by simp
  have "(of_int n :: rat) < of_int (2 ^ p)" using assms(2) by (subst of_int_less_iff)
  then have "q < 2 powi int p * 2 powi k" using assms(4) by simp
  also have "\<dots> = 2 powi (k + int p)" by (simp only: powi_split mult.commute)
  finally have "q < 2 powi (k + int p)" .
  with binade_bounds(1) [OF q] have "(2 :: rat) powi binade q < 2 powi (k + int p)" by linarith
  then have "binade q < k + int p" by (rule powi_less)
  then have le: "max (binade q) m - int p + 1 \<le> k" using assms(3) by simp
  have "q / ulp p m q = of_int n * (2 powi k / ulp p m q)" using assms(4) by simp
  also have "\<dots> = of_int (n * 2 ^ nat (k - (max (binade q) m - int p + 1)))"
    unfolding ulp_def powi_of_int [OF le] by simp
  finally have int: "q / ulp p m q = of_int (n * 2 ^ nat (k - (max (binade q) m - int p + 1)))" .
  then have "rounded p m q = q / ulp p m q * ulp p m q"
    unfolding rounded_def int round_even_int by simp
  then show ?thesis by (simp add: less_imp_neq [OF ulp_pos, symmetric])
qed

lemma rounded_upper:
  assumes "0 < q" "0 < p"
  shows "rounded p m q \<le> 2 powi (max (binade q) m + 1)"
proof -
  let ?E = "max (binade q) m"
  have hi: "2 powi (?E + 1) / ulp p m q = of_int (2 ^ p)"
    unfolding ulp_def using powi_of_int [of "?E - int p + 1" "?E + 1"] by simp
  have "(2 :: rat) powi (binade q + 1) \<le> 2 powi (?E + 1)" by (intro power_int_increasing) simp_all
  with binade_bounds(2) [OF assms(1)] have "q \<le> 2 powi (?E + 1)" by linarith
  then have "q / ulp p m q \<le> 2 powi (?E + 1) / ulp p m q" by (simp add: divide_right_mono less_imp_le)
  then have "round_even (q / ulp p m q) \<le> 2 ^ p" unfolding hi by (rule round_even_le)
  then have "(of_int (round_even (q / ulp p m q)) :: rat) \<le> of_int (2 ^ p)" by (simp only: of_int_le_iff)
  then have "rounded p m q \<le> of_int (2 ^ p) * ulp p m q"
    unfolding rounded_def by (simp add: mult_right_mono del: of_int_power)
  also have "\<dots> = 2 powi (?E + 1)"
    unfolding hi [symmetric] by (simp add: less_imp_neq [OF ulp_pos, symmetric])
  finally show ?thesis .
qed

lemma rounded_lower:
  assumes "0 < q" "m \<le> binade q" "0 < p"
  shows "2 powi binade q \<le> rounded p m q"
proof -
  let ?e = "binade q"
  have u: "ulp p m q = 2 powi (?e - int p + 1)" using assms(2) by (simp add: ulp_def max_def)
  have lo: "2 powi ?e / ulp p m q = of_int (2 ^ (p - 1))"
    unfolding u using powi_of_int [of "?e - int p + 1" ?e] assms(3) by (simp add: nat_diff_distrib)
  have "2 powi ?e / ulp p m q \<le> q / ulp p m q"
    using binade_bounds [OF assms(1)] by (simp add: divide_right_mono less_imp_le)
  then have "2 ^ (p - 1) \<le> round_even (q / ulp p m q)" unfolding lo by (rule round_even_ge)
  then have "(of_int (2 ^ (p - 1)) :: rat) \<le> of_int (round_even (q / ulp p m q))"
    by (simp only: of_int_le_iff)
  then have "of_int (2 ^ (p - 1)) * ulp p m q \<le> rounded p m q"
    unfolding rounded_def by (simp add: mult_right_mono del: of_int_power)
  moreover have "of_int (2 ^ (p - 1)) * ulp p m q = 2 powi ?e"
    unfolding lo [symmetric] by (simp add: less_imp_neq [OF ulp_pos, symmetric])
  ultimately show ?thesis by simp
qed

lemma binade_mono:
  assumes "0 < q" "q \<le> q'" shows "binade q \<le> binade q'"
proof -
  have "0 < q'" using assms by linarith
  with binade_bounds(1) [OF assms(1)] binade_bounds(2) [of q'] assms(2)
  have "(2 :: rat) powi binade q < 2 powi (binade q' + 1)" by linarith
  from powi_less [OF this] show ?thesis by simp
qed

lemma rounded_mono:
  assumes "0 < q" "q \<le> q'" "0 < p"
  shows "rounded p m q \<le> rounded p m q'"
proof (cases "max (binade q) m = max (binade q') m")
  case True
  then have u: "ulp p m q' = ulp p m q" by (simp add: ulp_def)
  have "q / ulp p m q \<le> q' / ulp p m q" using assms(2) by (simp add: divide_right_mono less_imp_le)
  then have "round_even (q / ulp p m q) \<le> round_even (q' / ulp p m q)" by (rule round_even_mono)
  then have "(of_int (round_even (q / ulp p m q)) :: rat) \<le> of_int (round_even (q' / ulp p m q))"
    by (simp only: of_int_le_iff)
  then show ?thesis unfolding rounded_def u by (simp add: mult_right_mono)
next
  case False
  with binade_mono [OF assms(1,2)] have "max (binade q) m < binade q'" "m \<le> binade q'" by linarith+
  have q': "0 < q'" using assms by linarith
  have "rounded p m q \<le> 2 powi (max (binade q) m + 1)" by (rule rounded_upper [OF assms(1,3)])
  also have "\<dots> \<le> 2 powi binade q'"
    using \<open>max (binade q) m < binade q'\<close> by (intro power_int_increasing) linarith+
  also have "\<dots> \<le> rounded p m q'" by (rule rounded_lower [OF q' \<open>m \<le> binade q'\<close> assms(3)])
  finally show ?thesis .
qed

text \<open>
  The value of a \<open>float64\<close> operation whose exact result is \<open>q\<close>. It is only used where
  \<open>0 \<le> q \<le> 2 ^ 53\<close>, so that the result is finite.
\<close>

definition f64 :: "rat \<Rightarrow> rat" where
  "f64 q = (case fl64 q of Some r \<Rightarrow> r | None \<Rightarrow> 0)"

lemma f64_0 [simp]: "f64 0 = 0"
  by (simp add: f64_def)

lemma f64_pos:
  assumes "0 < q" "q \<le> 2 ^ 53"
  shows "f64 q = rounded 53 (- 1022) q \<and> fl64 q = Some (f64 q)"
proof -
  have one: "rounded 53 (- 1022) (2 ^ 53) = 2 ^ 53"
    using rounded_exact [of 1 53 "- 1022" 53 "2 ^ 53"] by simp
  have "rounded 53 (- 1022) q \<le> 2 ^ 53" using rounded_mono [OF assms, of 53 "- 1022"] unfolding one by simp
  also have "(2 :: rat) ^ 53 < 2 powi (1023 + 1)" by simp
  finally show ?thesis unfolding f64_def fl64_def float_round_pos [OF assms(1)] by simp
qed

lemma f64_mono:
  assumes "0 \<le> q" "q \<le> q'" "q' \<le> 2 ^ 53"
  shows "f64 q \<le> f64 q'"
proof (cases "q = 0")
  case True
  have "0 \<le> f64 q'"
  proof (cases "q' = 0")
    case False
    with assms True have q': "0 < q'" by linarith
    have "0 \<le> round_even (q' / ulp 53 (- 1022) q')" by (rule round_even_ge) (use q' in \<open>simp add: less_imp_le\<close>)
    then have "0 \<le> rounded 53 (- 1022) q'" by (simp add: rounded_def less_imp_le)
    then show ?thesis using f64_pos [OF q' assms(3)] by simp
  qed simp
  with True show ?thesis by simp
next
  case False
  with assms have "0 < q" "0 < q'" "q \<le> 2 ^ 53" by linarith+
  with f64_pos [of q] f64_pos [of q'] rounded_mono [of q q' 53 "- 1022"] assms show ?thesis by simp
qed

lemma f64_nonneg: "0 \<le> q \<Longrightarrow> q \<le> 2 ^ 53 \<Longrightarrow> 0 \<le> f64 q"
  using f64_mono [of 0 q] by simp

lemma f64_nat:
  assumes "n \<le> 2 ^ 53" shows "f64 (of_nat n) = of_nat n"
proof (cases "n = 0")
  case False
  have le: "(of_nat n :: rat) \<le> 2 ^ 53"
  proof -
    have "(of_nat n :: rat) \<le> of_nat (2 ^ 53)" using assms by (simp only: of_nat_le_iff)
    then show ?thesis by simp
  qed
  have "rounded 53 (- 1022) (of_nat n) = of_nat n"
  proof (cases "n = 2 ^ 53")
    case True
    then show ?thesis using rounded_exact [of 1 53 "- 1022" 53 "2 ^ 53"] by simp
  next
    case False
    with assms \<open>n \<noteq> 0\<close> show ?thesis using rounded_exact [of "int n" 53 "- 1022" 0 "of_nat n"] by simp
  qed
  with f64_pos [OF _ le] False show ?thesis by simp
qed simp

lemma f64_1 [simp]: "f64 1 = 1"
  using f64_nat [of 1] by simp

lemma f64_unit: "0 \<le> q \<Longrightarrow> q \<le> 1 \<Longrightarrow> 0 \<le> f64 q \<and> f64 q \<le> 1"
  using f64_mono [of 0 q] f64_mono [of q 1] by simp

text \<open>Doubling a result of a rounding is exact.\<close>

lemma f64_double:
  assumes "0 \<le> q" "q \<le> 1" shows "f64 (2 * f64 q) = 2 * f64 q"
proof (cases "f64 q = 0")
  case False
  then have q: "0 < q" using assms by (cases "q = 0") simp_all
  let ?u = "ulp 53 (- 1022) q"
  let ?n = "round_even (q / ?u)"
  have fq: "f64 q = of_int ?n * ?u" using f64_pos [OF q] assms(2) by (simp add: rounded_def)
  have fb: "0 \<le> f64 q" "f64 q \<le> 1" using f64_unit [OF assms] by simp_all
  have n: "0 < ?n"
  proof (rule ccontr)
    assume "\<not> ?thesis"
    then have "f64 q \<le> 0" unfolding fq by (simp add: mult_nonpos_nonneg less_imp_le)
    with fb False show False by simp
  qed
  obtain k where k: "?u = 2 powi k" "- 1074 \<le> k" by (auto simp: ulp_def)
  have le: "?n \<le> 2 ^ 53"
  proof -
    have "of_int ?n * ?u \<le> 2 powi (max (binade q) (- 1022) + 1)"
      using rounded_upper [OF q, of 53 "- 1022"] by (simp add: rounded_def)
    also have "\<dots> = of_int (2 ^ 53) * ?u"
      unfolding ulp_def by (simp add: powi_split power_int_diff)
    finally have "(of_int ?n :: rat) \<le> of_int (2 ^ 53)" using ulp_pos [of 53 "- 1022" q] by (simp only: mult_le_cancel_right_pos)
    then show ?thesis by (simp only: of_int_le_iff)
  qed
  have "rounded 53 (- 1022) (2 * f64 q) = 2 * f64 q"
  proof (cases "?n = 2 ^ 53")
    case True
    have "f64 q = of_int (2 ^ 53) * ?u" using fq unfolding True .
    then have "2 * f64 q = of_int 1 * 2 powi (k + 54)" unfolding k(1) by (simp add: powi_split)
    with rounded_exact [of 1 53 "- 1022" "k + 54" "2 * f64 q"] k(2) show ?thesis by simp
  next
    case False
    have "2 * f64 q = 2 * (of_int ?n * 2 powi k)" using fq by (simp only: k(1))
    then have "2 * f64 q = of_int ?n * 2 powi (k + 1)" by (simp add: powi_split)
    with rounded_exact [of ?n 53 "- 1022" "k + 1" "2 * f64 q"] k(2) n le False show ?thesis by simp
  qed
  moreover have "0 < 2 * f64 q" "2 * f64 q \<le> 2 ^ 53" using fb False by simp_all
  ultimately show ?thesis using f64_pos by metis
qed simp

end
