(* ===== verification/Json_Values.thy ===== *)
theory Json_Values
  imports Json_Decode Go_Float "HOL-Library.Char_ord" "HOL-Library.List_Lexorder"
begin

text \<open>
  JSON numbers as \<open>float64\<close>, arrays of structs, and the values an \<open>any\<close> field holds
  (decoded without a schema and marshalled again). How \<open>strconv\<close> writes a float is the
  argument \<open>ff\<close>, with \<open>None\<close> for a number that is not finite.
\<close>

section \<open>Numbers\<close>

definition read_exp :: "string \<Rightarrow> int" where
  "read_exp s =
     (case s of
        [] \<Rightarrow> 0
      | c # ds \<Rightarrow> if c = CHR ''-'' then - int (read_nat ds)
                  else if c = CHR ''+'' then int (read_nat ds) else int (read_nat s))"

text \<open>The value of a number's text: digits with a sign, a fraction and an exponent.\<close>

definition read_rat :: "string \<Rightarrow> rat" where
  "read_rat s =
     (let (neg, s) = (case s of c # t \<Rightarrow> if c = CHR ''-'' then (True, t) else (False, s) | [] \<Rightarrow> (False, []));
          not_e = (\<lambda>c. c \<noteq> CHR ''e'' \<and> c \<noteq> CHR ''E'');
          mant = takeWhile not_e s;
          ex = read_exp (drop (Suc (length mant)) s);
          ip = takeWhile (\<lambda>c. c \<noteq> CHR ''.'') mant;
          fp = drop (Suc (length ip)) mant;
          q = of_nat (read_nat (ip @ fp)) * 10 powi (ex - int (length fp))
      in if neg then - q else q)"

lemma digit_not_mark: "digit c \<Longrightarrow> c \<noteq> CHR ''e'' \<and> c \<noteq> CHR ''E'' \<and> c \<noteq> CHR ''.'' \<and> c \<noteq> CHR ''-''"
  by (auto simp: digit_def)

lemma read_rat_digits:
  assumes "list_all digit s" "s \<noteq> []"
  shows "read_rat s = of_nat (read_nat s)" "read_rat (CHR ''-'' # s) = - of_nat (read_nat s)"
proof -
  have "takeWhile (\<lambda>c. c \<noteq> CHR ''e'' \<and> c \<noteq> CHR ''E'') s = s" "takeWhile (\<lambda>c. c \<noteq> CHR ''.'') s = s"
    using assms(1) digit_not_mark by (auto simp: takeWhile_eq_all_conv list_all_iff)
  moreover obtain c t where "s = c # t" "c \<noteq> CHR ''-''"
    using assms digit_not_mark by (cases s) auto
  ultimately show "read_rat s = of_nat (read_nat s)" "read_rat (CHR ''-'' # s) = - of_nat (read_nat s)"
    by (simp_all add: read_rat_def read_exp_def Let_def)
qed

lemma read_rat_show_int [simp]: "read_rat (show_int i) = of_int i"
  using read_rat_digits [of "show_nat (nat (- i))"] read_rat_digits [of "show_nat (nat i)"]
    show_nat_digits [of "nat (- i)"] show_nat_digits [of "nat i"]
  by (simp add: show_int_def)

definition dec_float :: "rat decoder" where
  "dec_float v x =
     (case parse v of
        Some (JNum s) \<Rightarrow> (case fl64 (read_rat s) of Some q \<Rightarrow> Inr q | None \<Rightarrow> Inl err_json)
      | Some JNull \<Rightarrow> Inr x
      | _ \<Rightarrow> Inl err_json)"

text \<open>A \<open>*float64\<close> field: \<open>null\<close> is the nil pointer.\<close>

definition dec_float_ptr :: "rat option decoder" where
  "dec_float_ptr v x =
     (case parse v of Some JNull \<Rightarrow> Inr None | _ \<Rightarrow> map_sum id Some (dec_float v 0))"

definition num_json :: "(rat \<Rightarrow> string) \<Rightarrow> rat option \<Rightarrow> json result" where
  "num_json ff q = (case q of Some r \<Rightarrow> Inr (JNum (ff r)) | None \<Rightarrow> Inl err_json)"

definition int_json :: "gint \<Rightarrow> json" where
  "int_json w = JNum (show_int (sint w))"

lemma json_ok_int [simp]: "json_ok (int_json w)"
  by (simp add: int_json_def num_ok_show_int)

lemma dec_int_json [simp]: "dec_int (print (int_json w)) x = Inr w"
  using dec_int_print [of "sint w" x] sint_ge [of w] sint_lt [of w] by (simp add: int_json_def)

lemma dec_raw_print [simp]: "dec_raw v x = Inr v"
  by (simp add: dec_raw_def)

definition dec_bool :: "bool decoder" where
  "dec_bool v x =
     (case parse v of Some (JBool b) \<Rightarrow> Inr b | Some JNull \<Rightarrow> Inr x | _ \<Rightarrow> Inl err_json)"

section \<open>Slices of structs\<close>

fun all_results :: "'a result list \<Rightarrow> 'a list result" where
  "all_results [] = Inr []"
| "all_results (r # rs) = bind r (\<lambda>v. bind (all_results rs) (\<lambda>vs. Inr (v # vs)))"

text \<open>The elements are decoded one by one into zero values \<open>z\<close>.\<close>

definition dec_list :: "'a decoder \<Rightarrow> 'a \<Rightarrow> 'a list decoder" where
  "dec_list dec z v x = bind (arr_elems v) (\<lambda>vs. all_results (map (\<lambda>e. dec e z) vs))"

lemma all_results_Inr: "all_results (map Inr xs) = Inr xs"
  by (induction xs) simp_all

lemma all_results_iff: "all_results rs = Inr xs \<longleftrightarrow> rs = map Inr xs"
proof (induction rs arbitrary: xs)
  case (Cons r rs)
  then show ?case by (cases xs) (auto simp: bind_Inr)
qed auto

lemma dec_list_print:
  assumes "\<forall>v \<in> set vs. json_ok v" "\<And>v. v \<in> set vs \<Longrightarrow> dec (print v) z = Inr (f v)"
  shows "dec_list dec z (print (JArr vs)) x = Inr (map f vs)"
proof -
  have "map (\<lambda>e. dec e z) (map print vs) = map Inr (map f vs)" using assms(2) by simp
  then show ?thesis
    by (simp only: dec_list_def arr_elems_print [OF assms(1)] bind_simps all_results_Inr)
qed

section \<open>Values without a schema\<close>

text \<open>
  What is left of a JSON text decoded into \<open>any\<close> and marshalled again: numbers are floats,
  of repeated keys the last one counts, keys are sorted.
\<close>

definition sorted_obj :: "(string \<times> json) list \<Rightarrow> json" where
  "sorted_obj kvs = JObj (map (\<lambda>k. (k, the (map_of (rev kvs) k))) (sort (remdups (map fst kvs))))"

fun any_json :: "(rat \<Rightarrow> string) \<Rightarrow> json \<Rightarrow> json result"
  and any_jsons :: "(rat \<Rightarrow> string) \<Rightarrow> json list \<Rightarrow> json list result"
  and any_fields :: "(rat \<Rightarrow> string) \<Rightarrow> (string \<times> json) list \<Rightarrow> (string \<times> json) list result" where
  "any_json ff (JNum s) = num_json ff (fl64 (read_rat s))"
| "any_json ff (JArr vs) = map_sum id JArr (any_jsons ff vs)"
| "any_json ff (JObj kvs) = map_sum id sorted_obj (any_fields ff kvs)"
| "any_json ff v = Inr v"
| "any_jsons ff [] = Inr []"
| "any_jsons ff (v # vs) = bind (any_json ff v) (\<lambda>w. bind (any_jsons ff vs) (\<lambda>ws. Inr (w # ws)))"
| "any_fields ff [] = Inr []"
| "any_fields ff ((k, v) # kvs) =
     bind (any_json ff v) (\<lambda>w. bind (any_fields ff kvs) (\<lambda>ws. Inr ((k, w) # ws)))"

text \<open>An \<open>any\<close> field: \<open>null\<close> is the nil interface. The content is kept as marshalled again.\<close>

definition dec_any :: "(rat \<Rightarrow> string) \<Rightarrow> json option decoder" where
  "dec_any ff v x =
     (case parse v of
        None \<Rightarrow> Inl err_json
      | Some JNull \<Rightarrow> Inr None
      | Some j \<Rightarrow> map_sum id Some (any_json ff j))"

text \<open>A \<open>map[string]any\<close> field, \<open>None\<close> for the nil map.\<close>

definition dec_any_map :: "(rat \<Rightarrow> string) \<Rightarrow> json option decoder" where
  "dec_any_map ff v x =
     (case parse v of
        Some JNull \<Rightarrow> Inr None
      | Some (JObj kvs) \<Rightarrow> map_sum id Some (any_json ff (JObj kvs))
      | _ \<Rightarrow> Inl err_json)"

text \<open>A \<open>map[string]string\<close> field, as its entries in the order of the keys.\<close>

fun string_fields :: "(string \<times> json) list \<Rightarrow> (string \<times> string) list result" where
  "string_fields [] = Inr []"
| "string_fields ((k, JStr s) # kvs) = map_sum id (Cons (k, s)) (string_fields kvs)"
| "string_fields ((k, JNull) # kvs) = map_sum id (Cons (k, [])) (string_fields kvs)"
| "string_fields (_ # kvs) = Inl err_json"

definition dec_string_map :: "(string \<times> string) list decoder" where
  "dec_string_map v x =
     (case parse v of
        Some JNull \<Rightarrow> Inr []
      | Some (JObj kvs) \<Rightarrow>
          map_sum id (\<lambda>fs. map (\<lambda>k. (k, the (map_of (rev fs) k))) (sort (remdups (map fst fs))))
            (string_fields kvs)
      | _ \<Rightarrow> Inl err_json)"

end
