(* ===== verification/Agent.thy ===== *)
theory Agent
  imports Envelope Unique_Map Json Registry
begin

text \<open>
  The agent plane (\<open>internal/agent\<close>): contexts, the tool registry, agents, the executor
  with its retries, and the runtime. Values of type \<open>any\<close> are JSON values. The agent function
  is arbitrary: at each attempt it may change the agent it is given and returns a value or an
  error.
\<close>

section \<open>Agent contexts\<close>

record agent_context =
  cx_session :: string
  cx_actor :: identity
  cx_tenant :: tenant
  cx_memory :: "string \<rightharpoonup> json"
  cx_vars :: "string \<rightharpoonup> string"

definition new_context :: "string \<Rightarrow> identity \<Rightarrow> tenant \<Rightarrow> agent_context" where
  "new_context uuid a t =
     \<lparr>cx_session = uuid, cx_actor = a, cx_tenant = t, cx_memory = Map.empty, cx_vars = Map.empty\<rparr>"

definition ctx_set :: "string \<Rightarrow> json \<Rightarrow> agent_context \<Rightarrow> agent_context" where
  "ctx_set k v c = c\<lparr>cx_memory := (cx_memory c)(k \<mapsto> v)\<rparr>"

definition ctx_get :: "string \<Rightarrow> agent_context \<Rightarrow> json option" where
  "ctx_get k c = cx_memory c k"

definition ctx_set_var :: "string \<Rightarrow> string \<Rightarrow> agent_context \<Rightarrow> agent_context" where
  "ctx_set_var k v c = c\<lparr>cx_vars := (cx_vars c)(k \<mapsto> v)\<rparr>"

definition ctx_get_var :: "string \<Rightarrow> agent_context \<Rightarrow> string option" where
  "ctx_get_var k c = cx_vars c k"

section \<open>Tools\<close>

record 'w tool =
  tl_name :: string
  tl_execute :: "raw \<Rightarrow> 'w \<Rightarrow> raw result \<times> 'w"

type_synonym 'w tool_registry = "string \<rightharpoonup> 'w tool"

definition new_tool_registry :: "'w tool_registry" where
  "new_tool_registry = Map.empty"

definition tool_register :: "'w tool \<Rightarrow> 'w tool_registry \<Rightarrow> 'w tool_registry result" where
  "tool_register t r =
     (case r (tl_name t) of
        Some _ \<Rightarrow> Inl (Errf ''tool %q already registered'' [FStr (tl_name t)])
      | None \<Rightarrow> Inr (r(tl_name t \<mapsto> t)))"

definition tool_get :: "string \<Rightarrow> 'w tool_registry \<Rightarrow> 'w tool result" where
  "tool_get n r =
     (case r n of None \<Rightarrow> Inl (Errf ''tool %q not found'' [FStr n]) | Some t \<Rightarrow> Inr t)"

definition tool_list :: "string list \<Rightarrow> 'w tool_registry \<Rightarrow> string list" where
  "tool_list ns r = ns"

interpretation tools: unique_map "\<lambda>_. tool_register" "\<lambda>r. r" "\<lambda>_ n t. n = tl_name t"
  by unfold_locales (auto simp: tool_register_def)

section \<open>Agents\<close>

datatype agent_state = StateCreated | StateRunning | StateDone | StateFailed | StateTimedOut

record 'w agent =
  ag_id :: string
  ag_name :: string
  ag_state :: agent_state
  ag_context :: "agent_context option"
  ag_tools :: "'w tool list"
  ag_result :: "json option"
  ag_error :: "go_error option"
  ag_created :: time
  ag_finished :: time

datatype 'w agent_option = WithTools "'w tool list" | WithContext agent_context

fun apply_agent_option :: "'w agent_option \<Rightarrow> 'w agent \<Rightarrow> 'w agent" where
  "apply_agent_option (WithTools ts) a = a\<lparr>ag_tools := ag_tools a @ ts\<rparr>"
| "apply_agent_option (WithContext c) a = a\<lparr>ag_context := Some c\<rparr>"

definition new_agent :: "string \<Rightarrow> time \<Rightarrow> string \<Rightarrow> 'w agent_option list \<Rightarrow> 'w agent" where
  "new_agent uuid now name opts =
     fold apply_agent_option opts
       \<lparr>ag_id = uuid, ag_name = name, ag_state = StateCreated, ag_context = None, ag_tools = [],
        ag_result = None, ag_error = None, ag_created = now, ag_finished = zero_time\<rparr>"

section \<open>The executor\<close>

record executor =
  ex_retries :: gint
  ex_timeout :: gint

datatype executor_option = WithMaxRetries gint | WithTimeout gint

fun apply_executor_option :: "executor_option \<Rightarrow> executor \<Rightarrow> executor" where
  "apply_executor_option (WithMaxRetries n) e = e\<lparr>ex_retries := n\<rparr>"
| "apply_executor_option (WithTimeout d) e = e\<lparr>ex_timeout := d\<rparr>"

definition new_executor :: "executor_option list \<Rightarrow> executor" where
  "new_executor opts = fold apply_executor_option opts \<lparr>ex_retries = 0, ex_timeout = 60 * second\<rparr>"

text \<open>
  What happens around one attempt: whether the wait before it was cut short by the caller's
  context (and with which error), the agent function, what the attempt's own context reports
  once the function has returned, and the clock.
\<close>

record 'w attempt_env =
  at_cancelled :: "go_error option"
  at_func :: "'w agent \<Rightarrow> 'w agent \<times> (go_error + json)"
  at_ctx_err :: "go_error option"
  at_clock :: time

text \<open>\<open>100 * time.Millisecond * time.Duration(1<<(attempt-1))\<close>, the shift in 64 bits too.\<close>

definition exec_backoff :: "nat \<Rightarrow> gint" where
  "exec_backoff attempt = 100 * millisecond * push_bit (attempt - 1) 1"

text \<open>
  The loop from one attempt on; \<open>lasterr\<close> is \<open>lastErr\<close>. The result is the error returned, \<open>None\<close>
  for nil. \<open>attempt\<close> does not overflow before the last retry.
\<close>

function exec_loop :: "(nat \<Rightarrow> 'w attempt_env) \<Rightarrow> time \<Rightarrow> gint \<Rightarrow> nat \<Rightarrow> go_error option \<Rightarrow>
    'w agent \<Rightarrow> go_error option \<times> 'w agent" where
  "exec_loop env fin retries attempt lasterr a =
     (if int attempt \<le> sint retries then
        (case (if 0 < attempt then at_cancelled (env attempt) else None) of
           Some err \<Rightarrow>
             (Some err, a\<lparr>ag_state := StateTimedOut, ag_finished := at_clock (env attempt)\<rparr>)
         | None \<Rightarrow>
             (case at_func (env attempt) (a\<lparr>ag_state := StateRunning\<rparr>) of
                (a', Inr v) \<Rightarrow>
                  (None, a'\<lparr>ag_state := StateDone, ag_result := Some v,
                            ag_finished := at_clock (env attempt)\<rparr>)
              | (a', Inl err) \<Rightarrow>
                  if at_ctx_err (env attempt) = Some CtxDeadline
                  then (Some CtxDeadline,
                        a'\<lparr>ag_state := StateTimedOut, ag_finished := at_clock (env attempt)\<rparr>)
                  else exec_loop env fin retries (Suc attempt) (Some err) a'))
      else (lasterr, a\<lparr>ag_state := StateFailed, ag_error := lasterr, ag_finished := fin\<rparr>))"
  by pat_completeness auto
termination
  by (relation "measure (\<lambda>(_, _, retries, attempt, _, _). nat (sint retries + 1 - int attempt))") auto

declare exec_loop.simps [simp del]

definition execute :: "executor \<Rightarrow> (nat \<Rightarrow> 'w attempt_env) \<Rightarrow> time \<Rightarrow> 'w agent \<Rightarrow>
    go_error option \<times> 'w agent" where
  "execute e env fin a = exec_loop env fin (ex_retries e) 0 None a"

section \<open>The runtime\<close>

text \<open>
  \<open>rt_cancels\<close> holds the IDs in \<open>cancelFns\<close>; \<open>rt_contexts\<close> those whose child context has
  been created and not cancelled, which the parent context keeps until it is.
\<close>

record 'w runtime =
  rt_tools :: "'w tool_registry"
  rt_executor :: executor
  rt_agents :: "string \<rightharpoonup> 'w agent"
  rt_cancels :: "string set"
  rt_contexts :: "string set"

definition new_runtime :: "'w runtime" where
  "new_runtime = \<lparr>rt_tools = new_tool_registry, rt_executor = new_executor [],
     rt_agents = Map.empty, rt_cancels = {}, rt_contexts = {}\<rparr>"

definition runtime_stop :: "'w runtime \<Rightarrow> 'w runtime" where
  "runtime_stop r = r\<lparr>rt_contexts := rt_contexts r - rt_cancels r, rt_cancels := {}\<rparr>"

definition spawn_begin :: "'w agent \<Rightarrow> 'w runtime \<Rightarrow> 'w runtime" where
  "spawn_begin a r =
     r\<lparr>rt_agents := (rt_agents r)(ag_id a \<mapsto> a), rt_cancels := insert (ag_id a) (rt_cancels r),
       rt_contexts := insert (ag_id a) (rt_contexts r)\<rparr>"

text \<open>The agent is filed by pointer; its ID is read again after the run.\<close>

definition spawn_end :: "string \<Rightarrow> 'w agent \<Rightarrow> 'w runtime \<Rightarrow> 'w runtime" where
  "spawn_end i a r = r\<lparr>rt_agents := (rt_agents r)(i \<mapsto> a), rt_cancels := rt_cancels r - {ag_id a}\<rparr>"

definition spawn :: "string \<Rightarrow> time \<Rightarrow> string \<Rightarrow> 'w agent_option list \<Rightarrow> (nat \<Rightarrow> 'w attempt_env) \<Rightarrow>
    time \<Rightarrow> 'w runtime \<Rightarrow> ('w agent \<times> go_error option) \<times> 'w runtime" where
  "spawn uuid now name opts env fin r =
     (let a = new_agent uuid now name opts;
          r1 = spawn_begin a r;
          (err, a') = execute (rt_executor r1) env fin a;
          r2 = spawn_end uuid a' r1
      in ((a', map_option (Wrapf ''agent %q execution failed: %w'' [FStr name]) err), r2))"

definition get_agent :: "string \<Rightarrow> 'w runtime \<Rightarrow> 'w agent result" where
  "get_agent i r =
     (case rt_agents r i of None \<Rightarrow> Inl (Errf ''agent %q not found'' [FStr i]) | Some a \<Rightarrow> Inr a)"

definition list_agents :: "string list \<Rightarrow> 'w runtime \<Rightarrow> 'w agent list" where
  "list_agents is r = map (\<lambda>i. the (rt_agents r i)) is"

definition list_tools :: "string list \<Rightarrow> 'w runtime \<Rightarrow> string list" where
  "list_tools ns r = tool_list ns (rt_tools r)"

definition register_tool :: "'w tool \<Rightarrow> 'w runtime \<Rightarrow> 'w runtime result" where
  "register_tool t r =
     (case tool_register t (rt_tools r) of
        Inl e \<Rightarrow> Inl e | Inr ts \<Rightarrow> Inr (r\<lparr>rt_tools := ts\<rparr>))"

interpretation rt_tools: unique_map "\<lambda>_. register_tool" rt_tools "\<lambda>_ n t. n = tl_name t"
  by unfold_locales (auto simp: register_tool_def tool_register_def split: option.splits)

definition runtime_health :: health_report where
  "runtime_health = \<lparr>hr_head = ''agent'', hr_status = Healthy, hr_detail = []\<rparr>"

section \<open>Lemmas on the executor\<close>

text \<open>An attempt that leads to the next one, with the agent it leaves.\<close>

definition retried :: "(nat \<Rightarrow> 'w attempt_env) \<Rightarrow> nat \<Rightarrow> 'w agent \<Rightarrow> 'w agent \<Rightarrow> go_error \<Rightarrow> bool" where
  "retried env k a a' err \<longleftrightarrow>
     (k = 0 \<or> at_cancelled (env k) = None) \<and>
     at_func (env k) (a\<lparr>ag_state := StateRunning\<rparr>) = (a', Inl err) \<and>
     at_ctx_err (env k) \<noteq> Some CtxDeadline"

lemma exec_loop_retried:
  "int k \<le> sint n \<Longrightarrow> retried env k a a' err \<Longrightarrow>
     exec_loop env fin n k lasterr a = exec_loop env fin n (Suc k) (Some err) a'"
  by (subst exec_loop.simps) (auto simp: retried_def)

lemma exec_loop_cases:
  assumes "int k \<le> sint n"
  obtains (cancel) err where "0 < k" "at_cancelled (env k) = Some err"
      "exec_loop env fin n k lasterr a =
         (Some err, a\<lparr>ag_state := StateTimedOut, ag_finished := at_clock (env k)\<rparr>)"
    | (success) a' v where "at_func (env k) (a\<lparr>ag_state := StateRunning\<rparr>) = (a', Inr v)"
      "exec_loop env fin n k lasterr a =
         (None, a'\<lparr>ag_state := StateDone, ag_result := Some v, ag_finished := at_clock (env k)\<rparr>)"
    | (timeout) a' err where "at_func (env k) (a\<lparr>ag_state := StateRunning\<rparr>) = (a', Inl err)"
      "exec_loop env fin n k lasterr a =
         (Some CtxDeadline, a'\<lparr>ag_state := StateTimedOut, ag_finished := at_clock (env k)\<rparr>)"
    | (retry) a' err where "retried env k a a' err"
      "exec_loop env fin n k lasterr a = exec_loop env fin n (Suc k) (Some err) a'"
proof (cases "if 0 < k then at_cancelled (env k) else None")
  case (Some err)
  with assms show ?thesis
    by (intro cancel [of err]) (auto simp: exec_loop.simps [of env fin n k] split: if_splits)
next
  case None
  obtain a' res where f: "at_func (env k) (a\<lparr>ag_state := StateRunning\<rparr>) = (a', res)" by force
  show ?thesis
  proof (cases res)
    case (Inr v)
    with f None assms show ?thesis
      by (intro success [of a' v]) (auto simp: exec_loop.simps [of env fin n k])
  next
    case (Inl err)
    show ?thesis
    proof (cases "at_ctx_err (env k) = Some CtxDeadline")
      case True
      with f Inl None assms show ?thesis
        by (intro timeout [of a' err]) (auto simp: exec_loop.simps [of env fin n k])
    next
      case False
      have "retried env k a a' err" using f Inl None False by (auto simp: retried_def split: if_splits)
      from retry [OF this exec_loop_retried [OF assms this]] show ?thesis .
    qed
  qed
qed

definition finished_state :: "go_error option \<Rightarrow> 'w agent \<Rightarrow> bool" where
  "finished_state err a \<longleftrightarrow>
     (case err of
        None \<Rightarrow> ag_state a = StateDone \<and> ag_result a \<noteq> None
      | Some e \<Rightarrow> ag_state a = StateTimedOut \<or> ag_state a = StateFailed \<and> ag_error a = Some e)"

lemma exec_loop_finished:
  "int k \<le> sint n \<or> lasterr \<noteq> None \<Longrightarrow> exec_loop env fin n k lasterr a = (err, a') \<Longrightarrow> finished_state err a'"
proof (induction env fin n k lasterr a arbitrary: err a' rule: exec_loop.induct)
  case (1 env fin n k lasterr a)
  show ?case
  proof (cases "int k \<le> sint n")
    case False
    with 1(2,3) show ?thesis
      by (auto simp: exec_loop.simps [of env fin n k lasterr a] finished_state_def)
  next
    case True
    then show ?thesis
    proof (cases rule: exec_loop_cases [of k n env fin lasterr a])
      case (retry a1 e)
      then have "(if 0 < k then at_cancelled (env k) else None) = None"
        "(a1, Inl e) = at_func (env k) (a\<lparr>ag_state := StateRunning\<rparr>)"
        "at_ctx_err (env k) \<noteq> Some CtxDeadline" by (auto simp: retried_def)
      from 1(1) [OF True this(1,2) refl this(3)] 1(3) retry(2) show ?thesis by simp
    qed (use 1(3) in \<open>auto simp: finished_state_def\<close>)
  qed
qed

lemma exec_loop_id:
  assumes "\<And>k b. ag_id (fst (at_func (env k) b)) = ag_id b"
  shows "ag_id (snd (exec_loop env fin n k lasterr a)) = ag_id a"
  using assms
proof (induction env fin n k lasterr a rule: exec_loop.induct)
  case (1 env fin n k lasterr a)
  have id: "at_func (env k) b = (b', res) \<Longrightarrow> ag_id b' = ag_id b" for b b' res
    using 1(2) [of k b] by simp
  show ?case
  proof (cases "int k \<le> sint n")
    case False
    then show ?thesis by (subst exec_loop.simps) simp
  next
    case True
    then show ?thesis
    proof (cases rule: exec_loop_cases [of k n env fin lasterr a])
      case (retry a1 e)
      then have "(if 0 < k then at_cancelled (env k) else None) = None"
        "(a1, Inl e) = at_func (env k) (a\<lparr>ag_state := StateRunning\<rparr>)"
        "at_ctx_err (env k) \<noteq> Some CtxDeadline" by (auto simp: retried_def)
      from 1(1) [OF True this(1,2) refl this(3) 1(2)] id [OF this(2) [symmetric]] retry(2)
      show ?thesis by simp
    qed (use id in fastforce)+
  qed
qed

text \<open>The agents the failing attempts leave behind.\<close>

fun failing :: "(nat \<Rightarrow> 'w attempt_env) \<Rightarrow> nat \<Rightarrow> 'w agent \<Rightarrow> 'w agent" where
  "failing env 0 a = a"
| "failing env (Suc k) a = fst (at_func (env k) ((failing env k a)\<lparr>ag_state := StateRunning\<rparr>))"

lemma exec_loop_prefix:
  assumes "int k \<le> sint n + 1"
    and "\<And>j. j < k \<Longrightarrow> retried env j (failing env j a) (failing env (Suc j) a) (err j)"
  shows "exec_loop env fin n 0 None a =
    exec_loop env fin n k (if k = 0 then None else Some (err (k - 1))) (failing env k a)"
  using assms
proof (induction k)
  case (Suc k)
  have "exec_loop env fin n 0 None a =
      exec_loop env fin n k (if k = 0 then None else Some (err (k - 1))) (failing env k a)"
    using Suc by simp
  also have "\<dots> = exec_loop env fin n (Suc k) (Some (err k)) (failing env (Suc k) a)"
    using Suc.prems by (intro exec_loop_retried) auto
  finally show ?case by simp
qed simp

section \<open>Properties\<close>

text \<open>
  C34. With a nonnegative retry limit \<open>Execute\<close> always ends with the agent in a final state
  that agrees with what it returns: nil exactly when the agent is done and has a result;
  otherwise it timed out, or it failed and keeps the returned error.
\<close>

theorem execute_final_state:
  assumes "0 \<le> sint (ex_retries e)" "execute e env fin a = (err, a')"
  shows "(err = None \<longleftrightarrow> ag_state a' = StateDone) \<and>
    (err = None \<longrightarrow> ag_result a' \<noteq> None) \<and>
    (\<forall>x. err = Some x \<longrightarrow> ag_state a' = StateTimedOut \<or>
       ag_state a' = StateFailed \<and> ag_error a' = Some x)"
  using exec_loop_finished [of 0 "ex_retries e" None env fin a err a'] assms
  by (cases err) (auto simp: execute_def finished_state_def)

definition never_env :: "nat \<Rightarrow> unit attempt_env" where
  "never_env k = \<lparr>at_cancelled = None, at_func = \<lambda>a. (a, Inl (Errf ''no'' [])),
     at_ctx_err = Some CtxCanceled, at_clock = int k\<rparr>"

definition some_agent :: "unit agent" where
  "some_agent = new_agent ''id'' 1 ''worker'' []"

theorem execute_final_state_witness:
  "ag_state (snd (execute (new_executor [WithMaxRetries 2]) never_env 9 some_agent)) \<in>
     {StateDone, StateTimedOut, StateFailed}"
proof -
  obtain err a' where run: "execute (new_executor [WithMaxRetries 2]) never_env 9 some_agent = (err, a')"
    by force
  have "0 \<le> sint (ex_retries (new_executor [WithMaxRetries 2]))" by (simp add: new_executor_def)
  from execute_final_state [OF this run] run show ?thesis by (cases err) auto
qed

text \<open>
  If the first \<open>k\<close> attempts fail for other reasons than the deadline, nothing cancels
  the waits between them and attempt \<open>k\<close>, within the limit, succeeds, then \<open>Execute\<close> makes
  exactly those attempts and the agent is done with that result.
\<close>

theorem execute_first_success:
  assumes "int k \<le> sint (ex_retries e)"
    and "\<And>j. j < k \<Longrightarrow> retried env j (failing env j a) (failing env (Suc j) a) (err j)"
    and "k = 0 \<or> at_cancelled (env k) = None"
    and "at_func (env k) ((failing env k a)\<lparr>ag_state := StateRunning\<rparr>) = (a', Inr v)"
  shows "execute e env fin a =
    (None, a'\<lparr>ag_state := StateDone, ag_result := Some v, ag_finished := at_clock (env k)\<rparr>)"
proof -
  have "execute e env fin a = exec_loop env fin (ex_retries e) k
      (if k = 0 then None else Some (err (k - 1))) (failing env k a)"
    unfolding execute_def by (rule exec_loop_prefix) (use assms in auto)
  also have "\<dots> =
      (None, a'\<lparr>ag_state := StateDone, ag_result := Some v, ag_finished := at_clock (env k)\<rparr>)"
    using assms(1,3,4) by (subst exec_loop.simps) auto
  finally show ?thesis .
qed

definition third_time_env :: "nat \<Rightarrow> unit attempt_env" where
  "third_time_env k = (never_env k)\<lparr>at_func := \<lambda>a.
     (a, if k < 2 then Inl (Errf ''no'' []) else Inr (JBool True))\<rparr>"

theorem execute_first_success_witness:
  "execute (new_executor [WithMaxRetries 2]) third_time_env 9 some_agent =
     (None, some_agent\<lparr>ag_state := StateDone, ag_result := Some (JBool True), ag_finished := 2\<rparr>)"
proof -
  have "failing third_time_env j some_agent =
      (if j = 0 then some_agent else some_agent\<lparr>ag_state := StateRunning\<rparr>)" for j
    by (induction j) (simp_all add: third_time_env_def)
  then have f: "\<And>j. j < 2 \<Longrightarrow> retried third_time_env j (failing third_time_env j some_agent)
      (failing third_time_env (Suc j) some_agent) (Errf ''no'' [])"
    "failing third_time_env 2 some_agent = some_agent\<lparr>ag_state := StateRunning\<rparr>"
    by (simp_all add: retried_def third_time_env_def never_env_def)
  have n: "int 2 \<le> sint (ex_retries (new_executor [WithMaxRetries 2]))" by (simp add: new_executor_def)
  have c: "at_func (third_time_env 2) ((failing third_time_env 2 some_agent)\<lparr>ag_state := StateRunning\<rparr>) =
      (some_agent\<lparr>ag_state := StateRunning\<rparr>, Inr (JBool True))"
    by (simp add: f third_time_env_def)
  have d: "at_cancelled (third_time_env 2) = None" by (simp add: third_time_env_def never_env_def)
  have clock: "at_clock (third_time_env 2) = 2" by (simp add: third_time_env_def never_env_def)
  show ?thesis
    using execute_first_success [where err = "\<lambda>_. Errf ''no'' []" and fin = 9, OF n f(1) disjI2 [OF d] c]
    by (simp add: clock)
qed

text \<open>
  When every permitted attempt fails, the agent fails with the error of the last one; with
  a negative limit there is no attempt at all, and the agent is marked failed although nil is
  returned.
\<close>

theorem execute_exhausted:
  assumes "n = nat (sint (ex_retries e) + 1)"
    and "\<And>j. j < n \<Longrightarrow> retried env j (failing env j a) (failing env (Suc j) a) (err j)"
  shows "execute e env fin a =
    (if n = 0 then None else Some (err (n - 1)),
     (failing env n a)\<lparr>ag_state := StateFailed,
        ag_error := if n = 0 then None else Some (err (n - 1)), ag_finished := fin\<rparr>)"
proof -
  have "execute e env fin a = exec_loop env fin (ex_retries e) n
      (if n = 0 then None else Some (err (n - 1))) (failing env n a)"
  proof (cases "n = 0")
    case True
    then show ?thesis by (simp add: execute_def)
  next
    case False
    with assms show ?thesis unfolding execute_def by (intro exec_loop_prefix) auto
  qed
  also have "\<not> int n \<le> sint (ex_retries e)" using assms(1) by linarith
  then have "exec_loop env fin (ex_retries e) n (if n = 0 then None else Some (err (n - 1)))
      (failing env n a) = (if n = 0 then None else Some (err (n - 1)),
     (failing env n a)\<lparr>ag_state := StateFailed,
        ag_error := if n = 0 then None else Some (err (n - 1)), ag_finished := fin\<rparr>)"
    by (subst exec_loop.simps) simp
  finally show ?thesis .
qed

theorem execute_exhausted_witness:
  "execute (new_executor [WithMaxRetries 1]) never_env 9 some_agent =
     (Some (Errf ''no'' []), some_agent\<lparr>ag_state := StateFailed, ag_error := Some (Errf ''no'' []),
        ag_finished := 9\<rparr>) \<and>
   execute (new_executor [WithMaxRetries (- 1)]) never_env 9 some_agent =
     (None, some_agent\<lparr>ag_state := StateFailed, ag_error := None, ag_finished := 9\<rparr>)"
proof -
  have f: "failing never_env j some_agent =
      (if j = 0 then some_agent else some_agent\<lparr>ag_state := StateRunning\<rparr>)" for j
    by (induction j) (simp_all add: never_env_def)
  have r: "retried never_env j (failing never_env j some_agent) (failing never_env (Suc j) some_agent)
      (Errf ''no'' [])" for j
    unfolding f by (simp add: retried_def never_env_def)
  have n: "2 = nat (sint (ex_retries (new_executor [WithMaxRetries 1])) + 1)"
    "0 = nat (sint (ex_retries (new_executor [WithMaxRetries (- 1)])) + 1)"
    by (simp_all add: new_executor_def)
  show ?thesis
    using execute_exhausted [where fin = 9, OF n(1) r] execute_exhausted [where fin = 9, OF n(2) r]
    by (simp add: f)
qed

text \<open>
  The delay before attempt \<open>k\<close> doubles exactly up to attempt 37; at attempt 38 the 64-bit
  product wraps to a negative delay, and from attempt 57 on it is zero: no wait at all.
\<close>

theorem exec_backoff_doubles:
  assumes "1 \<le> k"
  shows "(k \<le> 37 \<longrightarrow> sint (exec_backoff k) = 100000000 * 2 ^ (k - 1)) \<and>
    sint (exec_backoff 38) < 0 \<and> (57 \<le> k \<longrightarrow> exec_backoff k = 0)"
proof -
  have eq: "exec_backoff k = word_of_int (100000000 * 2 ^ (k - 1))" for k
    by (simp add: exec_backoff_def millisecond_def push_bit_eq_mult)
  have "sint (exec_backoff k) = 100000000 * 2 ^ (k - 1)" if "k \<le> 37"
  proof -
    have "(2 :: int) ^ (k - 1) \<le> 2 ^ 36" using that by (intro power_increasing) auto
    then show ?thesis unfolding eq by (intro sint_gint_scaled [of _ "2 ^ 36"]) auto
  qed
  moreover have "sint (exec_backoff 38) < 0" by (simp add: exec_backoff_def millisecond_def)
  moreover have "exec_backoff k = 0" if "57 \<le> k"
  proof -
    have "k - 1 = 56 + (k - 57)" using that by simp
    then obtain m where "k - 1 = 56 + m" by blast
    then have "exec_backoff k = word_of_int (390625 * 2 ^ m) * word_of_int (2 ^ 64)"
      unfolding eq wi_hom_mult by (simp add: power_add)
    also have "word_of_int (2 ^ 64) = (0 :: gint)" by simp
    finally show ?thesis by simp
  qed
  ultimately show ?thesis by blast
qed

theorem exec_backoff_doubles_witness: "sint (exec_backoff 3) = 400000000"
  using exec_backoff_doubles [of 3] by simp

text \<open>
  \<open>Spawn\<close> files the agent, in its final state, under its ID for good and withdraws its
  cancel function without calling it: the child context it created stays open, and no later
  \<open>Stop\<close> of the runtime closes it.
\<close>

theorem spawn_leaks_context:
  assumes "spawn uuid now name opts env fin r = ((a, err), r')"
    and "\<And>k b. ag_id (fst (at_func (env k) b)) = ag_id b"
  shows "get_agent uuid r' = Inr a \<and> uuid \<notin> rt_cancels r' \<and>
    uuid \<in> rt_contexts r' \<and> uuid \<in> rt_contexts (runtime_stop r') \<and>
    (\<forall>i. i \<noteq> uuid \<longrightarrow> get_agent i r' = get_agent i r \<and> (i \<in> rt_cancels r' \<longleftrightarrow> i \<in> rt_cancels r))"
proof -
  have "ag_id (apply_agent_option opt b) = ag_id b" for opt and b :: "'a agent"
    by (cases opt) simp_all
  then have "ag_id (fold apply_agent_option opts b) = ag_id b" for b :: "'a agent"
    by (induction opts arbitrary: b) simp_all
  then have new: "ag_id (new_agent uuid now name opts :: 'a agent) = uuid" by (simp add: new_agent_def)
  let ?a = "new_agent uuid now name opts :: 'a agent"
  let ?r1 = "spawn_begin ?a r"
  obtain err0 a0 where run: "execute (rt_executor ?r1) env fin ?a = (err0, a0)" by force
  have "ag_id (snd (execute (rt_executor ?r1) env fin ?a)) = ag_id ?a"
    unfolding execute_def by (rule exec_loop_id) (rule assms(2))
  then have id: "ag_id a0 = uuid" using run new by simp
  have eq: "a = a0" "r' = spawn_end uuid a0 ?r1"
    using assms(1) run by (auto simp: spawn_def Let_def)
  show ?thesis
    by (auto simp: eq spawn_end_def spawn_begin_def id new get_agent_def runtime_stop_def)
qed

theorem spawn_leaks_context_witness:
  "''u1'' \<in> rt_contexts (runtime_stop (snd (spawn ''u1'' 1 ''echo-agent'' [] never_env 2 new_runtime)))"
proof -
  obtain a err r' where run: "spawn ''u1'' 1 ''echo-agent'' [] never_env 2 new_runtime = ((a, err), r')"
    by (metis surj_pair)
  have "\<And>k b. ag_id (fst (at_func (never_env k) b)) = ag_id b" by (simp add: never_env_def)
  from spawn_leaks_context [OF run this] run show ?thesis by simp
qed

end
