(* ===== verification/Policy.thy ===== *)
theory Policy
  imports Envelope Unique_Map
begin

text \<open>
  The policy engine (\<open>internal/policy/engine.go\<close>): roles and permissions, budgets, tool
  allow-lists and the audit trail. Budgets are 64-bit signed integers.
\<close>

section \<open>State and operations\<close>

type_synonym permission = string

abbreviation (input) perm_create_agent :: permission where "perm_create_agent \<equiv> ''agent:create''"
abbreviation (input) perm_execute_task :: permission where "perm_execute_task \<equiv> ''task:execute''"
abbreviation (input) perm_read_memory :: permission where "perm_read_memory \<equiv> ''memory:read''"
abbreviation (input) perm_write_memory :: permission where "perm_write_memory \<equiv> ''memory:write''"
abbreviation (input) perm_admin_all :: permission where "perm_admin_all \<equiv> ''admin:all''"

record role =
  role_name :: string
  role_perms :: "permission list"

record budget =
  bud_actor :: string
  bud_tenant :: string
  bud_remaining :: gint
  bud_max :: gint

record audit_entry =
  aud_id :: string
  aud_trace :: string
  aud_actor :: string
  aud_action :: string
  aud_allowed :: bool
  aud_reason :: string
  aud_time :: time

record audit_filter =
  flt_trace :: string
  flt_actor :: string
  flt_allowed :: "bool option"
  flt_since :: time
  flt_limit :: gint

record engine =
  eng_roles :: "string \<rightharpoonup> role"
  eng_budgets :: "string \<rightharpoonup> budget"
  eng_acl :: "string \<rightharpoonup> string list"
  eng_audit :: "audit_entry list"

definition new_engine :: engine where
  "new_engine = \<lparr>eng_roles = Map.empty, eng_budgets = Map.empty, eng_acl = Map.empty,
                 eng_audit = []\<rparr>"

definition default_roles :: "role list" where
  "default_roles =
     [\<lparr>role_name = ''admin'', role_perms = [perm_create_agent, perm_execute_task,
         perm_read_memory, perm_write_memory, perm_admin_all]\<rparr>,
      \<lparr>role_name = ''agent'', role_perms = [perm_create_agent, perm_execute_task,
         perm_read_memory, perm_write_memory]\<rparr>,
      \<lparr>role_name = ''human'', role_perms = [perm_execute_task, perm_read_memory]\<rparr>,
      \<lparr>role_name = ''readonly'', role_perms = [perm_read_memory]\<rparr>]"

definition engine_start :: "engine \<Rightarrow> engine" where
  "engine_start e =
     e\<lparr>eng_roles := fold (\<lambda>r roles. roles(role_name r \<mapsto> r)) default_roles (eng_roles e)\<rparr>"

definition register_role :: "role \<Rightarrow> engine \<Rightarrow> engine result" where
  "register_role r e =
     (if eng_roles e (role_name r) \<noteq> None
      then Inl (Errf ''role %q already registered'' [FStr (role_name r)])
      else Inr (e\<lparr>eng_roles := (eng_roles e)(role_name r \<mapsto> r)\<rparr>))"

text \<open>Both loops return at the first match; the error of \<open>CheckPermission\<close> is always nil.\<close>

fun check_roles :: "(string \<rightharpoonup> role) \<Rightarrow> string list \<Rightarrow> permission \<Rightarrow> bool" where
  "check_roles roles [] perm = False"
| "check_roles roles (n # ns) perm =
     (case roles n of
        None \<Rightarrow> check_roles roles ns perm
      | Some r \<Rightarrow> if perm \<in> set (role_perms r) then True else check_roles roles ns perm)"

definition check_permission :: "engine \<Rightarrow> identity \<Rightarrow> permission \<Rightarrow> bool result" where
  "check_permission e actor perm = Inr (check_roles (eng_roles e) (actor_roles actor) perm)"

definition check_budget :: "engine \<Rightarrow> string \<Rightarrow> bool result" where
  "check_budget e a =
     (case eng_budgets e a of None \<Rightarrow> Inr True | Some b \<Rightarrow> Inr (0 < sint (bud_remaining b)))"

definition consume_budget :: "string \<Rightarrow> gint \<Rightarrow> engine \<Rightarrow> engine result" where
  "consume_budget a amount e =
     (case eng_budgets e a of
        None \<Rightarrow> Inl (Errf ''no budget set for actor %q'' [FStr a])
      | Some b \<Rightarrow>
         if sint (bud_remaining b) < sint amount
         then Inl (Errf ''insufficient budget: have %d, need %d''
                    [FInt (sint (bud_remaining b)), FInt (sint amount)])
         else Inr (e\<lparr>eng_budgets := (eng_budgets e)
                       (a \<mapsto> b\<lparr>bud_remaining := bud_remaining b - amount\<rparr>)\<rparr>))"

definition set_budget :: "string \<Rightarrow> string \<Rightarrow> gint \<Rightarrow> engine \<Rightarrow> engine" where
  "set_budget a tn n e =
     e\<lparr>eng_budgets := (eng_budgets e)
         (a \<mapsto> \<lparr>bud_actor = a, bud_tenant = tn, bud_remaining = n, bud_max = n\<rparr>)\<rparr>"

definition check_tool_access :: "engine \<Rightarrow> string \<Rightarrow> string \<Rightarrow> bool result" where
  "check_tool_access e a tool =
     (case eng_acl e a of None \<Rightarrow> Inr True | Some ts \<Rightarrow> Inr (tool \<in> set ts))"

definition set_tool_allow_list :: "string \<Rightarrow> string list \<Rightarrow> engine \<Rightarrow> engine" where
  "set_tool_allow_list a ts e = e\<lparr>eng_acl := (eng_acl e)(a \<mapsto> ts)\<rparr>"

definition audit :: "time \<Rightarrow> string \<Rightarrow> string \<Rightarrow> string \<Rightarrow> bool \<Rightarrow> string \<Rightarrow> engine \<Rightarrow> engine" where
  "audit now trace a action allowed reason e =
     e\<lparr>eng_audit := eng_audit e @
         [\<lparr>aud_id = [], aud_trace = trace, aud_actor = a, aud_action = action,
           aud_allowed = allowed, aud_reason = reason, aud_time = now\<rparr>]\<rparr>"

text \<open>The conditions under which the loop of \<open>QueryAuditLog\<close> continues with the next entry.\<close>

definition audit_skip :: "audit_filter \<Rightarrow> audit_entry \<Rightarrow> bool" where
  "audit_skip f x \<longleftrightarrow>
     flt_trace f \<noteq> [] \<and> aud_trace x \<noteq> flt_trace f \<or>
     flt_actor f \<noteq> [] \<and> aud_actor x \<noteq> flt_actor f \<or>
     (case flt_allowed f of None \<Rightarrow> False | Some b \<Rightarrow> aud_allowed x \<noteq> b) \<or>
     flt_since f \<noteq> zero_time \<and> aud_time x < flt_since f"

fun query_loop :: "audit_filter \<Rightarrow> audit_entry list \<Rightarrow> audit_entry list \<Rightarrow> audit_entry list" where
  "query_loop f [] acc = acc"
| "query_loop f (x # xs) acc =
     (if audit_skip f x then query_loop f xs acc
      else let acc' = acc @ [x]
           in if 0 < sint (flt_limit f) \<and> sint (flt_limit f) \<le> int (length acc') then acc'
              else query_loop f xs acc')"

definition query_audit_log :: "audit_filter \<Rightarrow> engine \<Rightarrow> audit_entry list" where
  "query_audit_log f e = query_loop f (eng_audit e) []"

interpretation roles: unique_map "\<lambda>_. register_role" eng_roles "\<lambda>_ n r. n = role_name r"
  by unfold_locales (auto simp: register_role_def)

section \<open>Permissions\<close>

lemma check_roles_iff:
  "check_roles roles ns perm \<longleftrightarrow>
     (\<exists>n \<in> set ns. \<exists>r. roles n = Some r \<and> perm \<in> set (role_perms r))"
  by (induction ns) (auto split: option.splits)

lemma engine_start_roles:
  "eng_roles (engine_start e) =
     (\<lambda>n. if n \<in> role_name ` set default_roles
          then List.find (\<lambda>r. role_name r = n) default_roles else eng_roles e n)"
  by (auto simp: engine_start_def default_roles_def fun_eq_iff)

text \<open>The permissions a role name stands for once the engine has started.\<close>

definition granted :: "engine \<Rightarrow> string \<Rightarrow> permission set" where
  "granted e n = (case eng_roles e n of None \<Rightarrow> {} | Some r \<Rightarrow> set (role_perms r))"

lemma granted_start:
  "granted (engine_start e) n =
     (if n = ''admin'' then {perm_create_agent, perm_execute_task, perm_read_memory,
                             perm_write_memory, perm_admin_all}
      else if n = ''agent'' then {perm_create_agent, perm_execute_task, perm_read_memory,
                                  perm_write_memory}
      else if n = ''human'' then {perm_execute_task, perm_read_memory}
      else if n = ''readonly'' then {perm_read_memory}
      else granted e n)"
  by (simp add: granted_def engine_start_def default_roles_def)

text \<open>
  C32. On a started engine an actor is granted a permission exactly when one of its roles lists
  it: the default roles as shipped whatever was registered under their names before, any other
  role as registered. \<open>admin:all\<close> is an ordinary permission and implies no other one.
\<close>

theorem permission_decision:
  "check_permission (engine_start e) actor perm = Inr ok \<longleftrightarrow>
     (ok \<longleftrightarrow> (\<exists>n \<in> set (actor_roles actor).
        if n = ''admin'' then perm \<in> {perm_create_agent, perm_execute_task, perm_read_memory,
                                       perm_write_memory, perm_admin_all}
        else if n = ''agent'' then perm \<in> {perm_create_agent, perm_execute_task,
                                            perm_read_memory, perm_write_memory}
        else if n = ''human'' then perm \<in> {perm_execute_task, perm_read_memory}
        else if n = ''readonly'' then perm = perm_read_memory
        else \<exists>r. eng_roles e n = Some r \<and> perm \<in> set (role_perms r)))"
proof -
  have "check_permission e' actor perm = Inr ok \<longleftrightarrow>
      (ok \<longleftrightarrow> (\<exists>n \<in> set (actor_roles actor). perm \<in> granted e' n))" for e'
    by (auto simp: check_permission_def check_roles_iff granted_def split: option.splits)
  moreover have "perm \<in> granted e n \<longleftrightarrow> (\<exists>r. eng_roles e n = Some r \<and> perm \<in> set (role_perms r))"
    for n by (simp add: granted_def split: option.split)
  ultimately show ?thesis by (simp add: granted_start if_distrib if_bool_eq_conj cong: bex_cong)
qed

section \<open>Budgets\<close>

text \<open>What a client does to the budgets of an engine, in any interleaving of actors.\<close>

datatype spend = Spend string gint | Reset string string gint

fun spends :: "spend list \<Rightarrow> engine \<Rightarrow> (bool list \<times> engine)" where
  "spends [] e = ([], e)"
| "spends (Spend a n # ops) e =
     (case consume_budget a n e of
        Inl _ \<Rightarrow> apfst (Cons False) (spends ops e)
      | Inr e' \<Rightarrow> apfst (Cons True) (spends ops e'))"
| "spends (Reset a t n # ops) e = apfst (Cons True) (spends ops (set_budget a t n e))"

fun accepted :: "string \<Rightarrow> spend list \<Rightarrow> bool list \<Rightarrow> int" where
  "accepted a (Spend a' n # ops) (ok # oks) =
     (if a' = a \<and> ok then sint n else 0) + accepted a ops oks"
| "accepted a (_ # ops) (_ # oks) = accepted a ops oks"
| "accepted a _ _ = 0"

lemma consume_budget_Inr:
  assumes "consume_budget a n e = Inr e'" "0 \<le> sint n"
    and "eng_budgets e a = Some b" "0 \<le> sint (bud_remaining b)"
  shows "\<exists>b'. eng_budgets e' a = Some b' \<and>
    sint (bud_remaining b') = sint (bud_remaining b) - sint n \<and> sint n \<le> sint (bud_remaining b)"
proof -
  have le: "sint n \<le> sint (bud_remaining b)"
    using assms by (auto simp: consume_budget_def split: if_splits)
  moreover have "sint (bud_remaining b - n) = sint (bud_remaining b) - sint n"
    using le assms sint_lt [of "bud_remaining b"]
    by (subst sint_word_ariths) (simp add: signed_take_bit_int_eq_self)
  ultimately show ?thesis using assms by (auto simp: consume_budget_def split: if_splits)
qed

lemma consume_budget_other:
  "consume_budget a n e = Inr e' \<Longrightarrow> a' \<noteq> a \<Longrightarrow> eng_budgets e' a' = eng_budgets e a'"
  by (auto simp: consume_budget_def split: option.splits if_splits)

lemma accepted_Cons: "accepted a (op # ops) (ok # oks) = accepted a [op] [ok] + accepted a ops oks"
  by (cases op; cases ok) simp_all

lemma spend_step:
  assumes "eng_budgets e a = Some b" "0 \<le> sint (bud_remaining b)"
    and "\<And>n. op = Spend a n \<Longrightarrow> 0 \<le> sint n" "\<And>t n. op \<noteq> Reset a t n"
    and "spends (op # ops) e = (oks, e')"
  obtains ok oks1 e1 b1 where "oks = ok # oks1" "spends ops e1 = (oks1, e')" "eng_budgets e1 a = Some b1"
    "sint (bud_remaining b1) = sint (bud_remaining b) - accepted a [op] [ok]" "0 \<le> sint (bud_remaining b1)"
proof (cases op)
  case (Reset a1 t n)
  with assms(4) have "a1 \<noteq> a" by blast
  then show thesis using assms(1,2,5) Reset
    by (intro that [of True "fst (spends ops (set_budget a1 t n e))" "set_budget a1 t n e" b])
      (auto simp: set_budget_def apfst_def map_prod_def split: prod.splits)
next
  case (Spend a1 n)
  show thesis
  proof (cases "consume_budget a1 n e")
    case (Inl err)
    then show thesis using assms(1,2,5) Spend
      by (intro that [of False "fst (spends ops e)" e b]) (auto simp: apfst_def map_prod_def split: prod.splits)
  next
    case (Inr e1)
    have "\<exists>b1. eng_budgets e1 a = Some b1 \<and> 0 \<le> sint (bud_remaining b1) \<and>
        sint (bud_remaining b1) = sint (bud_remaining b) - accepted a [op] [True]"
      using consume_budget_Inr [of a n e e1 b] consume_budget_other [OF Inr, of a] Inr assms(1-3) Spend by (cases "a1 = a") auto
    then obtain b1 where "eng_budgets e1 a = Some b1" "0 \<le> sint (bud_remaining b1)"
      "sint (bud_remaining b1) = sint (bud_remaining b) - accepted a [op] [True]" by blast
    then show thesis using Inr assms(5) Spend
      by (intro that [of True "fst (spends ops e1)" e1 b1]) (auto simp: apfst_def map_prod_def split: prod.splits)
  qed
qed

text \<open>
  C31. An actor with a nonnegative budget whose \<open>ConsumeBudget\<close> calls are all for nonnegative
  amounts never overspends, whatever other actors do in between and as long as no \<open>SetBudget\<close> is
  called for it: what remains is the budget less the sum of its accepted spendings, it never
  goes below zero, and the subtraction never wraps around. (\<open>ConsumeBudget\<close> itself does not reject
  a negative amount.)
\<close>

theorem budget_never_overspent:
  assumes "eng_budgets e a = Some b" "0 \<le> sint (bud_remaining b)"
    and "\<And>n. Spend a n \<in> set ops \<Longrightarrow> 0 \<le> sint n" "\<And>t n. Reset a t n \<notin> set ops"
    and "spends ops e = (oks, e')"
  shows "\<exists>b'. eng_budgets e' a = Some b' \<and>
    sint (bud_remaining b') = sint (bud_remaining b) - accepted a ops oks \<and>
    0 \<le> sint (bud_remaining b') \<and> accepted a ops oks \<le> sint (bud_remaining b)"
  using assms
proof (induction ops arbitrary: e b oks)
  case (Cons op ops)
  have op: "\<And>n. op = Spend a n \<Longrightarrow> 0 \<le> sint n" "\<And>t n. op \<noteq> Reset a t n"
    using Cons.prems(3,4) by fastforce+
  obtain ok oks1 e1 b1 where step: "oks = ok # oks1" "spends ops e1 = (oks1, e')" "eng_budgets e1 a = Some b1"
    "sint (bud_remaining b1) = sint (bud_remaining b) - accepted a [op] [ok]" "0 \<le> sint (bud_remaining b1)"
    by (rule spend_step [OF Cons.prems(1,2) op Cons.prems(5)])
  have "\<And>n. Spend a n \<in> set ops \<Longrightarrow> 0 \<le> sint n" "\<And>t n. Reset a t n \<notin> set ops"
    using Cons.prems(3,4) by auto
  from Cons.IH [OF step(3,5) this step(2)] step(1,4) accepted_Cons [of a op ops ok oks1] show ?case by auto
qed simp

theorem budget_never_overspent_witness:
  "\<exists>b. eng_budgets (snd (spends [Spend ''a'' 3, Spend ''b'' 9, Spend ''a'' 8, Spend ''a'' 7]
      (set_budget ''a'' ''t'' 10 new_engine))) ''a'' = Some b \<and> sint (bud_remaining b) = 0"
proof -
  let ?ops = "[Spend ''a'' 3, Spend ''b'' 9, Spend ''a'' 8, Spend ''a'' (7 :: gint)]"
  let ?e = "set_budget ''a'' ''t'' 10 new_engine"
  let ?b = "\<lparr>bud_actor = ''a'', bud_tenant = ''t'', bud_remaining = 10, bud_max = 10\<rparr>"
  have b: "eng_budgets ?e ''a'' = Some ?b" by (simp add: set_budget_def)
  have ops: "\<And>n. Spend ''a'' n \<in> set ?ops \<Longrightarrow> 0 \<le> sint n" "\<And>t n. Reset ''a'' t n \<notin> set ?ops"
    by auto
  have oks: "fst (spends ?ops ?e) = [True, False, False, True]" by code_simp
  obtain e' where e': "spends ?ops ?e = ([True, False, False, True], e')"
    using oks by (metis prod.collapse)
  from budget_never_overspent [OF b _ ops e'] show ?thesis unfolding e' by auto
qed

text \<open>
  A negative amount is accepted and raises the budget, beyond the maximum it was created
  with: \<open>ConsumeBudget\<close> does not check the sign.
\<close>

theorem negative_spend_raises_budget:
  assumes "eng_budgets e a = Some b" "0 \<le> sint (bud_remaining b)"
    and "0 < k" "sint (bud_remaining b) + k < 2 ^ 63"
  shows "\<exists>e' b'. consume_budget a (- word_of_int k) e = Inr e' \<and> eng_budgets e' a = Some b' \<and>
    sint (bud_remaining b') = sint (bud_remaining b) + k \<and> bud_max b' = bud_max b"
proof -
  have k: "sint (- word_of_int k :: gint) = - k"
    using assms sint_gint [of "- k"] by simp
  have "sint (bud_remaining b - (- word_of_int k)) = sint (bud_remaining b) + k"
    using assms sint_gint [of "sint (bud_remaining b) + k"] by simp
  with k assms show ?thesis by (simp add: consume_budget_def)
qed

theorem negative_spend_raises_budget_witness:
  "\<exists>e' b'. consume_budget ''a'' (- 5) (set_budget ''a'' ''t'' 10 new_engine) = Inr e' \<and>
     eng_budgets e' ''a'' = Some b' \<and> sint (bud_remaining b') = 15 \<and> bud_max b' = 10"
  using negative_spend_raises_budget [of "set_budget ''a'' ''t'' 10 new_engine" "''a''"
      "\<lparr>bud_actor = ''a'', bud_tenant = ''t'', bud_remaining = 10, bud_max = 10\<rparr>" 5]
  by (simp add: set_budget_def)

section \<open>The audit trail\<close>

definition audit_limit :: "audit_filter \<Rightarrow> nat \<Rightarrow> nat" where
  "audit_limit f n = (if 0 < sint (flt_limit f) then nat (sint (flt_limit f)) else n)"

lemma query_loop_eq:
  assumes "0 < sint (flt_limit f) \<Longrightarrow> length acc < nat (sint (flt_limit f))"
  shows "query_loop f xs acc =
    acc @ (if 0 < sint (flt_limit f)
           then take (nat (sint (flt_limit f)) - length acc) else id) (filter (\<lambda>x. \<not> audit_skip f x) xs)"
  using assms
proof (induction xs arbitrary: acc)
  case (Cons x xs)
  show ?case
  proof (cases "audit_skip f x")
    case True
    with Cons show ?thesis by simp
  next
    case False
    show ?thesis
    proof (cases "0 < sint (flt_limit f) \<and> sint (flt_limit f) \<le> int (length (acc @ [x]))")
      case True
      with Cons.prems have "nat (sint (flt_limit f)) - length acc = 1" by auto
      with True False show ?thesis by simp
    next
      case more: False
      then have "0 < sint (flt_limit f) \<Longrightarrow>
          nat (sint (flt_limit f)) - length acc = Suc (nat (sint (flt_limit f)) - length (acc @ [x]))"
        by auto
      with Cons.IH [of "acc @ [x]"] more False show ?thesis by (auto simp: Let_def)
    qed
  qed
qed auto

lemma audit_append: "eng_audit (audit now t a act ok why e) = eng_audit e @
    [\<lparr>aud_id = [], aud_trace = t, aud_actor = a, aud_action = act, aud_allowed = ok,
      aud_reason = why, aud_time = now\<rparr>]"
  by (simp add: audit_def)

text \<open>
  C33. A query of the audit trail returns the matching entries in the order they were
  recorded, the first \<open>Limit\<close> of them when a positive limit is given. An entry matches when
  every criterion that is set agrees with it. An entry just recorded by \<open>Audit\<close> carries the
  arguments of the call and is the last one that a query for its trace and actor returns.
\<close>

theorem audit_query_spec:
  "query_audit_log f e =
     (let hits = filter (\<lambda>x. (flt_trace f = [] \<or> aud_trace x = flt_trace f) \<and>
            (flt_actor f = [] \<or> aud_actor x = flt_actor f) \<and>
            (flt_allowed f = None \<or> flt_allowed f = Some (aud_allowed x)) \<and>
            (flt_since f = zero_time \<or> flt_since f \<le> aud_time x)) (eng_audit e)
      in if 0 < sint (flt_limit f) then take (nat (sint (flt_limit f))) hits else hits) \<and>
   (\<exists>x. aud_trace x = t \<and> aud_actor x = a \<and> aud_action x = act \<and> aud_allowed x = ok \<and> aud_reason x = why \<and>
      aud_time x = now \<and>
      query_audit_log \<lparr>flt_trace = t, flt_actor = a, flt_allowed = None, flt_since = zero_time, flt_limit = 0\<rparr>
          (audit now t a act ok why e) =
        query_audit_log \<lparr>flt_trace = t, flt_actor = a, flt_allowed = None, flt_since = zero_time, flt_limit = 0\<rparr> e @ [x])"
proof -
  have keep: "(\<not> audit_skip f x) = ((flt_trace f = [] \<or> aud_trace x = flt_trace f) \<and>
            (flt_actor f = [] \<or> aud_actor x = flt_actor f) \<and>
            (flt_allowed f = None \<or> flt_allowed f = Some (aud_allowed x)) \<and>
            (flt_since f = zero_time \<or> flt_since f \<le> aud_time x))" for f x
    by (auto simp: audit_skip_def split: option.split)
  note query = query_loop_eq [of _ "[]", unfolded keep]
  have "query_audit_log f e =
     (let hits = filter (\<lambda>x. (flt_trace f = [] \<or> aud_trace x = flt_trace f) \<and>
            (flt_actor f = [] \<or> aud_actor x = flt_actor f) \<and>
            (flt_allowed f = None \<or> flt_allowed f = Some (aud_allowed x)) \<and>
            (flt_since f = zero_time \<or> flt_since f \<le> aud_time x)) (eng_audit e)
      in if 0 < sint (flt_limit f) then take (nat (sint (flt_limit f))) hits else hits)" for f e
    using query [of f "eng_audit e"] by (simp add: query_audit_log_def)
  then show ?thesis by (simp add: audit_append)
qed

end
