(* ===== verification/Memory.thy ===== *)
theory Memory
  imports Complex_Main Unique_Map
begin

text \<open>
  Memory records, the provider contract, the memory plane and the in-memory provider
  (\<open>internal/memory/types.go\<close>, \<open>provider.go\<close>, \<open>plane.go\<close>,
  \<open>internal/memory/inmemory/provider.go\<close>). Records are shared by pointer: the provider
  stores, and hands out, addresses in a heap of records. Confidence values are finite
  floating-point numbers that this code only compares, so they are rationals.
\<close>

section \<open>Records and queries\<close>

type_synonym mem_type = string

abbreviation (input) episodic :: mem_type where "episodic \<equiv> ''episodic''"
abbreviation (input) semantic :: mem_type where "semantic \<equiv> ''semantic''"
abbreviation (input) operational :: mem_type where "operational \<equiv> ''operational''"
abbreviation (input) working :: mem_type where "working \<equiv> ''working''"

record memory =
  mem_id :: string
  mem_type :: mem_type
  mem_content :: raw
  mem_tags :: "string list"
  mem_confidence :: rat
  mem_actor :: string
  mem_tenant :: string
  mem_meta :: "string \<rightharpoonup> string"
  mem_created :: time
  mem_accessed :: time
  mem_expires :: time

definition new_memory :: "string \<Rightarrow> time \<Rightarrow> mem_type \<Rightarrow> raw \<Rightarrow> string \<Rightarrow> string \<Rightarrow> memory" where
  "new_memory uuid now typ content actor ten =
     \<lparr>mem_id = uuid, mem_type = typ, mem_content = content, mem_tags = [],
      mem_confidence = 1, mem_actor = actor, mem_tenant = ten, mem_meta = Map.empty,
      mem_created = now, mem_accessed = now, mem_expires = zero_time\<rparr>"

record search_query =
  sq_type :: mem_type
  sq_tags :: "string list"
  sq_actor :: string
  sq_tenant :: string
  sq_limit :: gint
  sq_since :: time
  sq_min_confidence :: rat

section \<open>The Provider interface and the plane\<close>

text \<open>
  \<open>'s\<close> is the state behind the backend, the heap of records included. \<open>Read\<close> sees the
  clock, \<open>Search\<close> the order in which a map is ranged over.
\<close>

record 's provider =
  pv_write :: "ref \<Rightarrow> 's \<Rightarrow> unit result \<times> 's"
  pv_read :: "time \<Rightarrow> string \<Rightarrow> 's \<Rightarrow> ref result \<times> 's"
  pv_search :: "string list \<Rightarrow> search_query \<Rightarrow> 's \<Rightarrow> ref list result \<times> 's"
  pv_delete :: "string \<Rightarrow> 's \<Rightarrow> unit result \<times> 's"

definition plane_store :: "'s provider \<Rightarrow> ref \<Rightarrow> 's \<Rightarrow> unit result \<times> 's" where
  "plane_store pv r = pv_write pv r"

definition plane_recall :: "'s provider \<Rightarrow> time \<Rightarrow> string \<Rightarrow> 's \<Rightarrow> ref result \<times> 's" where
  "plane_recall pv now i = pv_read pv now i"

definition plane_search :: "'s provider \<Rightarrow> string list \<Rightarrow> search_query \<Rightarrow> 's \<Rightarrow>
    ref list result \<times> 's" where
  "plane_search pv ks q = pv_search pv ks q"

definition plane_forget :: "'s provider \<Rightarrow> string \<Rightarrow> 's \<Rightarrow> unit result \<times> 's" where
  "plane_forget pv i = pv_delete pv i"

section \<open>The in-memory provider\<close>

record mem_store =
  ms_heap :: "memory list"
  ms_index :: "string \<rightharpoonup> ref"

definition new_store :: "memory list \<Rightarrow> mem_store" where
  "new_store h = \<lparr>ms_heap = h, ms_index = Map.empty\<rparr>"

definition mem_write :: "ref \<Rightarrow> mem_store \<Rightarrow> mem_store result" where
  "mem_write r s =
     (case ms_index s (mem_id (ms_heap s ! r)) of
        Some _ \<Rightarrow> Inl (Errf ''memory %q already exists'' [FStr (mem_id (ms_heap s ! r))])
      | None \<Rightarrow> Inr (s\<lparr>ms_index := (ms_index s)(mem_id (ms_heap s ! r) \<mapsto> r)\<rparr>))"

definition mem_read :: "time \<Rightarrow> string \<Rightarrow> mem_store \<Rightarrow> ref result \<times> mem_store" where
  "mem_read now i s =
     (case ms_index s i of
        None \<Rightarrow> (Inl (Errf ''memory %q not found'' [FStr i]), s)
      | Some r \<Rightarrow>
         (Inr r, s\<lparr>ms_heap := (ms_heap s)[r := (ms_heap s ! r)\<lparr>mem_accessed := now\<rparr>]\<rparr>))"

definition mem_delete :: "string \<Rightarrow> mem_store \<Rightarrow> unit result \<times> mem_store" where
  "mem_delete i s =
     (case ms_index s i of
        None \<Rightarrow> (Inl (Errf ''memory %q not found'' [FStr i]), s)
      | Some _ \<Rightarrow> (Inr (), s\<lparr>ms_index := (ms_index s)(i := None)\<rparr>))"

text \<open>The tag set is a map to the empty struct; the loop stops at the first missing tag.\<close>

fun all_in_set :: "(string \<rightharpoonup> unit) \<Rightarrow> string list \<Rightarrow> bool" where
  "all_in_set m [] = True"
| "all_in_set m (t # ts) = (case m t of None \<Rightarrow> False | Some _ \<Rightarrow> all_in_set m ts)"

definition contains_all_tags :: "string list \<Rightarrow> string list \<Rightarrow> bool" where
  "contains_all_tags memory_tags query_tags =
     all_in_set (fold (\<lambda>t m. m(t \<mapsto> ())) memory_tags Map.empty) query_tags"

definition matches_query :: "memory \<Rightarrow> search_query \<Rightarrow> bool" where
  "matches_query m q =
     (if sq_type q \<noteq> [] \<and> mem_type m \<noteq> sq_type q then False
      else if 0 < length (sq_tags q) \<and> \<not> contains_all_tags (mem_tags m) (sq_tags q) then False
      else if sq_actor q \<noteq> [] \<and> mem_actor m \<noteq> sq_actor q then False
      else if sq_tenant q \<noteq> [] \<and> mem_tenant m \<noteq> sq_tenant q then False
      else if sq_since q \<noteq> zero_time \<and> mem_created m < sq_since q then False
      else if 0 < sq_min_confidence q \<and> mem_confidence m < sq_min_confidence q then False
      else True)"

text \<open>
  \<open>sort.Slice\<close> does not say how it orders records created at the same time. The sort here is
  stable on a slice that was filled in any order \<open>ks\<close> of the map, so every outcome of the
  code is one of the model for some \<open>ks\<close>.
\<close>

definition search_limit :: "search_query \<Rightarrow> int" where
  "search_limit q = (if sint (sq_limit q) \<le> 0 then 50 else sint (sq_limit q))"

definition mem_search :: "string list \<Rightarrow> search_query \<Rightarrow> mem_store \<Rightarrow> ref list result \<times> mem_store" where
  "mem_search ks q s =
     (let results = filter (\<lambda>r. matches_query (ms_heap s ! r) q) (map (\<lambda>k. the (ms_index s k)) ks);
          results = sort_key (\<lambda>r. - mem_created (ms_heap s ! r)) results;
          limit = search_limit q
      in (Inr (if limit < int (length results) then take (nat limit) results else results), s))"

definition inmemory :: "mem_store provider" where
  "inmemory = \<lparr>pv_write = \<lambda>r s. case mem_write r s of Inl e \<Rightarrow> (Inl e, s) | Inr s' \<Rightarrow> (Inr (), s'),
     pv_read = mem_read, pv_search = mem_search, pv_delete = mem_delete\<rparr>"

text \<open>
  The plane a caller holds: its provider, the heap its records live in, and whether a search
  without hits returns a nil slice. A slice of tags that is empty but not nil is not told
  from nil.
\<close>

record 's memory_plane =
  mp_provider :: "'s provider"
  mp_alloc :: "memory \<Rightarrow> 's \<Rightarrow> ref \<times> 's"
  mp_load :: "'s \<Rightarrow> ref \<Rightarrow> memory"
  mp_nil :: bool

definition inmemory_plane :: "mem_store memory_plane" where
  "inmemory_plane =
     \<lparr>mp_provider = inmemory,
      mp_alloc = \<lambda>m s. (length (ms_heap s), s\<lparr>ms_heap := ms_heap s @ [m]\<rparr>),
      mp_load = \<lambda>s r. ms_heap s ! r, mp_nil = True\<rparr>"

section \<open>The contract of a provider\<close>

text \<open>
  A provider that keeps what it is given is a registry of records by ID with two more
  operations: a record found by its ID, and a record removed.
\<close>

locale memory_provider = unique_map put look ok
  for put :: "string \<Rightarrow> ref \<Rightarrow> 's \<Rightarrow> 's result"
    and look :: "'s \<Rightarrow> string \<Rightarrow> ref option"
    and ok :: "'s \<Rightarrow> string \<Rightarrow> ref \<Rightarrow> bool" +
  fixes rd :: "time \<Rightarrow> string \<Rightarrow> 's \<Rightarrow> ref result \<times> 's"
    and del :: "string \<Rightarrow> 's \<Rightarrow> unit result \<times> 's"
  assumes rd_hit: "look s i = Some r \<Longrightarrow> \<exists>s'. rd now i s = (Inr r, s') \<and> look s' = look s"
    and rd_miss: "look s i = None \<Longrightarrow> \<exists>e. rd now i s = (Inl e, s) \<and> \<not> is_panic e"
    and del_hit: "look s i = Some r \<Longrightarrow> \<exists>s'. del i s = (Inr (), s') \<and> look s' = (look s)(i := None)"
    and del_miss: "look s i = None \<Longrightarrow> \<exists>e. del i s = (Inl e, s) \<and> \<not> is_panic e"
begin

lemma read_after_put:
  "ok s i r \<Longrightarrow> put i r s = Inr s' \<Longrightarrow> fst (rd now i s') = Inr r"
  using put_Inr rd_hit by (metis fst_conv fun_upd_same)

lemma del_Inr: "del i s = (Inr (), s') \<Longrightarrow> look s i \<noteq> None \<and> look s' = (look s)(i := None)"
  using del_hit [of s i] del_miss [of s i] by (cases "look s i") auto

lemma read_after_delete:
  assumes "del i s = (Inr (), s')"
  shows "\<exists>e. fst (rd now i s') = Inl e \<and> \<not> is_panic e"
  using rd_miss [of s' i now] del_Inr [OF assms] by auto

lemma del_twice:
  assumes "del i s = (Inr (), s')"
  shows "\<exists>e. fst (del i s') = Inl e"
  using del_miss [of s' i] del_Inr [OF assms] by auto

end

interpretation im: memory_provider "\<lambda>_. mem_write" ms_index "\<lambda>s i r. i = mem_id (ms_heap s ! r)"
  mem_read mem_delete
proof unfold_locales
  fix s :: mem_store and k v k' v' s'
  assume "k' = mem_id (ms_heap s ! v')" "mem_write v s = Inr s'"
  then show "k' = mem_id (ms_heap s' ! v')" by (auto simp: mem_write_def split: option.splits)
qed (auto simp: mem_write_def mem_read_def mem_delete_def)

section \<open>Well-formed stores\<close>

definition mem_store_inv :: "mem_store \<Rightarrow> bool" where
  "mem_store_inv s \<longleftrightarrow> finite (dom (ms_index s)) \<and>
     (\<forall>i r. ms_index s i = Some r \<longrightarrow> r < length (ms_heap s) \<and> mem_id (ms_heap s ! r) = i)"

lemma mem_store_inv_new [simp]: "mem_store_inv (new_store h)"
  by (simp add: mem_store_inv_def new_store_def)

lemma mem_write_inv:
  "mem_store_inv s \<Longrightarrow> r < length (ms_heap s) \<Longrightarrow> mem_write r s = Inr s' \<Longrightarrow> mem_store_inv s'"
  by (auto simp: mem_store_inv_def mem_write_def split: option.splits if_splits)

lemma mem_read_inv: "mem_store_inv s \<Longrightarrow> mem_read now i s = (res, s') \<Longrightarrow> mem_store_inv s'"
  by (auto simp: mem_store_inv_def mem_read_def nth_list_update split: option.splits)

lemma mem_delete_inv: "mem_store_inv s \<Longrightarrow> mem_delete i s = (res, s') \<Longrightarrow> mem_store_inv s'"
  by (auto simp: mem_store_inv_def mem_delete_def split: option.splits if_splits)

lemma mem_index_inj:
  "mem_store_inv s \<Longrightarrow> ms_index s i = Some r \<Longrightarrow> ms_index s j = Some r \<Longrightarrow> i = j"
  unfolding mem_store_inv_def by blast

section \<open>Queries\<close>

lemma contains_all_tags_iff: "contains_all_tags ms qs \<longleftrightarrow> set qs \<subseteq> set ms"
proof -
  have "all_in_set m qs \<longleftrightarrow> set qs \<subseteq> dom m" for m
    by (induction qs) (auto split: option.splits)
  moreover have "dom (fold (\<lambda>t m. m(t \<mapsto> ())) ms m) = set ms \<union> dom m" for m
    by (induction ms arbitrary: m) auto
  ultimately show ?thesis by (simp add: contains_all_tags_def)
qed

text \<open>What a query asks for, criterion by criterion; unset criteria ask for nothing.\<close>

definition wanted :: "search_query \<Rightarrow> memory \<Rightarrow> bool" where
  "wanted q m \<longleftrightarrow>
     (sq_type q = [] \<or> mem_type m = sq_type q) \<and> set (sq_tags q) \<subseteq> set (mem_tags m) \<and>
     (sq_actor q = [] \<or> mem_actor m = sq_actor q) \<and>
     (sq_tenant q = [] \<or> mem_tenant m = sq_tenant q) \<and>
     (sq_since q = zero_time \<or> sq_since q \<le> mem_created m) \<and>
     (sq_min_confidence q \<le> 0 \<or> sq_min_confidence q \<le> mem_confidence m)"

lemma matches_query_iff: "matches_query m q \<longleftrightarrow> wanted q m"
  unfolding matches_query_def wanted_def contains_all_tags_iff
  by (cases "sq_tags q = []") auto

lemma sort_take_top:
  fixes f :: "'a \<Rightarrow> int"
  assumes "a \<in> set (take n (sort_key f xs))" "b \<in> set xs" "b \<notin> set (take n (sort_key f xs))"
  shows "f a \<le> f b"
proof -
  let ?ys = "sort_key f xs"
  have "sorted (map f (take n ?ys @ drop n ?ys))" by simp
  then have "\<forall>x \<in> set (take n ?ys). \<forall>y \<in> set (drop n ?ys). f x \<le> f y"
    unfolding map_append sorted_append by simp
  moreover have "b \<in> set (take n ?ys @ drop n ?ys)" using assms(2) by simp
  ultimately show ?thesis using assms(1,3) unfolding set_append by blast
qed

text \<open>The records a store holds, by ID.\<close>

definition stored :: "mem_store \<Rightarrow> string \<Rightarrow> memory option" where
  "stored s i = map_option (\<lambda>r. ms_heap s ! r) (ms_index s i)"

section \<open>Properties\<close>

text \<open>A search sorts the records wanted, in whatever order they are found, and cuts.\<close>

lemma mem_search_hits:
  assumes "mem_store_inv s" "key_order (ms_index s) ks" "mem_search ks q s = (Inr rs, s')"
  shows "s' = s \<and> (\<exists>m. distinct m \<and> set m = {r. \<exists>i. ms_index s i = Some r \<and> wanted q (ms_heap s ! r)} \<and>
    rs = take (nat (search_limit q)) (sort_key (\<lambda>r. - mem_created (ms_heap s ! r)) m))"
proof -
  let ?m = "filter (\<lambda>r. matches_query (ms_heap s ! r) q) (map (\<lambda>k. the (ms_index s k)) ks)"
  have ks: "distinct ks" "set ks = dom (ms_index s)" using assms(2) by (auto simp: key_order_def)
  have "inj_on (\<lambda>k. the (ms_index s k)) (set ks)"
    using mem_index_inj [OF assms(1)] by (fastforce simp: inj_on_def ks(2))
  then have "distinct ?m" using ks(1) by (intro distinct_filter) (simp add: distinct_map)
  moreover have "set ?m = {r. \<exists>i. ms_index s i = Some r \<and> wanted q (ms_heap s ! r)}"
    by (force simp: matches_query_iff ks(2))
  moreover have "0 < search_limit q" by (simp add: search_limit_def)
  then have "rs = take (nat (search_limit q)) (sort_key (\<lambda>r. - mem_created (ms_heap s ! r)) ?m)" "s' = s"
    using assms(3) by (auto simp: mem_search_def Let_def split: if_splits)
  ultimately show ?thesis by blast
qed

text \<open>
  C30. A search returns distinct stored records that satisfy every criterion of the query, newest
  first, at most \<open>Limit\<close> of them (50 when none is given); nothing that matches is left out
  unless the limit is reached by records that are at least as new.
\<close>

theorem search_top_k:
  assumes "mem_store_inv s" "key_order (ms_index s) ks" "mem_search ks q s = (Inr rs, s')"
  defines "hits \<equiv> {r. \<exists>i. ms_index s i = Some r \<and> wanted q (ms_heap s ! r)}"
  shows "s' = s \<and> distinct rs \<and> set rs \<subseteq> hits \<and>
    sorted_wrt (\<lambda>r r'. mem_created (ms_heap s ! r') \<le> mem_created (ms_heap s ! r)) rs \<and>
    length rs = min (nat (search_limit q)) (card hits) \<and>
    (\<forall>r \<in> hits - set rs. \<forall>r' \<in> set rs. mem_created (ms_heap s ! r) \<le> mem_created (ms_heap s ! r'))"
proof -
  let ?f = "\<lambda>r. - mem_created (ms_heap s ! r)"
  let ?n = "nat (search_limit q)"
  from mem_search_hits [OF assms(1-3)] obtain m where m: "s' = s" "distinct m" "set m = hits"
      and rs: "rs = take ?n (sort_key ?f m)" unfolding hits_def by blast
  have "sorted (map ?f rs)" unfolding rs take_map [symmetric] by (intro sorted_wrt_take) simp
  then have "sorted_wrt (\<lambda>r r'. mem_created (ms_heap s ! r') \<le> mem_created (ms_heap s ! r)) rs"
    by (simp add: sorted_wrt_map)
  moreover have "set rs \<subseteq> hits" unfolding rs m(3) [symmetric] using set_take_subset by fastforce
  moreover have "mem_created (ms_heap s ! r) \<le> mem_created (ms_heap s ! r')"
    if "r \<in> hits - set rs" "r' \<in> set rs" for r r'
    using sort_take_top [of r' ?n ?f m r] that unfolding rs m(3) [symmetric] by simp
  moreover have "card hits = length m" unfolding m(3) [symmetric] by (rule distinct_card [OF m(2)])
  ultimately show ?thesis using rs m(1,2) by simp
qed

definition three_memories :: "memory list" where
  "three_memories =
     [new_memory ''m0'' 10 ''semantic'' ''1'' ''a'' ''t'',
      new_memory ''m1'' 30 ''semantic'' ''2'' ''a'' ''u'',
      (new_memory ''m2'' 20 ''working'' ''3'' ''b'' ''t'')\<lparr>mem_expires := 21\<rparr>]"

definition full_store :: mem_store where
  "full_store = \<lparr>ms_heap = three_memories,
     ms_index = [''m0'' \<mapsto> 0, ''m1'' \<mapsto> 1, ''m2'' \<mapsto> 2]\<rparr>"

definition any_query :: search_query where
  "any_query = \<lparr>sq_type = [], sq_tags = [], sq_actor = [], sq_tenant = [], sq_limit = 0,
     sq_since = zero_time, sq_min_confidence = 0\<rparr>"

lemma full_store_inv: "mem_store_inv full_store" "key_order (ms_index full_store) [''m2'', ''m0'', ''m1'']"
  by (auto simp: full_store_def mem_store_inv_def key_order_def three_memories_def new_memory_def)

theorem search_top_k_witness:
  "\<exists>rs. mem_search [''m2'', ''m0'', ''m1''] (any_query\<lparr>sq_limit := 2\<rparr>) full_store = (Inr rs, full_store) \<and>
     rs = [1, 2] \<and> distinct rs \<and> length rs = 2"
proof -
  let ?q = "any_query\<lparr>sq_limit := 2\<rparr>"
  have run: "mem_search [''m2'', ''m0'', ''m1''] ?q full_store = (Inr [1, 2], full_store)"
    by (simp add: mem_search_def full_store_def three_memories_def new_memory_def any_query_def
        matches_query_def search_limit_def)
  from search_top_k [OF full_store_inv run] run show ?thesis by simp
qed

text \<open>
  Which records a search returns does not depend on their expiry time, and a query without
  a tenant returns records of every tenant: expired and foreign records are found.
\<close>

theorem search_ignores_expiry:
  "matches_query (m\<lparr>mem_expires := t\<rparr>) q = matches_query m q \<and>
   matches_query (m\<lparr>mem_tenant := ten\<rparr>) (q\<lparr>sq_tenant := []\<rparr>) = matches_query m (q\<lparr>sq_tenant := []\<rparr>)"
  by (simp add: matches_query_def)

text \<open>
  A client's commands, as the handlers and tools issue them, and what they mean on a finite map
  from IDs to records. A stored record is allocated by the caller; a recalled one is read
  through the returned pointer.
\<close>

datatype mem_cmd = Store memory | Recall time string | Forget string

fun spec_exec :: "mem_cmd \<Rightarrow> (string \<rightharpoonup> memory) \<Rightarrow> memory option option \<times> (string \<rightharpoonup> memory)" where
  "spec_exec (Store m) A =
     (if A (mem_id m) = None then (Some None, A(mem_id m \<mapsto> m)) else (None, A))"
| "spec_exec (Recall now i) A =
     (case A i of
        None \<Rightarrow> (None, A)
      | Some m \<Rightarrow> (Some (Some (m\<lparr>mem_accessed := now\<rparr>)), A(i \<mapsto> m\<lparr>mem_accessed := now\<rparr>)))"
| "spec_exec (Forget i) A = (if A i = None then (None, A) else (Some None, A(i := None)))"

fun plane_exec :: "mem_cmd \<Rightarrow> mem_store \<Rightarrow> memory option result \<times> mem_store" where
  "plane_exec (Store m) s =
     (case plane_store inmemory (length (ms_heap s)) (s\<lparr>ms_heap := ms_heap s @ [m]\<rparr>) of
        (Inl e, s') \<Rightarrow> (Inl e, s') | (Inr _, s') \<Rightarrow> (Inr None, s'))"
| "plane_exec (Recall now i) s =
     (case plane_recall inmemory now i s of
        (Inl e, s') \<Rightarrow> (Inl e, s') | (Inr r, s') \<Rightarrow> (Inr (Some (ms_heap s' ! r)), s'))"
| "plane_exec (Forget i) s =
     (case plane_forget inmemory i s of
        (Inl e, s') \<Rightarrow> (Inl e, s') | (Inr _, s') \<Rightarrow> (Inr None, s'))"

fun outcome :: "'a result \<Rightarrow> 'a option" where
  "outcome (Inl e) = None"
| "outcome (Inr v) = Some v"

lemmas plane_ops = plane_store_def plane_recall_def plane_forget_def inmemory_def

lemma stored_grow:
  assumes "mem_store_inv s"
  shows "stored (s\<lparr>ms_heap := ms_heap s @ [m]\<rparr>) = stored s"
proof
  fix i
  show "stored (s\<lparr>ms_heap := ms_heap s @ [m]\<rparr>) i = stored s i"
    using assms by (cases "ms_index s i") (auto simp: stored_def mem_store_inv_def nth_append)
qed

lemma mem_store_inv_grow: "mem_store_inv s \<Longrightarrow> mem_store_inv (s\<lparr>ms_heap := ms_heap s @ [m]\<rparr>)"
  unfolding mem_store_inv_def by (auto simp: nth_append less_Suc_eq)

lemma store_refines:
  assumes "mem_store_inv s" "plane_exec (Store m) s = (res, s')"
  shows "mem_store_inv s' \<and> spec_exec (Store m) (stored s) = (outcome res, stored s') \<and>
    (\<forall>e. res = Inl e \<longrightarrow> \<not> is_panic e)"
proof -
  let ?s = "s\<lparr>ms_heap := ms_heap s @ [m]\<rparr>"
  have none: "stored s (mem_id m) = None \<longleftrightarrow> ms_index s (mem_id m) = None"
    by (simp add: stored_def)
  show ?thesis
  proof (cases "ms_index s (mem_id m)")
    case None
    then have w: "mem_write (length (ms_heap s)) ?s =
        Inr (?s\<lparr>ms_index := (ms_index s)(mem_id m \<mapsto> length (ms_heap s))\<rparr>)"
      by (simp add: mem_write_def)
    then have s': "s' = ?s\<lparr>ms_index := (ms_index s)(mem_id m \<mapsto> length (ms_heap s))\<rparr>" "res = Inr None"
      using assms(2) by (simp_all add: plane_ops)
    have "mem_store_inv s'"
      using mem_write_inv [OF mem_store_inv_grow [OF assms(1)] _ w] s' by simp
    moreover have "stored s' = (stored ?s)(mem_id m \<mapsto> m)"
      by (auto simp: s' stored_def fun_eq_iff)
    ultimately show ?thesis using s'(2) None none stored_grow [OF assms(1)] by simp
  next
    case (Some r)
    then have "mem_write (length (ms_heap s)) ?s = Inl (Errf ''memory %q already exists'' [FStr (mem_id m)])"
      by (simp add: mem_write_def)
    with assms(2) have "s' = ?s" "res = Inl (Errf ''memory %q already exists'' [FStr (mem_id m)])"
      by (simp_all add: plane_ops)
    with Some none stored_grow [OF assms(1)] mem_store_inv_grow [OF assms(1)]
    show ?thesis by simp
  qed
qed

lemma recall_refines:
  assumes "mem_store_inv s" "plane_exec (Recall now i) s = (res, s')"
  shows "mem_store_inv s' \<and> spec_exec (Recall now i) (stored s) = (outcome res, stored s') \<and>
    (\<forall>e. res = Inl e \<longrightarrow> \<not> is_panic e)"
proof (cases "ms_index s i")
  case None
  with assms show ?thesis by (auto simp: plane_ops mem_read_def stored_def)
next
  case (Some r)
  then have r: "r < length (ms_heap s)" using assms(1) by (simp add: mem_store_inv_def)
  let ?s = "s\<lparr>ms_heap := (ms_heap s)[r := (ms_heap s ! r)\<lparr>mem_accessed := now\<rparr>]\<rparr>"
  have read: "mem_read now i s = (Inr r, ?s)" using Some by (simp add: mem_read_def)
  have "stored ?s j = ((stored s)(i \<mapsto> (ms_heap s ! r)\<lparr>mem_accessed := now\<rparr>)) j" for j
    using Some r mem_index_inj [OF assms(1) Some, of j]
    by (cases "ms_index s j") (auto simp: stored_def nth_list_update)
  then have "stored ?s = (stored s)(i \<mapsto> (ms_heap s ! r)\<lparr>mem_accessed := now\<rparr>)" ..
  with read Some r mem_read_inv [OF assms(1) read] assms(2) show ?thesis
    by (auto simp: plane_ops stored_def)
qed

lemma plane_exec_refines:
  assumes "mem_store_inv s" "plane_exec c s = (res, s')"
  shows "mem_store_inv s' \<and> spec_exec c (stored s) = (outcome res, stored s') \<and>
    (\<forall>e. res = Inl e \<longrightarrow> \<not> is_panic e)"
proof (cases c)
  case (Forget i)
  have "stored (s\<lparr>ms_index := (ms_index s)(i := None)\<rparr>) = (stored s)(i := None)"
    by (auto simp: stored_def fun_eq_iff)
  with assms Forget mem_delete_inv [OF assms(1), of i] show ?thesis
    by (cases "ms_index s i") (auto simp: plane_ops mem_delete_def stored_def)
qed (use assms store_refines recall_refines in blast)+

fun plane_execs :: "mem_cmd list \<Rightarrow> mem_store \<Rightarrow> memory option result list" where
  "plane_execs [] s = []"
| "plane_execs (c # cs) s = (let (res, s') = plane_exec c s in res # plane_execs cs s')"

fun spec_execs :: "mem_cmd list \<Rightarrow> (string \<rightharpoonup> memory) \<Rightarrow> memory option option list" where
  "spec_execs [] A = []"
| "spec_execs (c # cs) A = (let (res, A') = spec_exec c A in res # spec_execs cs A')"

text \<open>
  C4. The in-memory provider implements a finite map from IDs to records: any sequence of
  \<open>Store\<close>, \<open>Recall\<close> and \<open>Forget\<close> through the plane answers exactly as the map does. The first
  record stored under an ID is kept, a recall returns it with nothing but its access time
  changed, a forgotten ID is free again, and no command panics.
\<close>

theorem memory_plane_refines:
  assumes "mem_store_inv s"
  shows "map outcome (plane_execs cs s) = spec_execs cs (stored s) \<and>
    (\<forall>e. Inl e \<in> set (plane_execs cs s) \<longrightarrow> \<not> is_panic e)"
  using assms
proof (induction cs arbitrary: s)
  case (Cons c cs)
  obtain res s' where run: "plane_exec c s = (res, s')" by force
  from plane_exec_refines [OF Cons.prems run] Cons.IH [of s'] run show ?case by auto
qed simp

theorem memory_plane_refines_witness:
  "map outcome (plane_execs [Store (three_memories ! 0), Store (three_memories ! 0), Recall 5 ''m0'',
      Forget ''m0'', Recall 6 ''m0''] (new_store [])) =
   [Some None, None, Some (Some ((three_memories ! 0)\<lparr>mem_accessed := 5\<rparr>)), Some None, None]"
proof -
  have "stored (new_store []) = Map.empty" by (simp add: stored_def new_store_def fun_eq_iff)
  with memory_plane_refines [OF mem_store_inv_new, of "[Store (three_memories ! 0),
      Store (three_memories ! 0), Recall 5 ''m0'', Forget ''m0'', Recall 6 ''m0'']" "[]"]
  show ?thesis by (simp add: three_memories_def new_memory_def)
qed

end
