(* ===== verification/Go_Chan.thy ===== *)
theory Go_Chan
  imports Prelude
begin

text \<open>
  Buffered Go channels and the three primitives the source uses on them: the non-blocking
  send and receive of a \<open>select\<close> with a \<open>default\<close> branch, and \<open>close\<close>. A send on a
  closed channel and a second close are run-time panics.
\<close>

record 'a gochan =
  ch_buf :: "'a list"
  ch_cap :: nat
  ch_closed :: bool

datatype 'a attempt = Done 'a | Blocked | Panicked string

definition make_chan :: "nat \<Rightarrow> 'a gochan" where
  "make_chan n = \<lparr>ch_buf = [], ch_cap = n, ch_closed = False\<rparr>"

definition chan_send :: "'a gochan \<Rightarrow> 'a \<Rightarrow> 'a gochan attempt" where
  "chan_send c x =
     (if ch_closed c then Panicked ''send on closed channel''
      else if length (ch_buf c) < ch_cap c then Done (c\<lparr>ch_buf := ch_buf c @ [x]\<rparr>)
      else Blocked)"

text \<open>The received value is \<open>None\<close> when the channel is closed and drained (\<open>ok = false\<close>).\<close>

definition chan_recv :: "'a gochan \<Rightarrow> ('a option \<times> 'a gochan) attempt" where
  "chan_recv c =
     (case ch_buf c of
        x # xs \<Rightarrow> Done (Some x, c\<lparr>ch_buf := xs\<rparr>)
      | [] \<Rightarrow> if ch_closed c then Done (None, c) else Blocked)"

definition chan_close :: "'a gochan \<Rightarrow> 'a gochan attempt" where
  "chan_close c =
     (if ch_closed c then Panicked ''close of closed channel''
      else Done (c\<lparr>ch_closed := True\<rparr>))"

definition chan_ok :: "'a gochan \<Rightarrow> bool" where
  "chan_ok c \<longleftrightarrow> length (ch_buf c) \<le> ch_cap c"

lemma make_chan_simps [simp]:
  "ch_buf (make_chan n) = []" "ch_cap (make_chan n) = n" "\<not> ch_closed (make_chan n)"
  "chan_ok (make_chan n)"
  by (simp_all add: make_chan_def chan_ok_def)

lemma chan_send_open [chan_simps]:
  "\<not> ch_closed c \<Longrightarrow> chan_send c x =
     (if length (ch_buf c) < ch_cap c then Done (c\<lparr>ch_buf := ch_buf c @ [x]\<rparr>) else Blocked)"
  by (simp add: chan_send_def)

lemma chan_send_ok: "chan_send c x = Done c' \<Longrightarrow> chan_ok c'"
  by (auto simp: chan_send_def chan_ok_def split: if_splits)

lemma chan_recv_ok: "chan_recv c = Done (v, c') \<Longrightarrow> chan_ok c \<Longrightarrow> chan_ok c'"
  by (auto simp: chan_recv_def chan_ok_def split: list.splits if_splits)

lemma chan_recv_not_panicked: "chan_recv c \<noteq> Panicked m"
  by (auto simp: chan_recv_def split: list.splits)

end
