(* ===== verification/Event_Bus.thy ===== *)
theory Event_Bus
  imports Go_Chan
begin

text \<open>
  The event bus (\<open>internal/body/eventbus.go\<close>). The locale \<open>event_bus\<close> is the contract of
  the \<open>EventBus\<close> interface; \<open>InMemoryEventBus\<close> implements it over a store of buffered
  channels, which are references: a subscriber is the address of its channel.
\<close>

record bus_event =
  ev_type :: string
  ev_payload :: raw
  ev_trace :: string
  ev_time :: time

section \<open>The EventBus interface\<close>

locale event_bus =
  fixes pub :: "bus_event \<Rightarrow> 'b \<Rightarrow> unit result \<times> 'b"
    and sub :: "string \<Rightarrow> 'b \<Rightarrow> ref \<times> 'b"
    and unsub :: "string \<Rightarrow> ref \<Rightarrow> 'b \<Rightarrow> unit result \<times> 'b"
    and subscribed :: "'b \<Rightarrow> string \<Rightarrow> ref list"
    and inbox :: "'b \<Rightarrow> ref \<Rightarrow> bus_event list"
    and closed :: "'b \<Rightarrow> bool"
    and inv :: "'b \<Rightarrow> bool"
    and cap :: nat
  assumes pub_open: "inv b \<Longrightarrow> \<not> closed b \<Longrightarrow>
      \<exists>b'. pub ev b = (Inr (), b') \<and> inv b' \<and> \<not> closed b' \<and> subscribed b' = subscribed b \<and>
        (\<forall>ch. inbox b' ch = inbox b ch @
           (if ch \<in> set (subscribed b (ev_type ev)) \<and> length (inbox b ch) < cap then [ev] else []))"
    and pub_closed: "closed b \<Longrightarrow> \<exists>e. pub ev b = (Inl e, b) \<and> \<not> is_panic e"
    and sub_fresh: "inv b \<Longrightarrow>
      \<exists>ch b'. sub ty b = (ch, b') \<and> inv b' \<and> closed b' = closed b \<and>
        (\<forall>ty'. ch \<notin> set (subscribed b ty')) \<and> inbox b' ch = [] \<and>
        subscribed b' = (subscribed b)(ty := subscribed b ty @ [ch]) \<and>
        (\<forall>ty' \<in> UNIV. \<forall>ch' \<in> set (subscribed b ty'). inbox b' ch' = inbox b ch')"
    and unsub_one: "inv b \<Longrightarrow>
      \<exists>b'. unsub ty ch b = (Inr (), b') \<and> inv b' \<and> closed b' = closed b \<and>
        subscribed b' = (subscribed b)(ty := remove1 ch (subscribed b ty)) \<and>
        inbox b' = inbox b"
    and distinct_subs: "inv b \<Longrightarrow> distinct (subscribed b ty)"
begin

lemma pub_no_panic: "inv b \<Longrightarrow> pub ev b = (Inl e, b') \<Longrightarrow> \<not> is_panic e"
  using pub_open [of b ev] pub_closed [of b ev] by (cases "closed b") auto

text \<open>A burst of events: a subscriber gets those of its types, in order, while it has room.\<close>

lemma pub_burst:
  fixes evs :: "bus_event list"
  assumes "inv b" "\<not> closed b"
  defines "b' \<equiv> fold (\<lambda>ev b. snd (pub ev b)) evs b"
  shows "inv b' \<and> \<not> closed b' \<and> subscribed b' = subscribed b \<and>
    inbox b' ch = inbox b ch @
      take (cap - length (inbox b ch)) (filter (\<lambda>ev. ch \<in> set (subscribed b (ev_type ev))) evs)"
  using assms(1,2) unfolding b'_def
proof (induction evs arbitrary: b)
  case (Cons ev evs)
  from pub_open [OF Cons.prems, of ev] obtain b1 where
    b1: "pub ev b = (Inr (), b1)" "inv b1" "\<not> closed b1" "subscribed b1 = subscribed b"
      "inbox b1 ch = inbox b ch @
        (if ch \<in> set (subscribed b (ev_type ev)) \<and> length (inbox b ch) < cap then [ev] else [])"
    by blast
  show ?case
  proof (cases "ch \<in> set (subscribed b (ev_type ev)) \<and> length (inbox b ch) < cap")
    case True
    then have "cap - length (inbox b ch) = Suc (cap - length (inbox b1 ch))"
      by (simp add: b1 Suc_diff_Suc)
    with Cons.IH [OF b1(2,3)] b1 True show ?thesis by simp
  next
    case False
    with Cons.IH [OF b1(2,3)] b1 show ?thesis by auto
  qed
qed simp

text \<open>A new subscriber gets exactly the events published from then on, up to its capacity.\<close>

lemma sub_then_burst:
  fixes evs :: "bus_event list"
  assumes "inv b" "\<not> closed b" "sub ty b = (ch, b1)"
  defines "b' \<equiv> fold (\<lambda>ev b. snd (pub ev b)) evs b1"
  shows "inbox b' ch = take cap (filter (\<lambda>ev. ev_type ev = ty) evs)"
proof -
  from sub_fresh [OF assms(1), of ty] assms(3) have s: "inv b1" "closed b1 = closed b"
    "\<And>ty'. ch \<notin> set (subscribed b ty')" "inbox b1 ch = []"
    "subscribed b1 = (subscribed b)(ty := subscribed b ty @ [ch])" by auto
  have f: "(\<lambda>ev. ch \<in> set (subscribed b1 (ev_type ev))) = (\<lambda>ev. ev_type ev = ty)"
    using s(3) by (auto simp: s(5) fun_eq_iff)
  from pub_burst [OF s(1), of evs ch] s(2,4) assms(2) show ?thesis
    unfolding b'_def f by simp
qed

text \<open>However many events have been published, the next one is published too.\<close>

lemma pub_next:
  fixes evs :: "bus_event list"
  assumes "inv b" "\<not> closed b"
  shows "fst (pub ev (fold (\<lambda>ev b. snd (pub ev b)) evs b)) = Inr ()"
  using assms
proof (induction evs arbitrary: b)
  case Nil
  with pub_open [of b ev] show ?case by auto
next
  case (Cons ev' evs)
  from pub_open [OF Cons.prems, of ev'] obtain b1 where "pub ev' b = (Inr (), b1)" "inv b1" "\<not> closed b1" by blast
  with Cons.IH show ?case by simp
qed

lemma sub_pub_next:
  fixes evs :: "bus_event list"
  assumes "inv b" "\<not> closed b" "sub ty b = (ch, b1)"
  shows "fst (pub ev (fold (\<lambda>ev b. snd (pub ev b)) evs b1)) = Inr ()"
  using sub_fresh [OF assms(1), of ty] assms pub_next [of b1 ev evs] by auto

text \<open>After \<open>Unsubscribe\<close> a subscriber hears no more.\<close>

lemma unsub_silent:
  fixes evs :: "bus_event list"
  assumes "inv b" "\<not> closed b" "unsub ty ch b = (res, b1)"
    and "\<And>ty'. ty' \<noteq> ty \<Longrightarrow> ch \<notin> set (subscribed b ty')"
  defines "b' \<equiv> fold (\<lambda>ev b. snd (pub ev b)) evs b1"
  shows "res = Inr () \<and> inbox b' ch = inbox b ch"
proof -
  from unsub_one [OF assms(1), of ty ch] assms(3) have s: "res = Inr ()" "inv b1"
    "closed b1 = closed b" "inbox b1 = inbox b"
    "subscribed b1 = (subscribed b)(ty := remove1 ch (subscribed b ty))" by auto
  have "ch \<notin> set (subscribed b1 ty')" for ty'
    using assms(4) [of ty'] distinct_subs [OF assms(1), of ty]
    by (cases "ty' = ty") (auto simp: s(5))
  with pub_burst [OF s(2), of evs ch] s assms(2) show ?thesis by (simp add: b'_def)
qed

end

section \<open>The in-memory bus\<close>

record bus =
  bus_subs :: "string \<rightharpoonup> ref list"
  bus_closed :: bool
  bus_chans :: "bus_event gochan list"

definition new_bus :: bus where
  "new_bus = \<lparr>bus_subs = Map.empty, bus_closed = False, bus_chans = []\<rparr>"

definition err_bus_closed :: go_error where
  "err_bus_closed = Errf ''event bus closed'' []"

fun send_all :: "bus_event \<Rightarrow> ref list \<Rightarrow> bus_event gochan list \<Rightarrow> bus_event gochan list result" where
  "send_all ev [] cs = Inr cs"
| "send_all ev (ch # chs) cs =
     (case chan_send (cs ! ch) ev of
        Done c \<Rightarrow> send_all ev chs (cs[ch := c])
      | Blocked \<Rightarrow> send_all ev chs cs
      | Panicked m \<Rightarrow> Inl (Panic m))"

definition publish :: "bus_event \<Rightarrow> bus \<Rightarrow> unit result \<times> bus" where
  "publish ev b =
     (if bus_closed b then (Inl err_bus_closed, b)
      else case send_all ev (map_get [] (bus_subs b) (ev_type ev)) (bus_chans b) of
             Inl e \<Rightarrow> (Inl e, b)
           | Inr cs \<Rightarrow> (Inr (), b\<lparr>bus_chans := cs\<rparr>))"

definition subscriber_buffer :: nat where
  "subscriber_buffer = 64"

definition subscribe :: "string \<Rightarrow> bus \<Rightarrow> ref \<times> bus" where
  "subscribe ty b =
     (let ch = length (bus_chans b) in
      (ch, b\<lparr>bus_chans := bus_chans b @ [make_chan subscriber_buffer],
             bus_subs := (bus_subs b)(ty \<mapsto> map_get [] (bus_subs b) ty @ [ch])\<rparr>))"

definition close_at :: "ref \<Rightarrow> bus_event gochan list \<Rightarrow> bus_event gochan list result" where
  "close_at ch cs =
     (case chan_close (cs ! ch) of
        Done c \<Rightarrow> Inr (cs[ch := c])
      | Blocked \<Rightarrow> Inr cs
      | Panicked m \<Rightarrow> Inl (Panic m))"

text \<open>The loop stops at the first occurrence of the channel.\<close>

fun unsub_loop :: "string \<Rightarrow> ref \<Rightarrow> ref list \<Rightarrow> ref list \<Rightarrow> bus \<Rightarrow> bus result" where
  "unsub_loop ty ch pre [] b = Inr b"
| "unsub_loop ty ch pre (s # post) b =
     (if s = ch
      then (case close_at s (bus_chans b) of
              Inl e \<Rightarrow> Inl e
            | Inr cs \<Rightarrow> Inr (b\<lparr>bus_subs := (bus_subs b)(ty \<mapsto> pre @ post), bus_chans := cs\<rparr>))
      else unsub_loop ty ch (pre @ [s]) post b)"

definition unsubscribe :: "string \<Rightarrow> ref \<Rightarrow> bus \<Rightarrow> unit result \<times> bus" where
  "unsubscribe ty ch b =
     (case unsub_loop ty ch [] (map_get [] (bus_subs b) ty) b of
        Inl e \<Rightarrow> (Inl e, b)
      | Inr b' \<Rightarrow>
         (Inr (), if length (map_get [] (bus_subs b') ty) = 0
                  then b'\<lparr>bus_subs := (bus_subs b')(ty := None)\<rparr> else b'))"

fun close_all :: "ref list \<Rightarrow> bus_event gochan list \<Rightarrow> bus_event gochan list result" where
  "close_all [] cs = Inr cs"
| "close_all (ch # chs) cs =
     (case close_at ch cs of Inl e \<Rightarrow> Inl e | Inr cs' \<Rightarrow> close_all chs cs')"

text \<open>\<open>tys\<close> is the order in which \<open>Close\<close> ranges over the subscriber map.\<close>

fun close_types :: "string list \<Rightarrow> bus \<Rightarrow> bus result" where
  "close_types [] b = Inr b"
| "close_types (ty # tys) b =
     (case close_all (map_get [] (bus_subs b) ty) (bus_chans b) of
        Inl e \<Rightarrow> Inl e
      | Inr cs \<Rightarrow> close_types tys (b\<lparr>bus_chans := cs, bus_subs := (bus_subs b)(ty := None)\<rparr>))"

definition bus_close :: "string list \<Rightarrow> bus \<Rightarrow> unit result \<times> bus" where
  "bus_close tys b =
     (case close_types tys b of
        Inl e \<Rightarrow> (Inl e, b)
      | Inr b' \<Rightarrow> (Inr (), b'\<lparr>bus_closed := True\<rparr>))"

text \<open>A subscriber reading from its channel.\<close>

definition bus_recv :: "ref \<Rightarrow> bus \<Rightarrow> bus_event option attempt \<times> bus" where
  "bus_recv ch b =
     (case chan_recv (bus_chans b ! ch) of
        Done (v, c) \<Rightarrow> (Done v, b\<lparr>bus_chans := (bus_chans b)[ch := c]\<rparr>)
      | Blocked \<Rightarrow> (Blocked, b)
      | Panicked m \<Rightarrow> (Panicked m, b))"

section \<open>Invariant\<close>

definition bus_subscribed :: "bus \<Rightarrow> string \<Rightarrow> ref list" where
  "bus_subscribed b ty = map_get [] (bus_subs b) ty"

definition bus_inbox :: "bus \<Rightarrow> ref \<Rightarrow> bus_event list" where
  "bus_inbox b ch = (if ch < length (bus_chans b) then ch_buf (bus_chans b ! ch) else [])"

text \<open>
  Registered channels exist, are open, and are registered once, under one type. This is what
  keeps every \<open>close\<close> and every send of the bus from panicking.
\<close>

definition chan_live :: "bus \<Rightarrow> ref \<Rightarrow> bool" where
  "chan_live b ch \<longleftrightarrow> ch < length (bus_chans b) \<and> \<not> ch_closed (bus_chans b ! ch) \<and>
     ch_cap (bus_chans b ! ch) = subscriber_buffer"

definition bus_inv :: "bus \<Rightarrow> bool" where
  "bus_inv b \<longleftrightarrow>
     (\<forall>ty. distinct (bus_subscribed b ty) \<and> (\<forall>ch \<in> set (bus_subscribed b ty). chan_live b ch)) \<and>
     (\<forall>ty ty'. ty \<noteq> ty' \<longrightarrow> set (bus_subscribed b ty) \<inter> set (bus_subscribed b ty') = {}) \<and>
     (\<forall>ty. bus_subs b ty \<noteq> Some [])"

lemmas bus_abs = bus_subscribed_def bus_inbox_def

lemma bus_invD:
  assumes "bus_inv b"
  shows "distinct (bus_subscribed b ty)" "ch \<in> set (bus_subscribed b ty) \<Longrightarrow> chan_live b ch"
    "ty \<noteq> ty' \<Longrightarrow> ch \<in> set (bus_subscribed b ty) \<Longrightarrow> ch \<notin> set (bus_subscribed b ty')"
  using assms unfolding bus_inv_def by blast+

lemma new_bus_inv [simp]: "bus_inv new_bus" "\<not> bus_closed new_bus" "bus_subscribed new_bus ty = []"
  by (simp_all add: bus_inv_def new_bus_def bus_subscribed_def)

subsection \<open>Publish\<close>

lemma send_all_live:
  assumes "distinct chs" "\<And>ch. ch \<in> set chs \<Longrightarrow> ch < length cs \<and> \<not> ch_closed (cs ! ch)"
  shows "\<exists>cs'. send_all ev chs cs = Inr cs' \<and> length cs' = length cs \<and>
    (\<forall>ch < length cs. cs' ! ch =
       (if ch \<in> set chs \<and> length (ch_buf (cs ! ch)) < ch_cap (cs ! ch)
        then (cs ! ch)\<lparr>ch_buf := ch_buf (cs ! ch) @ [ev]\<rparr> else cs ! ch))"
  using assms
proof (induction chs arbitrary: cs)
  case (Cons ch chs)
  let ?c = "cs ! ch"
  have live: "ch < length cs" "\<not> ch_closed ?c" using Cons.prems(2) by auto
  let ?cs1 = "if length (ch_buf ?c) < ch_cap ?c
    then cs[ch := ?c\<lparr>ch_buf := ch_buf ?c @ [ev]\<rparr>] else cs"
  have step: "send_all ev (ch # chs) cs = send_all ev chs ?cs1"
    using live by (simp add: chan_send_open)
  have other: "ch' \<noteq> ch \<Longrightarrow> ?cs1 ! ch' = cs ! ch'" for ch' by simp
  have "ch' \<in> set chs \<Longrightarrow> ch' < length ?cs1 \<and> \<not> ch_closed (?cs1 ! ch')" for ch'
    using Cons.prems other [of ch'] by (cases "ch' = ch") auto
  from Cons.IH [OF _ this] Cons.prems(1) obtain cs' where
    cs': "send_all ev chs ?cs1 = Inr cs'" "length cs' = length ?cs1"
      "\<forall>ch < length ?cs1. cs' ! ch =
       (if ch \<in> set chs \<and> length (ch_buf (?cs1 ! ch)) < ch_cap (?cs1 ! ch)
        then (?cs1 ! ch)\<lparr>ch_buf := ch_buf (?cs1 ! ch) @ [ev]\<rparr> else ?cs1 ! ch)" by auto
  have len: "length ?cs1 = length cs" by simp
  show ?case
  proof (intro exI conjI allI impI)
    show "send_all ev (ch # chs) cs = Inr cs'" using step cs'(1) by simp
    show "length cs' = length cs" using cs'(2) len by simp
    fix ch' assume a: "ch' < length cs"
    show "cs' ! ch' = (if ch' \<in> set (ch # chs) \<and> length (ch_buf (cs ! ch')) < ch_cap (cs ! ch')
        then (cs ! ch')\<lparr>ch_buf := ch_buf (cs ! ch') @ [ev]\<rparr> else cs ! ch')"
    proof (cases "ch' = ch")
      case True
      with cs'(3) a len Cons.prems(1) live show ?thesis by auto
    next
      case False
      with cs'(3) a len other [OF False] show ?thesis by auto
    qed
  qed
qed simp

lemma publish_open:
  assumes "bus_inv b" "\<not> bus_closed b"
  shows "\<exists>b'. publish ev b = (Inr (), b') \<and> bus_inv b' \<and> \<not> bus_closed b' \<and>
    bus_subscribed b' = bus_subscribed b \<and>
    (\<forall>ch. bus_inbox b' ch = bus_inbox b ch @
       (if ch \<in> set (bus_subscribed b (ev_type ev)) \<and> length (bus_inbox b ch) < subscriber_buffer
        then [ev] else []))"
proof -
  let ?chs = "bus_subscribed b (ev_type ev)"
  have live: "ch \<in> set ?chs \<Longrightarrow> ch < length (bus_chans b) \<and> \<not> ch_closed (bus_chans b ! ch)" for ch
    using bus_invD(2) [OF assms(1)] by (auto simp: chan_live_def)
  from send_all_live [OF bus_invD(1) [OF assms(1)] live, of "ev_type ev" ev] obtain cs' where
    cs': "send_all ev ?chs (bus_chans b) = Inr cs'" "length cs' = length (bus_chans b)"
    "\<And>ch. ch < length (bus_chans b) \<Longrightarrow> cs' ! ch =
       (if ch \<in> set ?chs \<and> length (ch_buf (bus_chans b ! ch)) < ch_cap (bus_chans b ! ch)
        then (bus_chans b ! ch)\<lparr>ch_buf := ch_buf (bus_chans b ! ch) @ [ev]\<rparr>
        else bus_chans b ! ch)" by blast
  let ?b' = "b\<lparr>bus_chans := cs'\<rparr>"
  have pub: "publish ev b = (Inr (), ?b')"
    using cs'(1) assms(2) by (simp add: publish_def bus_subscribed_def)
  have subs: "bus_subscribed ?b' = bus_subscribed b" by (simp add: bus_subscribed_def fun_eq_iff)
  have "chan_live ?b' ch \<longleftrightarrow> chan_live b ch" for ch
    using cs'(2) cs'(3) [of ch] by (auto simp: chan_live_def split: if_splits)
  then have inv: "bus_inv ?b'" using assms(1) by (simp add: bus_inv_def subs)
  have "bus_inbox ?b' ch = bus_inbox b ch @
       (if ch \<in> set ?chs \<and> length (bus_inbox b ch) < subscriber_buffer then [ev] else [])" for ch
  proof (cases "ch < length (bus_chans b)")
    case True
    moreover have "ch \<in> set ?chs \<Longrightarrow> ch_cap (bus_chans b ! ch) = subscriber_buffer"
      using bus_invD(2) [OF assms(1)] by (auto simp: chan_live_def)
    ultimately show ?thesis using cs'(2) cs'(3) [OF True] by (auto simp: bus_inbox_def)
  next
    case False
    then show ?thesis using live [of ch] cs'(2) by (auto simp: bus_inbox_def)
  qed
  with pub inv subs assms(2) show ?thesis by simp
qed

subsection \<open>Subscribe and Unsubscribe\<close>

lemma subscribe_fresh:
  assumes "bus_inv b"
  shows "\<exists>ch b'. subscribe ty b = (ch, b') \<and> bus_inv b' \<and> bus_closed b' = bus_closed b \<and>
    (\<forall>ty'. ch \<notin> set (bus_subscribed b ty')) \<and> bus_inbox b' ch = [] \<and>
    bus_subscribed b' = (bus_subscribed b)(ty := bus_subscribed b ty @ [ch]) \<and>
    (\<forall>ch' < length (bus_chans b). bus_inbox b' ch' = bus_inbox b ch')"
proof -
  let ?ch = "length (bus_chans b)"
  let ?b' = "snd (subscribe ty b)"
  have eq: "subscribe ty b = (?ch, ?b')" by (simp add: subscribe_def Let_def)
  have subs: "bus_subscribed ?b' = (bus_subscribed b)(ty := bus_subscribed b ty @ [?ch])"
    by (auto simp: subscribe_def Let_def bus_subscribed_def fun_eq_iff)
  have fresh: "?ch \<notin> set (bus_subscribed b ty')" for ty'
    using bus_invD(2) [OF assms] by (force simp: chan_live_def)
  have live: "chan_live ?b' ch \<longleftrightarrow> ch = ?ch \<or> chan_live b ch" for ch
    by (auto simp: chan_live_def subscribe_def Let_def nth_append)
  have "bus_inv ?b'"
    unfolding bus_inv_def
  proof (intro conjI allI impI)
    fix ty1 ty2 :: string
    show "distinct (bus_subscribed ?b' ty1)"
      using bus_invD(1) [OF assms] fresh by (simp add: subs)
    show "\<forall>ch \<in> set (bus_subscribed ?b' ty1). chan_live ?b' ch"
      using bus_invD(2) [OF assms] by (auto simp: subs live)
    show "bus_subs ?b' ty1 \<noteq> Some []"
      using assms by (simp add: bus_inv_def subscribe_def Let_def)
    assume "ty1 \<noteq> ty2"
    then show "set (bus_subscribed ?b' ty1) \<inter> set (bus_subscribed ?b' ty2) = {}"
      using bus_invD(3) [OF assms] fresh by (auto simp: subs)
  qed
  moreover have "bus_closed ?b' = bus_closed b" "bus_inbox ?b' ?ch = []"
    "\<forall>ch' < ?ch. bus_inbox ?b' ch' = bus_inbox b ch'"
    by (auto simp: subscribe_def Let_def bus_inbox_def nth_append)
  ultimately show ?thesis using eq subs fresh by blast
qed

lemma unsub_loop_eq:
  "ch \<notin> set chs \<Longrightarrow> unsub_loop ty ch pre chs b = Inr b"
  "ch \<in> set chs \<Longrightarrow> unsub_loop ty ch pre chs b =
     (case close_at ch (bus_chans b) of
        Inl e \<Rightarrow> Inl e
      | Inr cs \<Rightarrow> Inr (b\<lparr>bus_subs := (bus_subs b)(ty \<mapsto> pre @ remove1 ch chs),
                        bus_chans := cs\<rparr>))"
  by (induction chs arbitrary: pre) (auto split: sum.split)

lemma close_at_live:
  assumes "ch < length cs" "\<not> ch_closed (cs ! ch)"
  shows "close_at ch cs = Inr (cs[ch := (cs ! ch)\<lparr>ch_closed := True\<rparr>])"
  using assms by (simp add: close_at_def chan_close_def)

text \<open>Subscriptions that go away keep the invariant when the channels of the others stay open.\<close>

lemma bus_inv_shrink:
  assumes "bus_inv b" "\<And>ty. distinct (bus_subscribed b' ty)"
    and "\<And>ty. set (bus_subscribed b' ty) \<subseteq> set (bus_subscribed b ty)"
    and "\<And>ty ch. ch \<in> set (bus_subscribed b' ty) \<Longrightarrow> chan_live b' ch" "\<And>ty. bus_subs b' ty \<noteq> Some []"
  shows "bus_inv b'"
  using assms bus_invD(3) [OF assms(1)] unfolding bus_inv_def by blast

lemma unsubscribe_one:
  assumes "bus_inv b"
  shows "\<exists>b'. unsubscribe ty ch b = (Inr (), b') \<and> bus_inv b' \<and> bus_closed b' = bus_closed b \<and>
    bus_subscribed b' = (bus_subscribed b)(ty := remove1 ch (bus_subscribed b ty)) \<and>
    bus_inbox b' = bus_inbox b \<and>
    (ch \<in> set (bus_subscribed b ty) \<longrightarrow> ch_closed (bus_chans b' ! ch))"
proof (cases "ch \<in> set (bus_subscribed b ty)")
  case False
  then have "unsub_loop ty ch [] (map_get [] (bus_subs b) ty) b = Inr b"
    by (simp add: unsub_loop_eq bus_subscribed_def)
  moreover have "length (map_get [] (bus_subs b) ty) = 0 \<Longrightarrow>
      b\<lparr>bus_subs := (bus_subs b)(ty := None)\<rparr> = b"
    using assms by (cases "bus_subs b ty") (auto simp: bus_inv_def map_get_def fun_upd_idem)
  ultimately have "unsubscribe ty ch b = (Inr (), b)" by (simp add: unsubscribe_def)
  with False assms show ?thesis by (simp add: remove1_idem)
next
  case True
  let ?rest = "remove1 ch (bus_subscribed b ty)"
  have live: "ch < length (bus_chans b)" "\<not> ch_closed (bus_chans b ! ch)"
    using bus_invD(2) [OF assms True] by (auto simp: chan_live_def)
  let ?cs = "(bus_chans b)[ch := (bus_chans b ! ch)\<lparr>ch_closed := True\<rparr>]"
  let ?b' = "b\<lparr>bus_subs := (bus_subs b)(ty := if ?rest = [] then None else Some ?rest),
               bus_chans := ?cs\<rparr>"
  have eq: "unsubscribe ty ch b = (Inr (), ?b')"
    using True close_at_live [OF live] unsub_loop_eq(2) [of ch "bus_subscribed b ty" ty "[]" b]
    by (simp add: unsubscribe_def bus_subscribed_def)
  have subs: "bus_subscribed ?b' = (bus_subscribed b)(ty := ?rest)"
    by (auto simp: bus_subscribed_def map_get_def fun_eq_iff)
  have only: "ch \<notin> set (bus_subscribed ?b' ty')" for ty'
    using bus_invD(1,3) [OF assms] True by (auto simp: subs)
  have live': "ch' \<noteq> ch \<Longrightarrow> chan_live ?b' ch' \<longleftrightarrow> chan_live b ch'" for ch'
    by (simp add: chan_live_def)
  have sub: "set (bus_subscribed ?b' ty') \<subseteq> set (bus_subscribed b ty')" for ty'
    unfolding subs using set_remove1_subset [of ch "bus_subscribed b ty"] by simp
  have "bus_inv ?b'"
  proof (rule bus_inv_shrink [OF assms _ sub])
    fix ty' ch' assume a: "ch' \<in> set (bus_subscribed ?b' ty')"
    then have "ch' \<noteq> ch" "chan_live b ch'" using only sub bus_invD(2) [OF assms] by blast+
    then show "chan_live ?b' ch'" using live' by blast
  qed (use assms bus_invD(1) [OF assms] in \<open>auto simp: subs bus_inv_def\<close>)
  moreover have "bus_inbox ?b' = bus_inbox b"
    using live by (auto simp: bus_inbox_def nth_list_update fun_eq_iff)
  ultimately show ?thesis using eq subs live by simp
qed

interpretation eb: event_bus publish subscribe unsubscribe bus_subscribed bus_inbox bus_closed
  bus_inv subscriber_buffer
proof
  fix b :: bus and ev ty ch
  assume inv: "bus_inv b"
  show "distinct (bus_subscribed b ty)" using bus_invD(1) [OF inv] .
  show "\<exists>b'. unsubscribe ty ch b = (Inr (), b') \<and> bus_inv b' \<and> bus_closed b' = bus_closed b \<and>
      bus_subscribed b' = (bus_subscribed b)(ty := remove1 ch (bus_subscribed b ty)) \<and>
      bus_inbox b' = bus_inbox b"
    using unsubscribe_one [OF inv] by blast
  obtain ch b' where s: "subscribe ty b = (ch, b')" "bus_inv b'" "bus_closed b' = bus_closed b"
    "\<forall>ty'. ch \<notin> set (bus_subscribed b ty')" "bus_inbox b' ch = []"
    "bus_subscribed b' = (bus_subscribed b)(ty := bus_subscribed b ty @ [ch])"
    "\<forall>ch' < length (bus_chans b). bus_inbox b' ch' = bus_inbox b ch'"
    using subscribe_fresh [OF inv] by blast
  moreover have "\<forall>ty' \<in> UNIV. \<forall>ch' \<in> set (bus_subscribed b ty'). bus_inbox b' ch' = bus_inbox b ch'"
    using bus_invD(2) [OF inv] s(7) by (auto simp: chan_live_def)
  ultimately show "\<exists>ch b'. subscribe ty b = (ch, b') \<and> bus_inv b' \<and> bus_closed b' = bus_closed b \<and>
        (\<forall>ty'. ch \<notin> set (bus_subscribed b ty')) \<and> bus_inbox b' ch = [] \<and>
        bus_subscribed b' = (bus_subscribed b)(ty := bus_subscribed b ty @ [ch]) \<and>
        (\<forall>ty' \<in> UNIV. \<forall>ch' \<in> set (bus_subscribed b ty'). bus_inbox b' ch' = bus_inbox b ch')"
    by blast
  show "\<not> bus_closed b \<Longrightarrow> \<exists>b'. publish ev b = (Inr (), b') \<and> bus_inv b' \<and> \<not> bus_closed b' \<and>
      bus_subscribed b' = bus_subscribed b \<and>
      (\<forall>ch. bus_inbox b' ch = bus_inbox b ch @
         (if ch \<in> set (bus_subscribed b (ev_type ev)) \<and> length (bus_inbox b ch) < subscriber_buffer
          then [ev] else []))"
    using publish_open [OF inv] by blast
next
  fix b :: bus and ev
  assume "bus_closed b"
  then show "\<exists>e. publish ev b = (Inl e, b) \<and> \<not> is_panic e"
    by (simp add: publish_def err_bus_closed_def)
qed

subsection \<open>Close\<close>

lemma close_all_live:
  assumes "distinct chs" "\<And>ch. ch \<in> set chs \<Longrightarrow> ch < length cs \<and> \<not> ch_closed (cs ! ch)"
  shows "\<exists>cs'. close_all chs cs = Inr cs' \<and> length cs' = length cs \<and>
    (\<forall>ch < length cs. cs' ! ch = (if ch \<in> set chs then (cs ! ch)\<lparr>ch_closed := True\<rparr> else cs ! ch))"
  using assms
proof (induction chs arbitrary: cs)
  case (Cons ch chs)
  let ?cs1 = "cs[ch := (cs ! ch)\<lparr>ch_closed := True\<rparr>]"
  have live: "ch < length cs" "\<not> ch_closed (cs ! ch)" using Cons.prems(2) by auto
  have "ch' \<in> set chs \<Longrightarrow> ch' < length ?cs1 \<and> \<not> ch_closed (?cs1 ! ch')" for ch'
    using Cons.prems by (cases "ch' = ch") auto
  from Cons.IH [OF _ this] Cons.prems(1) obtain cs' where
    cs': "close_all chs ?cs1 = Inr cs'" "length cs' = length cs"
    "\<And>ch. ch < length cs \<Longrightarrow>
       cs' ! ch = (if ch \<in> set chs then (?cs1 ! ch)\<lparr>ch_closed := True\<rparr> else ?cs1 ! ch)" by auto
  have "cs' ! ch' = (if ch' \<in> set (ch # chs) then (cs ! ch')\<lparr>ch_closed := True\<rparr> else cs ! ch')"
    if "ch' < length cs" for ch'
    using cs'(3) [OF that] Cons.prems(1) live by (cases "ch' = ch") auto
  with cs'(1,2) close_at_live [OF live] show ?case by auto
qed simp

text \<open>One round of the loop of \<open>Close\<close>.\<close>

lemma close_type_live:
  assumes "bus_inv b"
  obtains cs where "close_all (bus_subscribed b ty) (bus_chans b) = Inr cs" "length cs = length (bus_chans b)"
    "bus_inv (b\<lparr>bus_chans := cs, bus_subs := (bus_subs b)(ty := None)\<rparr>)"
    "bus_inbox (b\<lparr>bus_chans := cs, bus_subs := (bus_subs b)(ty := None)\<rparr>) = bus_inbox b"
    "\<And>ch. ch < length (bus_chans b) \<Longrightarrow> ch_closed (cs ! ch) \<longleftrightarrow> ch_closed (bus_chans b ! ch) \<or> ch \<in> set (bus_subscribed b ty)"
    "\<And>ch. ch \<in> set (bus_subscribed b ty) \<Longrightarrow> ch < length cs"
proof -
  let ?chs = "bus_subscribed b ty"
  have live: "ch \<in> set ?chs \<Longrightarrow> ch < length (bus_chans b) \<and> \<not> ch_closed (bus_chans b ! ch)" for ch
    using bus_invD(2) [OF assms] by (auto simp: chan_live_def)
  from close_all_live [OF bus_invD(1) [OF assms] live, of ty] obtain cs where
    cs: "close_all ?chs (bus_chans b) = Inr cs" "length cs = length (bus_chans b)"
    "\<And>ch. ch < length (bus_chans b) \<Longrightarrow> cs ! ch =
       (if ch \<in> set ?chs then (bus_chans b ! ch)\<lparr>ch_closed := True\<rparr> else bus_chans b ! ch)"
    by blast
  let ?b1 = "b\<lparr>bus_chans := cs, bus_subs := (bus_subs b)(ty := None)\<rparr>"
  have subs: "bus_subscribed ?b1 = (bus_subscribed b)(ty := [])"
    by (auto simp: bus_subscribed_def map_get_def fun_eq_iff)
  have "bus_inv ?b1"
  proof (rule bus_inv_shrink [OF assms])
    fix ty1 ch assume "ch \<in> set (bus_subscribed ?b1 ty1)"
    then have "ty1 \<noteq> ty" "ch \<in> set (bus_subscribed b ty1)" by (auto simp: subs split: if_splits)
    with bus_invD(2,3) [OF assms] have "chan_live b ch" "ch \<notin> set ?chs" by blast+
    with cs(2) cs(3) [of ch] show "chan_live ?b1 ch" by (auto simp: chan_live_def)
  qed (use assms bus_invD(1) [OF assms] in \<open>auto simp: subs bus_inv_def\<close>)
  moreover have "bus_inbox ?b1 = bus_inbox b" using cs(2,3) by (auto simp: bus_inbox_def fun_eq_iff)
  ultimately show thesis using cs live by (intro that [of cs]) auto
qed

lemma close_types_live:
  assumes "bus_inv b" "distinct tys"
  shows "\<exists>b'. close_types tys b = Inr b' \<and> bus_inv b' \<and> bus_closed b' = bus_closed b \<and>
    (\<forall>ty. bus_subs b' ty = (if ty \<in> set tys then None else bus_subs b ty)) \<and>
    bus_inbox b' = bus_inbox b \<and>
    (\<forall>ty \<in> set tys. \<forall>ch \<in> set (bus_subscribed b ty). ch_closed (bus_chans b' ! ch)) \<and>
    (\<forall>ch < length (bus_chans b). ch_closed (bus_chans b ! ch) \<longrightarrow> ch_closed (bus_chans b' ! ch)) \<and>
    length (bus_chans b') = length (bus_chans b)"
  using assms
proof (induction tys arbitrary: b)
  case (Cons ty tys)
  obtain cs where cs: "close_all (bus_subscribed b ty) (bus_chans b) = Inr cs" "length cs = length (bus_chans b)"
    "bus_inv (b\<lparr>bus_chans := cs, bus_subs := (bus_subs b)(ty := None)\<rparr>)"
    "bus_inbox (b\<lparr>bus_chans := cs, bus_subs := (bus_subs b)(ty := None)\<rparr>) = bus_inbox b"
    "\<And>ch. ch < length (bus_chans b) \<Longrightarrow> ch_closed (cs ! ch) \<longleftrightarrow> ch_closed (bus_chans b ! ch) \<or> ch \<in> set (bus_subscribed b ty)"
    "\<And>ch. ch \<in> set (bus_subscribed b ty) \<Longrightarrow> ch < length cs"
    using close_type_live [OF Cons.prems(1)] by blast
  let ?b1 = "b\<lparr>bus_chans := cs, bus_subs := (bus_subs b)(ty := None)\<rparr>"
  have subs: "bus_subscribed ?b1 ty1 = (if ty1 = ty then [] else bus_subscribed b ty1)" for ty1
    by (simp add: bus_subscribed_def map_get_def)
  from Cons.IH [OF cs(3)] Cons.prems(2) obtain b' where b': "close_types tys ?b1 = Inr b'"
    "bus_inv b'" "bus_closed b' = bus_closed b"
    "\<And>ty. bus_subs b' ty = (if ty \<in> set tys then None else bus_subs ?b1 ty)"
    "bus_inbox b' = bus_inbox b"
    "\<And>ty ch. ty \<in> set tys \<Longrightarrow> ch \<in> set (bus_subscribed ?b1 ty) \<Longrightarrow> ch_closed (bus_chans b' ! ch)"
    "\<And>ch. ch < length cs \<Longrightarrow> ch_closed (cs ! ch) \<Longrightarrow> ch_closed (bus_chans b' ! ch)"
    "length (bus_chans b') = length cs" by (auto simp: cs(4))
  have "ch_closed (bus_chans b' ! ch)" if "ty' \<in> set (ty # tys)" "ch \<in> set (bus_subscribed b ty')" for ty' ch
    using that b'(6) [of ty' ch] b'(7) [of ch] cs(2) cs(5) [of ch] cs(6) [of ch] by (cases "ty' = ty") (auto simp: subs)
  moreover have "close_types (ty # tys) b = Inr b'" using cs(1) b'(1) by (simp add: bus_subscribed_def)
  moreover have "bus_subs b' ty1 = (if ty1 \<in> set (ty # tys) then None else bus_subs b ty1)" for ty1
    by (simp add: b'(4))
  ultimately show ?case using b'(2,3,5,7,8) cs(2,5) by (intro exI [of _ b']) auto
qed simp

section \<open>Properties\<close>

text \<open>
  C28. Publishing never blocks, never panics and never reorders. After a subscriber has joined an
  open bus every \<open>Publish\<close> returns without an error, whatever was published before and however
  full the buffers are; and the subscriber gets exactly the events of its type published since,
  in order, up to its 64-slot buffer: the rest are dropped for it.
\<close>

theorem subscriber_receives:
  assumes "bus_inv b" "\<not> bus_closed b" "subscribe ty b = (ch, b1)"
  shows "fst (publish ev (fold (\<lambda>ev b. snd (publish ev b)) evs b1)) = Inr () \<and>
    bus_inbox (fold (\<lambda>ev b. snd (publish ev b)) evs b1) ch = take 64 (filter (\<lambda>ev. ev_type ev = ty) evs)"
  using eb.sub_pub_next [OF assms, of ev evs] eb.sub_then_burst [OF assms, of evs] by (simp add: subscriber_buffer_def)

definition sample_events :: "bus_event list" where
  "sample_events =
     [\<lparr>ev_type = ''agent.completed'', ev_payload = ''1'', ev_trace = ''t'', ev_time = 1\<rparr>,
      \<lparr>ev_type = ''memory.stored'', ev_payload = ''2'', ev_trace = ''t'', ev_time = 2\<rparr>,
      \<lparr>ev_type = ''agent.completed'', ev_payload = ''3'', ev_trace = ''t'', ev_time = 3\<rparr>]"

theorem subscriber_receives_witness:
  "map ev_payload (bus_inbox (fold (\<lambda>ev b. snd (publish ev b)) sample_events
     (snd (subscribe ''agent.completed'' new_bus))) 0) = [''1'', ''3''] \<and>
   fst (publish (sample_events ! 0) (fold (\<lambda>ev b. snd (publish ev b)) (replicate 100 (sample_events ! 0))
     (snd (subscribe ''agent.completed'' new_bus)))) = Inr ()"
proof -
  have "subscribe ''agent.completed'' new_bus = (0, snd (subscribe ''agent.completed'' new_bus))"
    by (simp add: subscribe_def new_bus_def)
  note two = subscriber_receives [OF _ _ this]
  from two [of _ sample_events] have "map ev_payload (bus_inbox (fold (\<lambda>ev b. snd (publish ev b)) sample_events
     (snd (subscribe ''agent.completed'' new_bus))) 0) = [''1'', ''3'']" by (simp add: sample_events_def)
  with two [of "sample_events ! 0" "replicate 100 (sample_events ! 0)"] show ?thesis by simp
qed

text \<open>What clients may do to a bus: any operation, any number of times, in any order.\<close>

datatype bus_op =
    Op_Publish bus_event
  | Op_Subscribe string
  | Op_Unsubscribe string ref
  | Op_Recv ref
  | Op_Close "string list"

fun bus_exec :: "bus_op \<Rightarrow> bus \<Rightarrow> unit result \<times> bus" where
  "bus_exec (Op_Publish ev) b = publish ev b"
| "bus_exec (Op_Subscribe ty) b = (Inr (), snd (subscribe ty b))"
| "bus_exec (Op_Unsubscribe ty ch) b = unsubscribe ty ch b"
| "bus_exec (Op_Recv ch) b =
     (case bus_recv ch b of (Panicked m, b') \<Rightarrow> (Inl (Panic m), b') | (_, b') \<Rightarrow> (Inr (), b'))"
| "bus_exec (Op_Close tys) b = bus_close tys b"

text \<open>A client reads only channels it was given; \<open>Close\<close> ranges over the keys there are.\<close>

fun bus_may :: "bus_op \<Rightarrow> bus \<Rightarrow> bool" where
  "bus_may (Op_Recv ch) b = (ch < length (bus_chans b))"
| "bus_may (Op_Close tys) b = key_order (bus_subs b) tys"
| "bus_may _ b = True"

inductive bus_reach :: "bus \<Rightarrow> bool" where
  init: "bus_reach new_bus"
| step: "bus_reach b \<Longrightarrow> bus_may op b \<Longrightarrow> bus_exec op b = (res, b') \<Longrightarrow> bus_reach b'"

lemma bus_recv_inv:
  assumes "bus_inv b" "ch < length (bus_chans b)" "bus_recv ch b = (v, b')"
  shows "bus_inv b' \<and> (\<forall>m. v \<noteq> Panicked m) \<and> bus_closed b' = bus_closed b"
proof (cases "chan_recv (bus_chans b ! ch)")
  case (Done vc)
  obtain w c where vc: "vc = (w, c)" by force
  let ?b' = "b\<lparr>bus_chans := (bus_chans b)[ch := c]\<rparr>"
  from Done vc have c: "ch_closed c = ch_closed (bus_chans b ! ch)" "ch_cap c = ch_cap (bus_chans b ! ch)"
    by (auto simp: chan_recv_def split: list.splits if_splits)
  have "chan_live ?b' ch' \<longleftrightarrow> chan_live b ch'" for ch'
    using c assms(2) by (cases "ch' = ch") (auto simp: chan_live_def)
  moreover have "bus_subscribed ?b' = bus_subscribed b" by (simp add: bus_subscribed_def fun_eq_iff)
  ultimately have "bus_inv ?b'" using assms(1) by (simp add: bus_inv_def)
  with Done vc assms(3) show ?thesis by (auto simp: bus_recv_def)
next
  case Blocked
  with assms show ?thesis by (auto simp: bus_recv_def)
next
  case (Panicked m)
  then show ?thesis by (simp add: chan_recv_not_panicked)
qed

lemma bus_close_ok:
  assumes "bus_inv b" "key_order (bus_subs b) tys"
  shows "\<exists>b'. bus_close tys b = (Inr (), b') \<and> bus_inv b' \<and> bus_closed b' \<and>
    bus_subs b' = Map.empty \<and> bus_inbox b' = bus_inbox b \<and>
    (\<forall>ty. \<forall>ch \<in> set (bus_subscribed b ty). ch_closed (bus_chans b' ! ch))"
proof -
  have keys: "distinct tys" "set tys = dom (bus_subs b)" using assms(2) by (auto simp: key_order_def)
  from close_types_live [OF assms(1) keys(1)] obtain b' where b': "close_types tys b = Inr b'"
    "bus_inv b'" "\<And>ty. bus_subs b' ty = (if ty \<in> set tys then None else bus_subs b ty)"
    "bus_inbox b' = bus_inbox b"
    "\<And>ty ch. ty \<in> set tys \<Longrightarrow> ch \<in> set (bus_subscribed b ty) \<Longrightarrow> ch_closed (bus_chans b' ! ch)"
    by blast
  let ?b = "b'\<lparr>bus_closed := True\<rparr>"
  have "bus_subs b' = Map.empty" using b'(3) keys(2) by (auto simp: fun_eq_iff)
  moreover have "ty \<in> set tys" if "ch \<in> set (bus_subscribed b ty)" for ch ty
    using that keys(2) by (cases "bus_subs b ty") (auto simp: bus_subscribed_def map_get_def)
  moreover have "bus_inv ?b" using b'(2) by (simp add: bus_inv_def bus_subscribed_def chan_live_def)
  moreover have "bus_inbox ?b = bus_inbox b" unfolding b'(4) [symmetric] by (simp add: bus_inbox_def fun_eq_iff)
  ultimately show ?thesis using b'(1,5) by (auto simp: bus_close_def)
qed

lemma bus_exec_inv:
  assumes "bus_inv b" "bus_may op b" "bus_exec op b = (res, b')"
  shows "bus_inv b' \<and> (\<forall>e. res = Inl e \<longrightarrow> \<not> is_panic e)"
proof (cases op)
  case (Op_Publish ev)
  show ?thesis
  proof (cases "bus_closed b")
    case True
    with eb.pub_closed [OF True, of ev] assms Op_Publish show ?thesis by auto
  next
    case False
    with eb.pub_open [OF assms(1) False, of ev] assms Op_Publish show ?thesis by auto
  qed
next
  case (Op_Subscribe ty)
  with subscribe_fresh [OF assms(1), of ty] assms show ?thesis by auto
next
  case (Op_Unsubscribe ty ch)
  with eb.unsub_one [OF assms(1), of ty ch] assms show ?thesis by auto
next
  case (Op_Recv ch)
  obtain v b1 where "bus_recv ch b = (v, b1)" by force
  with bus_recv_inv [OF assms(1) _ this] assms Op_Recv show ?thesis by (auto split: attempt.splits)
next
  case (Op_Close tys)
  with bus_close_ok [OF assms(1), of tys] assms show ?thesis by auto
qed

lemma bus_reach_inv: "bus_reach b \<Longrightarrow> bus_inv b"
  by (induction rule: bus_reach.induct) (use bus_exec_inv in auto)

text \<open>
  C12. Whatever clients do to a bus (publish, subscribe, unsubscribe any channel any number of
  times, read, close at any time and again), the next operation does not panic on a closed
  channel, and every registered channel stays open, registered once and under one type.
\<close>

theorem bus_never_panics:
  assumes "bus_reach b" "bus_may op b" "bus_exec op b = (res, b')"
  shows "(\<forall>e. res = Inl e \<longrightarrow> \<not> is_panic e) \<and>
    (\<forall>ty. distinct (bus_subscribed b' ty) \<and>
       (\<forall>ch \<in> set (bus_subscribed b' ty). \<not> ch_closed (bus_chans b' ! ch))) \<and>
    (\<forall>ty ty'. ty \<noteq> ty' \<longrightarrow> set (bus_subscribed b' ty) \<inter> set (bus_subscribed b' ty') = {})"
  using bus_exec_inv [OF bus_reach_inv [OF assms(1)] assms(2,3)]
  by (auto simp: bus_inv_def chan_live_def)

definition used_bus :: bus where
  "used_bus = snd (unsubscribe ''a'' 0 (snd (subscribe ''a'' new_bus)))"

theorem bus_never_panics_witness:
  "bus_reach used_bus \<and> (case fst (bus_exec (Op_Unsubscribe ''a'' 0) used_bus) of Inl e \<Rightarrow> \<not> is_panic e | Inr _ \<Rightarrow> True)"
proof -
  have "bus_reach (snd (subscribe ''a'' new_bus))"
    by (rule bus_reach.step [OF bus_reach.init, of "Op_Subscribe ''a''"]) simp_all
  then have r: "bus_reach used_bus"
    unfolding used_bus_def
    by (rule bus_reach.step [of _ "Op_Unsubscribe ''a'' 0"]) (simp_all add: prod_eq_iff)
  obtain res b' where "bus_exec (Op_Unsubscribe ''a'' 0) used_bus = (res, b')" by force
  with bus_never_panics [OF r _ this] r show ?thesis by (simp split: sum.split)
qed

text \<open>
  \<open>Close\<close> closes the channel of every subscriber without losing what is buffered, and
  from then on every publish is refused. A channel subscribed afterwards is open, stays so
  however the bus is used short of closing it again, and never carries an event.
\<close>

theorem bus_close_effect:
  assumes "bus_reach b" "key_order (bus_subs b) tys" "bus_close tys b = (res, b')"
    and "subscribe ty b' = (ch, b1)"
  shows "res = Inr () \<and>
    (\<forall>ty ch'. ch' \<in> set (bus_subscribed b ty) \<longrightarrow>
       ch_closed (bus_chans b' ! ch') \<and> bus_inbox b' ch' = bus_inbox b ch') \<and>
    (\<forall>ev. publish ev b' = (Inl err_bus_closed, b')) \<and>
    \<not> ch_closed (bus_chans b1 ! ch) \<and> (\<forall>ev. publish ev b1 = (Inl err_bus_closed, b1))"
proof -
  from bus_close_ok [OF bus_reach_inv [OF assms(1)] assms(2)] assms(3) have b': "res = Inr ()"
    "bus_inv b'" "bus_closed b'" "bus_inbox b' = bus_inbox b"
    "\<forall>ty. \<forall>ch \<in> set (bus_subscribed b ty). ch_closed (bus_chans b' ! ch)" by auto
  have b1: "bus_closed b1" "\<not> ch_closed (bus_chans b1 ! ch)"
    using assms(4) b'(3) by (auto simp: subscribe_def Let_def)
  have "publish ev b' = (Inl err_bus_closed, b')" "publish ev b1 = (Inl err_bus_closed, b1)" for ev
    using b'(3) b1(1) by (simp_all add: publish_def)
  with b' b1 show ?thesis by auto
qed

theorem bus_close_effect_witness:
  "\<exists>res b'. bus_close [''a''] (snd (subscribe ''a'' new_bus)) = (res, b') \<and> res = Inr () \<and>
     ch_closed (bus_chans b' ! 0)"
proof -
  let ?b = "snd (subscribe ''a'' new_bus)"
  have r: "bus_reach ?b"
    by (rule bus_reach.step [OF bus_reach.init, of "Op_Subscribe ''a''"]) simp_all
  have k: "key_order (bus_subs ?b) [''a'']"
    by (simp add: key_order_def subscribe_def Let_def new_bus_def)
  have s: "0 \<in> set (bus_subscribed ?b ''a'')"
    by (simp add: subscribe_def Let_def new_bus_def bus_subscribed_def)
  obtain res b' where c: "bus_close [''a''] ?b = (res, b')" by force
  obtain ch b1 where "subscribe [] b' = (ch, b1)" by force
  from bus_close_effect [OF r k c this] s c show ?thesis by blast
qed

end
