(* ===== verification/Job.thy ===== *)
theory Job
  imports Prelude
begin

text \<open>Jobs of the execution plane (\<open>internal/execution/job.go\<close>).\<close>

datatype job_state = JobPending | JobRunning | JobCompleted | JobFailed | JobRetrying

record job =
  job_id :: string
  job_type :: string
  job_payload :: raw
  job_state :: job_state
  job_result :: raw
  job_error :: string
  attempts :: int
  max_attempts :: int
  created_at :: time
  started_at :: time
  finished_at :: time
  run_after :: time

datatype job_option = WithMaxAttempts int | WithRunAfter time | WithResult raw

fun apply_job_option :: "job_option \<Rightarrow> job \<Rightarrow> job" where
  "apply_job_option (WithMaxAttempts n) j = j\<lparr>max_attempts := n\<rparr>"
| "apply_job_option (WithRunAfter t) j = j\<lparr>run_after := t\<rparr>"
| "apply_job_option (WithResult r) j = j\<lparr>job_result := r\<rparr>"

text \<open>\<open>uuid\<close> is the identifier \<open>uuid.New\<close> returns and \<open>now\<close> the reading of the clock.\<close>

definition new_job :: "string \<Rightarrow> time \<Rightarrow> string \<Rightarrow> raw \<Rightarrow> job_option list \<Rightarrow> job" where
  "new_job uuid now ty payload opts =
     fold apply_job_option opts
       \<lparr>job_id = uuid, job_type = ty, job_payload = payload, job_state = JobPending,
        job_result = [], job_error = [], attempts = 0, max_attempts = 3, created_at = now,
        started_at = zero_time, finished_at = zero_time, run_after = zero_time\<rparr>"

definition terminal :: "job_state \<Rightarrow> bool" where
  "terminal st \<longleftrightarrow> st = JobCompleted \<or> st = JobFailed"

text \<open>A job as a client hands it over: never attempted.\<close>

definition fresh_job :: "job \<Rightarrow> bool" where
  "fresh_job j \<longleftrightarrow> job_state j = JobPending \<and> attempts j = 0"

lemma apply_job_option_frame [simp]:
  "job_id (apply_job_option opt j) = job_id j"
  "job_state (apply_job_option opt j) = job_state j"
  "attempts (apply_job_option opt j) = attempts j"
  by (cases opt; simp)+

lemma fold_job_option_frame [simp]:
  "job_id (fold apply_job_option opts j) = job_id j"
  "job_state (fold apply_job_option opts j) = job_state j"
  "attempts (fold apply_job_option opts j) = attempts j"
  by (induction opts arbitrary: j) auto

lemma new_job_fresh [simp]: "fresh_job (new_job uuid now ty payload opts)"
  by (simp add: fresh_job_def new_job_def)

lemma new_job_id [simp]: "job_id (new_job uuid now ty payload opts) = uuid"
  by (simp add: new_job_def)

text \<open>The last option of a kind wins, as the options are applied in order.\<close>

lemma new_job_max_attempts:
  "max_attempts (new_job uuid now ty payload (opts @ [WithMaxAttempts n])) = n"
  by (simp add: new_job_def)

lemma terminal_simps [simp]:
  "terminal JobCompleted" "terminal JobFailed"
  "\<not> terminal JobPending" "\<not> terminal JobRunning" "\<not> terminal JobRetrying"
  by (simp_all add: terminal_def)

end
