(* ===== verification/Job_Queue.thy ===== *)
theory Job_Queue
  imports Go_Chan
begin

text \<open>
  The job queue (\<open>internal/execution/queue.go\<close>). The locale \<open>job_queue\<close> is the contract
  of the \<open>Queue\<close> interface: a bounded FIFO of job pointers that can be closed.
  \<open>InMemoryQueue\<close> implements it over a buffered channel; its \<open>closed\<close> flag guards the
  channel so that no operation of the queue panics.
\<close>

section \<open>The Queue interface\<close>

locale job_queue =
  fixes enq :: "'q \<Rightarrow> ref \<Rightarrow> 'q result"
    and deq :: "'q \<Rightarrow> ref option result \<times> 'q"
    and close :: "'q \<Rightarrow> 'q result"
    and sz :: "'q \<Rightarrow> nat"
    and items :: "'q \<Rightarrow> ref list"
    and closed :: "'q \<Rightarrow> bool"
    and inv :: "'q \<Rightarrow> bool"
    and capacity :: nat
  assumes enq_accept: "inv q \<Longrightarrow> \<not> closed q \<Longrightarrow> length (items q) < capacity \<Longrightarrow>
      \<exists>q'. enq q r = Inr q' \<and> inv q' \<and> items q' = items q @ [r] \<and> \<not> closed q'"
    and enq_reject: "inv q \<Longrightarrow> closed q \<or> capacity \<le> length (items q) \<Longrightarrow>
      \<exists>e. enq q r = Inl e \<and> \<not> is_panic e"
    and deq_next: "inv q \<Longrightarrow> items q = r # rs \<Longrightarrow>
      \<exists>q'. deq q = (Inr (Some r), q') \<and> inv q' \<and> items q' = rs \<and> closed q' = closed q"
    and deq_empty: "inv q \<Longrightarrow> items q = [] \<Longrightarrow> \<not> closed q \<Longrightarrow> deq q = (Inr None, q)"
    and deq_closed: "inv q \<Longrightarrow> items q = [] \<Longrightarrow> closed q \<Longrightarrow>
      \<exists>e. deq q = (Inl e, q) \<and> \<not> is_panic e"
    and close_ok: "inv q \<Longrightarrow>
      \<exists>q'. close q = Inr q' \<and> inv q' \<and> items q' = items q \<and> closed q'"
    and sz_items: "inv q \<Longrightarrow> sz q = length (items q)"
    and items_bound: "inv q \<Longrightarrow> length (items q) \<le> capacity"
begin

lemma enqD:
  assumes "inv q" "enq q r = Inr q'"
  shows "inv q'" "items q' = items q @ [r]" "\<not> closed q'" "\<not> closed q"
    "length (items q) < capacity"
proof -
  have "\<not> (closed q \<or> capacity \<le> length (items q))"
    using enq_reject [of q r] assms by auto
  then show "\<not> closed q" "length (items q) < capacity" by auto
  then show "inv q'" "items q' = items q @ [r]" "\<not> closed q'"
    using enq_accept [of q r] assms by auto
qed

lemma enq_Inl_iff:
  "inv q \<Longrightarrow> (\<exists>e. enq q r = Inl e) \<longleftrightarrow> closed q \<or> capacity \<le> length (items q)"
  using enq_accept [of q r] enq_reject [of q r] by (cases "enq q r") fastforce+

lemma enq_no_panic: "inv q \<Longrightarrow> enq q r = Inl e \<Longrightarrow> \<not> is_panic e"
  by (metis enq_Inl_iff enq_reject sum.inject(1))

lemma deqD:
  assumes "inv q" "deq q = (res, q')"
  shows "inv q'" "closed q' = closed q"
    "res = Inr (Some r) \<Longrightarrow> items q = r # items q'"
    "res \<noteq> Inr (Some r) \<Longrightarrow> (\<forall>r. res \<noteq> Inr (Some r)) \<Longrightarrow> q' = q \<and> items q = []"
  using assms deq_next deq_empty deq_closed
  by (cases "items q"; cases "closed q"; fastforce)+

lemma deq_no_panic: "inv q \<Longrightarrow> deq q = (Inl e, q') \<Longrightarrow> \<not> is_panic e"
  by (cases "items q"; cases "closed q"; use deq_next deq_empty deq_closed in fastforce)

text \<open>Enqueuing a batch and dropping the errors, as the scheduler does with due jobs.\<close>

lemma enq_batch:
  fixes rs :: "ref list"
  assumes "inv q" "\<not> closed q"
  defines "q' \<equiv> fold (\<lambda>r q. case enq q r of Inl _ \<Rightarrow> q | Inr q' \<Rightarrow> q') rs q"
  shows "inv q' \<and> \<not> closed q' \<and> items q' = items q @ take (capacity - length (items q)) rs"
  using assms(1,2) unfolding q'_def
proof (induction rs arbitrary: q)
  case Nil
  then show ?case by simp
next
  case (Cons r rs)
  show ?case
  proof (cases "length (items q) < capacity")
    case True
    then obtain q1 where q1: "enq q r = Inr q1" "inv q1" "items q1 = items q @ [r]" "\<not> closed q1"
      using enq_accept Cons.prems by blast
    from True have "capacity - length (items q) = Suc (capacity - length (items q1))"
      by (simp add: q1)
    with Cons.IH [OF q1(2,4)] q1 show ?thesis by simp
  next
    case False
    then obtain e where "enq q r = Inl e"
      using enq_reject Cons.prems by (metis linorder_not_less)
    with False Cons.IH [OF Cons.prems] show ?thesis by simp
  qed
qed

end

section \<open>The in-memory queue\<close>

record mem_queue =
  mq_ch :: "ref gochan"
  mq_closed :: bool

definition queue_capacity :: nat where
  "queue_capacity = 1024"

definition new_mem_queue :: mem_queue where
  "new_mem_queue = \<lparr>mq_ch = make_chan queue_capacity, mq_closed = False\<rparr>"

definition enqueue :: "mem_queue \<Rightarrow> ref \<Rightarrow> mem_queue result" where
  "enqueue q r =
     (if mq_closed q then Inl (Errf ''queue is closed'' [])
      else case chan_send (mq_ch q) r of
             Done c \<Rightarrow> Inr (q\<lparr>mq_ch := c\<rparr>)
           | Blocked \<Rightarrow> Inl (Errf ''queue is full'' [])
           | Panicked m \<Rightarrow> Inl (Panic m))"

text \<open>\<open>Inr None\<close> is the \<open>nil, nil\<close> an empty queue answers.\<close>

definition dequeue :: "mem_queue \<Rightarrow> ref option result \<times> mem_queue" where
  "dequeue q =
     (case chan_recv (mq_ch q) of
        Done (Some r, c) \<Rightarrow> (Inr (Some r), q\<lparr>mq_ch := c\<rparr>)
      | Done (None, c) \<Rightarrow> (Inl (Errf ''queue is closed'' []), q\<lparr>mq_ch := c\<rparr>)
      | Blocked \<Rightarrow> (Inr None, q)
      | Panicked m \<Rightarrow> (Inl (Panic m), q))"

definition queue_ack :: "mem_queue \<Rightarrow> string \<Rightarrow> unit result" where
  "queue_ack q jid = Inr ()"

definition queue_nack :: "mem_queue \<Rightarrow> string \<Rightarrow> unit result" where
  "queue_nack q jid = Inr ()"

definition queue_size :: "mem_queue \<Rightarrow> nat" where
  "queue_size q = length (ch_buf (mq_ch q))"

definition queue_close :: "mem_queue \<Rightarrow> mem_queue result" where
  "queue_close q =
     (if mq_closed q then Inr q
      else case chan_close (mq_ch q) of
             Done c \<Rightarrow> Inr (q\<lparr>mq_ch := c, mq_closed := True\<rparr>)
           | Blocked \<Rightarrow> Inr q
           | Panicked m \<Rightarrow> Inl (Panic m))"

definition queue_items :: "mem_queue \<Rightarrow> ref list" where
  "queue_items q = ch_buf (mq_ch q)"

text \<open>The representation invariant: the flag tells the truth about the channel.\<close>

definition mem_queue_inv :: "mem_queue \<Rightarrow> bool" where
  "mem_queue_inv q \<longleftrightarrow>
     mq_closed q = ch_closed (mq_ch q) \<and> ch_cap (mq_ch q) = queue_capacity \<and> chan_ok (mq_ch q)"

lemmas mem_queue_defs = enqueue_def dequeue_def queue_size_def queue_close_def
  queue_items_def mem_queue_inv_def chan_send_def chan_recv_def chan_close_def chan_ok_def

lemma new_mem_queue_simps [simp]:
  "mem_queue_inv new_mem_queue" "queue_items new_mem_queue = []" "\<not> mq_closed new_mem_queue"
  by (simp_all add: new_mem_queue_def mem_queue_inv_def queue_items_def)

interpretation mq: job_queue enqueue dequeue queue_close queue_size queue_items mq_closed
    mem_queue_inv queue_capacity
proof (unfold_locales, goal_cases)
  case (3 q r rs)
  then show ?case by (auto simp: mem_queue_defs)
next
  case (6 q)
  then show ?case by (cases "mq_closed q") (auto simp: mem_queue_defs)
qed (auto simp: mem_queue_defs split: list.splits)

end
