(* ===== verification/Scheduler.thy ===== *)
theory Scheduler
  imports Job Job_Queue
begin

text \<open>
  The scheduler (\<open>internal/execution/scheduler.go\<close>): due jobs go to the queue at once,
  the others wait in \<open>pending\<close> until a tick of the background loop flushes them. Its
  operations take the \<open>Enqueue\<close> of whatever queue they are given, as the code does, and
  the heap \<open>h\<close> of jobs their pointers refer to.
\<close>

record 'q scheduler =
  sch_queue :: 'q
  sch_pending :: "ref list"

definition new_scheduler :: "'q \<Rightarrow> 'q scheduler" where
  "new_scheduler q = \<lparr>sch_queue = q, sch_pending = []\<rparr>"

text \<open>\<open>!now.Before(job.RunAfter)\<close>.\<close>

definition due :: "(ref \<Rightarrow> job) \<Rightarrow> time \<Rightarrow> ref \<Rightarrow> bool" where
  "due h now r \<longleftrightarrow> \<not> now < run_after (h r)"

definition schedule ::
  "('q \<Rightarrow> ref \<Rightarrow> 'q result) \<Rightarrow> (ref \<Rightarrow> job) \<Rightarrow> time \<Rightarrow> ref \<Rightarrow> 'q scheduler \<Rightarrow>
    'q scheduler result" where
  "schedule enq h now r s =
     (if run_after (h r) = zero_time \<or> due h now r
      then (case enq (sch_queue s) r of Inl e \<Rightarrow> Inl e | Inr q \<Rightarrow> Inr (s\<lparr>sch_queue := q\<rparr>))
      else Inr (s\<lparr>sch_pending := sch_pending s @ [r]\<rparr>))"

text \<open>
  \<open>flush\<close> takes the due jobs out of \<open>pending\<close> under the scheduler's lock and enqueues
  them one by one after releasing it, ignoring the errors of \<open>Enqueue\<close>.
\<close>

definition flush_take :: "(ref \<Rightarrow> job) \<Rightarrow> time \<Rightarrow> 'q scheduler \<Rightarrow> ref list \<times> 'q scheduler" where
  "flush_take h now s =
     (filter (due h now) (sch_pending s),
      s\<lparr>sch_pending := filter (\<lambda>r. \<not> due h now r) (sch_pending s)\<rparr>)"

definition flush_push :: "('q \<Rightarrow> ref \<Rightarrow> 'q result) \<Rightarrow> ref \<Rightarrow> 'q scheduler \<Rightarrow> 'q scheduler" where
  "flush_push enq r s =
     (case enq (sch_queue s) r of Inl _ \<Rightarrow> s | Inr q \<Rightarrow> s\<lparr>sch_queue := q\<rparr>)"

definition flush ::
  "('q \<Rightarrow> ref \<Rightarrow> 'q result) \<Rightarrow> (ref \<Rightarrow> job) \<Rightarrow> time \<Rightarrow> 'q scheduler \<Rightarrow> 'q scheduler" where
  "flush enq h now s =
     (let (ready, s') = flush_take h now s in fold (flush_push enq) ready s')"

lemma fold_flush_push:
  "fold (flush_push enq) rs s =
     s\<lparr>sch_queue := fold (\<lambda>r q. case enq q r of Inl _ \<Rightarrow> q | Inr q' \<Rightarrow> q') rs (sch_queue s)\<rparr>"
  by (induction rs arbitrary: s) (auto simp: flush_push_def split: sum.splits)

lemma flush_take_mset:
  "flush_take h now s = (ready, s') \<Longrightarrow>
     mset ready + mset (sch_pending s') = mset (sch_pending s)"
  by (auto simp: flush_take_def mset_partition)

section \<open>The scheduler over any queue that keeps the contract\<close>

context job_queue
begin

text \<open>A job is never delivered early, and scheduling loses no job it does not report.\<close>

lemma schedule_cases:
  assumes "inv (sch_queue s)" "schedule enq h now r s = Inr s'"
  shows "inv (sch_queue s') \<and>
    (if now < run_after (h r) \<and> run_after (h r) \<noteq> zero_time
     then sch_pending s' = sch_pending s @ [r] \<and> sch_queue s' = sch_queue s
     else sch_pending s' = sch_pending s \<and> items (sch_queue s') = items (sch_queue s) @ [r])"
  using assms enqD [of "sch_queue s" r]
  by (auto simp: schedule_def due_def split: if_splits sum.splits)

lemma flush_spec:
  fixes h :: "ref \<Rightarrow> job" and now :: time
  assumes "inv (sch_queue s)" "\<not> closed (sch_queue s)"
  defines "s' \<equiv> flush enq h now s"
  shows "inv (sch_queue s') \<and> \<not> closed (sch_queue s') \<and>
    sch_pending s' = filter (\<lambda>r. now < run_after (h r)) (sch_pending s) \<and>
    items (sch_queue s') = items (sch_queue s) @
      take (capacity - length (items (sch_queue s))) (filter (due h now) (sch_pending s))"
  using enq_batch [OF assms(1,2), of "filter (due h now) (sch_pending s)"]
  by (auto simp: s'_def flush_def flush_take_def fold_flush_push due_def)

lemma flush_no_loss:
  fixes h :: "ref \<Rightarrow> job" and now :: time
  assumes "inv (sch_queue s)" "\<not> closed (sch_queue s)"
    and "length (items (sch_queue s)) + length (filter (due h now) (sch_pending s)) \<le> capacity"
  defines "s' \<equiv> flush enq h now s"
  shows "mset (items (sch_queue s')) + mset (sch_pending s') =
    mset (items (sch_queue s)) + mset (sch_pending s)"
proof -
  have "items (sch_queue s') = items (sch_queue s) @ filter (due h now) (sch_pending s)"
    and "sch_pending s' = filter (\<lambda>r. now < run_after (h r)) (sch_pending s)"
    using flush_spec [OF assms(1,2), of h now] assms(3) by (auto simp: s'_def)
  moreover have "mset (sch_pending s) = mset (filter (due h now) (sch_pending s)) +
      mset (filter (\<lambda>r. now < run_after (h r)) (sch_pending s))"
    using mset_partition [of "due h now" "sch_pending s"] by (simp add: due_def)
  ultimately show ?thesis by simp
qed

end

end
