(* ===== verification/Dag.thy ===== *)
theory Dag
  imports Job Unique_Map
begin

text \<open>
  Task graphs (\<open>internal/execution/dag.go\<close>): nodes are job pointers by job ID, edges are
  adjacency lists. \<open>HasCycle\<close> is the three-colour depth-first search of the source; it
  ranges over a Go map, so the order of that loop is an argument. The theory proves the
  search correct and that \<open>AddJob\<close> and \<open>AddDependency\<close> keep the graph acyclic.
\<close>

section \<open>The graph and its operations\<close>

record dag =
  dag_nodes :: "string \<rightharpoonup> ref"
  dag_edges :: "string \<rightharpoonup> string list"

definition new_dag :: dag where
  "new_dag = \<lparr>dag_nodes = Map.empty, dag_edges = Map.empty\<rparr>"

definition children :: "dag \<Rightarrow> string \<Rightarrow> string list" where
  "children d = map_get [] (dag_edges d)"

definition add_job :: "(ref \<Rightarrow> job) \<Rightarrow> ref \<Rightarrow> dag \<Rightarrow> dag result" where
  "add_job h r d =
     (case dag_nodes d (job_id (h r)) of
        Some _ \<Rightarrow> Inl (Errf ''job %q already exists'' [FStr (job_id (h r))])
      | None \<Rightarrow> Inr (d\<lparr>dag_nodes := (dag_nodes d)(job_id (h r) \<mapsto> r)\<rparr>))"

interpretation dag_jobs: unique_map "\<lambda>_. add_job h" dag_nodes "\<lambda>_ k r. k = job_id (h r)"
  for h :: "ref \<Rightarrow> job"
  by unfold_locales (auto simp: add_job_def)

datatype color = White | Gray | Black

text \<open>
  \<open>dfs\<close> is the closure of \<open>HasCycle\<close> and \<open>dfs_loop\<close> its loop over the children of a
  node. Both return the answer and the colours; \<open>None\<close> stands for the fuel running out,
  which \<open>dfs_enough\<close> below excludes.
\<close>

fun dfs :: "nat \<Rightarrow> (string \<Rightarrow> string list) \<Rightarrow> string \<Rightarrow> (string \<Rightarrow> color) \<Rightarrow>
      (bool \<times> (string \<Rightarrow> color)) option"
and dfs_loop :: "nat \<Rightarrow> (string \<Rightarrow> string list) \<Rightarrow> string list \<Rightarrow> (string \<Rightarrow> color) \<Rightarrow>
      (bool \<times> (string \<Rightarrow> color)) option" where
  "dfs 0 E v c = None"
| "dfs (Suc n) E v c =
     (case dfs_loop n E (E v) (c(v := Gray)) of
        None \<Rightarrow> None
      | Some (True, c') \<Rightarrow> Some (True, c')
      | Some (False, c') \<Rightarrow> Some (False, c'(v := Black)))"
| "dfs_loop n E [] c = Some (False, c)"
| "dfs_loop n E (w # ws) c =
     (case c w of
        Gray \<Rightarrow> Some (True, c)
      | White \<Rightarrow> (case dfs n E w c of
                  None \<Rightarrow> None
                | Some (True, c') \<Rightarrow> Some (True, c')
                | Some (False, c') \<Rightarrow> dfs_loop n E ws c')
      | Black \<Rightarrow> dfs_loop n E ws c)"

text \<open>The outer loop over the nodes, starting a search at every node still white.\<close>

fun dfs_roots :: "nat \<Rightarrow> (string \<Rightarrow> string list) \<Rightarrow> string list \<Rightarrow> (string \<Rightarrow> color) \<Rightarrow>
      (bool \<times> (string \<Rightarrow> color)) option" where
  "dfs_roots n E [] c = Some (False, c)"
| "dfs_roots n E (v # vs) c =
     (if c v = White
      then (case dfs n E v c of
              None \<Rightarrow> None
            | Some (True, c') \<Rightarrow> Some (True, c')
            | Some (False, c') \<Rightarrow> dfs_roots n E vs c')
      else dfs_roots n E vs c)"

text \<open>
  One unit of fuel per node is enough (\<open>has_cycle_fuel\<close>), so the \<open>None\<close> branch is never
  taken on a graph whose edges join its nodes.
\<close>

definition has_cycle :: "dag \<Rightarrow> string list \<Rightarrow> bool" where
  "has_cycle d ord =
     (case dfs_roots (length ord) (children d) ord (\<lambda>_. White) of
        Some (b, _) \<Rightarrow> b | None \<Rightarrow> True)"

definition add_dependency ::
  "string \<Rightarrow> string \<Rightarrow> string list \<Rightarrow> dag \<Rightarrow> unit result \<times> dag" where
  "add_dependency parent child ord d =
     (case dag_nodes d parent of
        None \<Rightarrow> (Inl (Errf ''parent job %q not found'' [FStr parent]), d)
      | Some _ \<Rightarrow>
     (case dag_nodes d child of
        None \<Rightarrow> (Inl (Errf ''child job %q not found'' [FStr child]), d)
      | Some _ \<Rightarrow>
     (let d1 = d\<lparr>dag_edges := (dag_edges d)(parent \<mapsto> children d parent @ [child])\<rparr>
      in if has_cycle d1 ord
         then (Inl (Errf ''adding dependency %q -> %q would create a cycle''
                     [FStr parent, FStr child]),
               d1\<lparr>dag_edges := (dag_edges d1)(parent \<mapsto> butlast (children d1 parent))\<rparr>)
         else (Inr (), d1))))"

section \<open>Well-formed graphs\<close>

definition dag_rel :: "dag \<Rightarrow> (string \<times> string) set" where
  "dag_rel d = {(u, w). w \<in> set (children d u)}"

definition dag_closed :: "dag \<Rightarrow> bool" where
  "dag_closed d \<longleftrightarrow> finite (dom (dag_nodes d)) \<and> dom (dag_edges d) \<subseteq> dom (dag_nodes d) \<and>
     (\<forall>u. set (children d u) \<subseteq> dom (dag_nodes d))"

text \<open>The invariant of every graph the API can build.\<close>

definition dag_inv :: "dag \<Rightarrow> bool" where
  "dag_inv d \<longleftrightarrow> dag_closed d \<and> acyclic (dag_rel d)"

lemma children_dom: "w \<in> set (children d u) \<Longrightarrow> u \<in> dom (dag_edges d)"
  by (cases "dag_edges d u") (simp_all add: children_def map_get_def domI)

lemma children_nodes: "dag_closed d \<Longrightarrow> w \<in> set (children d u) \<Longrightarrow>
    u \<in> dom (dag_nodes d) \<and> w \<in> dom (dag_nodes d)"
  unfolding dag_closed_def using children_dom by blast

lemma dag_rel_nodes: "dag_closed d \<Longrightarrow> (u, w) \<in> dag_rel d \<Longrightarrow>
    u \<in> dom (dag_nodes d) \<and> w \<in> dom (dag_nodes d)"
  using children_nodes by (simp add: dag_rel_def)

section \<open>Correctness of the depth-first search\<close>

definition grays :: "(string \<Rightarrow> color) \<Rightarrow> string set" where
  "grays c = {u. c u = Gray}"

definition blacks :: "(string \<Rightarrow> color) \<Rightarrow> string set" where
  "blacks c = {u. c u = Black}"

definition erel :: "(string \<Rightarrow> string list) \<Rightarrow> (string \<times> string) set" where
  "erel E = {(u, w). w \<in> set (E u)}"

text \<open>Black nodes only lead to black nodes and none of them is on a cycle.\<close>

definition good :: "(string \<Rightarrow> string list) \<Rightarrow> (string \<Rightarrow> color) \<Rightarrow> bool" where
  "good E c \<longleftrightarrow> (\<forall>u \<in> blacks c. set (E u) \<subseteq> blacks c \<and> (u, u) \<notin> (erel E)\<^sup>+)"

lemma good_reach:
  assumes "good E c" "(u, w) \<in> (erel E)\<^sup>*" "u \<in> blacks c" shows "w \<in> blacks c"
  using assms(2,3,1) by (induction rule: rtrancl_induct) (auto simp: good_def erel_def)

lemma good_white [simp]: "good E (\<lambda>_. White)"
  by (simp add: good_def blacks_def)

lemma grays_white [simp]: "grays (\<lambda>_. White) = {}"
  by (simp add: grays_def)

lemma good_gray: "good E c \<Longrightarrow> c v = White \<Longrightarrow> good E (c(v := Gray))"
  by (fastforce simp: good_def blacks_def)

lemma grays_gray: "grays (c(v := Gray)) = insert v (grays c)"
  by (auto simp: grays_def)

text \<open>A gray node whose children are all black is not on a cycle and may turn black.\<close>

lemma good_black:
  assumes "good E c" "c v = Gray" "set (E v) \<subseteq> blacks c"
  shows "good E (c(v := Black))"
proof -
  have "(v, v) \<notin> (erel E)\<^sup>+"
  proof
    assume "(v, v) \<in> (erel E)\<^sup>+"
    then obtain w where "(v, w) \<in> erel E" "(w, v) \<in> (erel E)\<^sup>*"
      by (meson tranclD)
    moreover from this have "w \<in> blacks c" using assms(3) by (auto simp: erel_def)
    ultimately have "v \<in> blacks c" using good_reach [OF assms(1)] by blast
    with assms(2) show False by (simp add: blacks_def)
  qed
  with assms show ?thesis by (auto simp: good_def blacks_def)
qed

lemma dfs_False:
  "dfs n E v c = Some (False, c') \<Longrightarrow> c v = White \<Longrightarrow> good E c \<Longrightarrow>
     good E c' \<and> grays c' = grays c \<and> blacks c \<subseteq> blacks c' \<and> v \<in> blacks c'"
  "dfs_loop n E ws c = Some (False, c') \<Longrightarrow> good E c \<Longrightarrow>
     good E c' \<and> grays c' = grays c \<and> blacks c \<subseteq> blacks c' \<and> set ws \<subseteq> blacks c'"
proof (induction n E v c and n E ws c arbitrary: c' and c' rule: dfs_dfs_loop.induct)
  case (2 n E v c)
  from 2(2) obtain c1 where c1: "dfs_loop n E (E v) (c(v := Gray)) = Some (False, c1)"
    and c': "c' = c1(v := Black)"
    by (auto split: option.splits prod.splits bool.splits)
  from 2(1) [OF c1 good_gray [OF 2(4,3)]]
  have g: "good E c1" "grays c1 = insert v (grays c)" "blacks (c(v := Gray)) \<subseteq> blacks c1"
    "set (E v) \<subseteq> blacks c1"
    unfolding grays_gray by blast+
  then have "c1 v = Gray" by (auto simp: grays_def)
  from good_black [OF g(1) this g(4)] have "good E c'" by (simp only: c')
  moreover have "grays c' = grays c"
    using g(2) 2(3) by (auto simp: grays_def c')
  moreover have "blacks c \<subseteq> blacks c'" "v \<in> blacks c'"
    using g(3) 2(3) by (auto simp: blacks_def c')
  ultimately show ?case by blast
next
  case (4 n E w ws c)
  show ?case
  proof (cases "c w")
    case White
    with 4(4) obtain c1 where c1: "dfs n E w c = Some (False, c1)"
      and loop: "dfs_loop n E ws c1 = Some (False, c')"
      by (auto split: option.splits prod.splits bool.splits)
    from 4(1) [OF White c1 White 4(5)]
    have g: "good E c1" "grays c1 = grays c" "blacks c \<subseteq> blacks c1" "w \<in> blacks c1" by auto
    from 4(2) [OF White c1 refl _ loop g(1)]
    have "good E c' \<and> grays c' = grays c1 \<and> blacks c1 \<subseteq> blacks c' \<and> set ws \<subseteq> blacks c'"
      by simp
    with g show ?thesis by auto
  next
    case Black
    with 4 show ?thesis by (auto simp: blacks_def)
  qed (use 4(4) in auto)
qed auto

text \<open>A positive answer comes with a cycle: the gray nodes lie on the path to \<open>v\<close>.\<close>

lemma dfs_True:
  "dfs n E v c = Some (True, c') \<Longrightarrow> c v = White \<Longrightarrow> good E c \<Longrightarrow>
     (\<forall>g \<in> grays c. (g, v) \<in> (erel E)\<^sup>*) \<Longrightarrow> \<not> acyclic (erel E)"
  "dfs_loop n E ws c = Some (True, c') \<Longrightarrow> good E c \<Longrightarrow> set ws \<subseteq> set (E v) \<Longrightarrow>
     (\<forall>g \<in> grays c. (g, v) \<in> (erel E)\<^sup>*) \<Longrightarrow> \<not> acyclic (erel E)"
proof (induction n E v c and n E ws c arbitrary: c' and c' v rule: dfs_dfs_loop.induct)
  case (2 n E v c)
  then have loop: "dfs_loop n E (E v) (c(v := Gray)) = Some (True, c')"
    by (auto split: option.splits prod.splits bool.splits)
  show ?case
    by (rule 2(1) [OF loop good_gray [OF 2(4,3)]]) (use 2(5) in \<open>auto simp only: grays_gray\<close>)
next
  case (4 n E w ws c)
  have edge: "(v, w) \<in> erel E" using 4(6) by (auto simp: erel_def)
  show ?case
  proof (cases "c w")
    case Gray
    then have "(w, v) \<in> (erel E)\<^sup>*" using 4(7) by (auto simp: grays_def)
    with edge show ?thesis by (meson acyclic_def rtrancl_into_trancl2)
  next
    case Black
    with 4 show ?thesis by auto
  next
    case White
    show ?thesis
    proof (cases "dfs n E w c = Some (True, c')")
      case True
      show ?thesis
        by (rule 4(1) [OF White True White 4(5)])
          (meson 4(7) edge rtrancl.rtrancl_into_rtrancl)
    next
      case False
      with 4(4) White obtain c1 where c1: "dfs n E w c = Some (False, c1)"
        and loop: "dfs_loop n E ws c1 = Some (True, c')"
        by (auto split: option.splits prod.splits bool.splits)
      from dfs_False(1) [OF c1 White 4(5)] have g: "good E c1" "grays c1 = grays c" by auto
      show ?thesis by (rule 4(2) [OF White c1 refl _ loop g(1)]) (use 4(6,7) g(2) in auto)
    qed
  qed
qed auto

text \<open>Fuel: one unit per white node reachable is enough, as each call colours one gray.\<close>

definition whites :: "string set \<Rightarrow> (string \<Rightarrow> color) \<Rightarrow> string set" where
  "whites V c = {u \<in> V. c u = White}"

lemma whites_gray: "v \<in> whites V c \<Longrightarrow> whites V (c(v := Gray)) = whites V c - {v}"
  by (auto simp: whites_def)

lemma dfs_whites:
  "dfs n E v c = Some (b, c') \<Longrightarrow> whites V c' \<subseteq> whites V c"
  "dfs_loop n E ws c = Some (b, c') \<Longrightarrow> whites V c' \<subseteq> whites V c"
proof (induction n E v c and n E ws c arbitrary: b c' and b c' rule: dfs_dfs_loop.induct)
  case (2 n E v c)
  then obtain b1 c1 where c1: "dfs_loop n E (E v) (c(v := Gray)) = Some (b1, c1)"
    and c': "c' = (if b1 then c1 else c1(v := Black))"
    by (auto split: option.splits prod.splits bool.splits)
  from 2(1) [OF c1] c' show ?case by (auto simp: whites_def split: if_splits)
next
  case (4 n E w ws c)
  show ?case
  proof (cases "c w")
    case White
    show ?thesis
    proof (cases "dfs n E w c = Some (True, c')")
      case True
      then show ?thesis by (rule 4(1) [OF White])
    next
      case False
      with 4(4) White obtain c1 where c1: "dfs n E w c = Some (False, c1)"
        and loop: "dfs_loop n E ws c1 = Some (b, c')"
        by (auto split: option.splits prod.splits bool.splits)
      from 4(1) [OF White c1] 4(2) [OF White c1 refl _ loop] show ?thesis by simp
    qed
  qed (use 4 in auto)
qed auto

lemma dfs_enough:
  "finite V \<Longrightarrow> (\<forall>u. set (E u) \<subseteq> V) \<Longrightarrow> v \<in> whites V c \<Longrightarrow>
     card (whites V c) \<le> n \<Longrightarrow> dfs n E v c \<noteq> None"
  "finite V \<Longrightarrow> (\<forall>u. set (E u) \<subseteq> V) \<Longrightarrow> set ws \<subseteq> V \<Longrightarrow>
     card (whites V c) \<le> n \<Longrightarrow> dfs_loop n E ws c \<noteq> None"
proof (induction n E v c and n E ws c rule: dfs_dfs_loop.induct)
  case (1 E v c)
  moreover have "finite (whites V c)" using 1(1) by (simp add: whites_def)
  ultimately show ?case by auto
next
  case (2 n E v c)
  have "finite (whites V c)" using 2(2) by (simp add: whites_def)
  then have "card (whites V (c(v := Gray))) \<le> n"
    using 2(4,5) by (subst whites_gray) (auto simp: card_Diff_singleton)
  with 2(1) [OF 2(2,3)] 2(3) have "dfs_loop n E (E v) (c(v := Gray)) \<noteq> None" by blast
  then show ?case by (auto split: bool.splits)
next
  case (4 n E w ws c)
  show ?case
  proof (cases "c w")
    case White
    then have "w \<in> whites V c" using 4(6) by (simp add: whites_def)
    with 4(1) [OF White 4(4,5)] 4(7) obtain b c1 where c1: "dfs n E w c = Some (b, c1)" by force
    have "finite (whites V c)" using 4(4) by (simp add: whites_def)
    then have card: "card (whites V c1) \<le> n"
      using dfs_whites(1) [OF c1, of V] 4(7) by (meson card_mono le_trans)
    show ?thesis
    proof (cases b)
      case False
      with c1 have c1': "dfs n E w c = Some (False, c1)" by simp
      from 4(2) [OF White c1' refl _ 4(4,5) _ card] 4(6) have "dfs_loop n E ws c1 \<noteq> None" by simp
      with White c1' show ?thesis by simp
    qed (use White c1 in simp)
  qed (use 4 in auto)
qed auto

lemma dfs_roots_spec:
  assumes "dfs_roots n E vs c = Some (b, c')" "good E c" "grays c = {}"
  shows "if b then \<not> acyclic (erel E)
    else good E c' \<and> grays c' = {} \<and> blacks c \<subseteq> blacks c' \<and> set vs \<subseteq> blacks c'"
  using assms
proof (induction vs arbitrary: c)
  case (Cons v vs)
  show ?case
  proof (cases "c v = White")
    case True
    show ?thesis
    proof (cases "dfs n E v c = Some (True, c') \<and> b")
      case True
      with dfs_True(1) [of n E v c c'] Cons.prems \<open>c v = White\<close> show ?thesis by auto
    next
      case False
      with Cons.prems \<open>c v = White\<close> obtain c1 where c1: "dfs n E v c = Some (False, c1)"
        and roots: "dfs_roots n E vs c1 = Some (b, c')"
        by (auto split: option.splits prod.splits bool.splits)
      from dfs_False(1) [OF c1 True Cons.prems(2)] Cons.prems(3)
      have g: "good E c1" "grays c1 = {}" "blacks c \<subseteq> blacks c1" "v \<in> blacks c1" by auto
      from Cons.IH [OF roots g(1,2)] g show ?thesis by (auto split: if_splits)
    qed
  next
    case False
    with Cons.prems(3) have "v \<in> blacks c" by (cases "c v") (auto simp: grays_def blacks_def)
    with Cons.IH [OF _ Cons.prems(2,3)] Cons.prems(1) False show ?thesis
      by (auto split: if_splits)
  qed
qed simp

lemma dfs_roots_enough:
  assumes "finite V" "\<forall>u. set (E u) \<subseteq> V" "set vs \<subseteq> V" "card (whites V c) \<le> n"
  shows "dfs_roots n E vs c \<noteq> None"
  using assms(3,4)
proof (induction vs arbitrary: c)
  case (Cons v vs)
  show ?case
  proof (cases "c v = White")
    case True
    with Cons.prems have "v \<in> whites V c" by (simp add: whites_def)
    with dfs_enough(1) [OF assms(1,2)] Cons.prems obtain b c1 where
      c1: "dfs n E v c = Some (b, c1)" by force
    have "finite (whites V c)" using assms(1) by (simp add: whites_def)
    then have "card (whites V c1) \<le> n"
      using dfs_whites(1) [OF c1, of V] Cons.prems(2) by (meson card_mono le_trans)
    with Cons c1 True show ?thesis by (cases b) auto
  qed (use Cons in auto)
qed simp

lemma dag_rel_erel: "dag_rel d = erel (children d)"
  by (simp add: dag_rel_def erel_def)

lemma has_cycle_fuel:
  assumes "dag_closed d" "key_order (dag_nodes d) ord"
  shows "dfs_roots (length ord) (children d) ord (\<lambda>_. White) \<noteq> None"
proof (rule dfs_roots_enough [of "dom (dag_nodes d)"])
  from assms(2) have "card (dom (dag_nodes d)) = length ord"
    by (metis distinct_card key_order_def)
  then show "card (whites (dom (dag_nodes d)) (\<lambda>_. White)) \<le> length ord"
    by (simp add: whites_def)
qed (use assms in \<open>auto simp: dag_closed_def key_order_def\<close>)

theorem has_cycle_iff:
  assumes "dag_closed d" "key_order (dag_nodes d) ord"
  shows "has_cycle d ord \<longleftrightarrow> \<not> acyclic (dag_rel d)"
proof -
  obtain b c where r: "dfs_roots (length ord) (children d) ord (\<lambda>_. White) = Some (b, c)"
    using has_cycle_fuel [OF assms] by force
  then have b: "has_cycle d ord = b" by (simp add: has_cycle_def)
  show ?thesis
  proof (cases b)
    case True
    with dfs_roots_spec [OF r] b show ?thesis by (simp add: dag_rel_erel)
  next
    case False
    with dfs_roots_spec [OF r] have g: "good (children d) c" "set ord \<subseteq> blacks c" by auto
    have "acyclic (dag_rel d)"
    proof (rule acyclicI, intro allI notI)
      fix u assume cyc: "(u, u) \<in> (dag_rel d)\<^sup>+"
      then obtain w where "(u, w) \<in> dag_rel d" by (meson tranclD)
      with dag_rel_nodes [OF assms(1)] assms(2) have "u \<in> set ord"
        by (auto simp: key_order_def)
      with g cyc show False by (auto simp: good_def dag_rel_erel)
    qed
    with False b show ?thesis by simp
  qed
qed

section \<open>Building graphs\<close>

lemma new_dag_inv: "dag_inv new_dag"
  by (simp add: dag_inv_def dag_closed_def dag_rel_def new_dag_def children_def acyclic_def)

lemma add_job_inv:
  assumes "dag_inv d" "add_job h r d = Inr d'"
  shows "dag_inv d'"
proof -
  have "dag_rel d' = dag_rel d" "children d' = children d"
    "dom (dag_nodes d') = insert (job_id (h r)) (dom (dag_nodes d))"
    "dom (dag_edges d') = dom (dag_edges d)"
    using assms(2) by (auto simp: add_job_def dag_rel_def children_def split: option.splits)
  with assms(1) show ?thesis by (auto simp: dag_inv_def dag_closed_def)
qed

definition with_edge :: "string \<Rightarrow> string \<Rightarrow> dag \<Rightarrow> dag" where
  "with_edge parent child d =
     d\<lparr>dag_edges := (dag_edges d)(parent \<mapsto> children d parent @ [child])\<rparr>"

lemma children_with_edge:
  "children (with_edge p c d) u = children d u @ (if u = p then [c] else [])"
  by (simp add: with_edge_def children_def)

lemma dag_rel_with_edge: "dag_rel (with_edge p c d) = insert (p, c) (dag_rel d)"
  by (auto simp: dag_rel_def children_with_edge split: if_splits)

lemma with_edge_closed:
  "dag_closed d \<Longrightarrow> p \<in> dom (dag_nodes d) \<Longrightarrow> c \<in> dom (dag_nodes d) \<Longrightarrow>
     dag_closed (with_edge p c d)"
  unfolding dag_closed_def children_with_edge by (auto simp: with_edge_def)

lemma dag_nodes_with_edge [simp]: "dag_nodes (with_edge p c d) = dag_nodes d"
  by (simp add: with_edge_def)

lemma add_dependency_frame:
  assumes "add_dependency p c ord d = (res, d')"
  shows "dag_nodes d' = dag_nodes d"
    and "res \<noteq> Inr () \<Longrightarrow> children d' = children d"
    and "res = Inr () \<Longrightarrow> d' = with_edge p c d"
  using assms
  by (auto simp: add_dependency_def Let_def children_def with_edge_def fun_eq_iff
      split: option.splits if_splits)

lemma add_dependency_dom:
  assumes "add_dependency p c ord d = (res, d')"
  shows "dom (dag_edges d') \<subseteq> dom (dag_edges d) \<union> dom (dag_nodes d)"
    and "res = Inr () \<Longrightarrow> p \<in> dom (dag_nodes d) \<and> c \<in> dom (dag_nodes d)"
  using assms by (auto simp: add_dependency_def Let_def split: option.splits if_splits)

lemma add_dependency_closed:
  assumes "dag_closed d" "add_dependency p c ord d = (res, d')"
  shows "dag_closed d'"
proof (cases "res = Inr ()")
  case True
  with add_dependency_frame [OF assms(2)] add_dependency_dom [OF assms(2)] assms(1)
  show ?thesis by (simp add: with_edge_closed)
next
  case False
  from add_dependency_frame(1,2) [OF assms(2)] add_dependency_dom(1) [OF assms(2)] False assms(1)
  show ?thesis unfolding dag_closed_def by auto
qed

text \<open>An edge is accepted exactly when its ends exist and it closes no cycle.\<close>

lemma add_dependency_result:
  assumes "dag_inv d" "key_order (dag_nodes d) ord" "add_dependency p c ord d = (res, d')"
  shows "res = Inr () \<longleftrightarrow> p \<in> dom (dag_nodes d) \<and> c \<in> dom (dag_nodes d) \<and>
    (c, p) \<notin> (dag_rel d)\<^sup>*"
proof (cases "p \<in> dom (dag_nodes d) \<and> c \<in> dom (dag_nodes d)")
  case True
  from assms(1) have d: "dag_closed d" "acyclic (dag_rel d)" by (auto simp: dag_inv_def)
  from True d have "dag_closed (with_edge p c d)" by (simp add: with_edge_closed)
  with assms(2) have "has_cycle (with_edge p c d) ord \<longleftrightarrow> \<not> acyclic (dag_rel (with_edge p c d))"
    by (intro has_cycle_iff) auto
  then have "has_cycle (with_edge p c d) ord \<longleftrightarrow> (c, p) \<in> (dag_rel d)\<^sup>*"
    using d(2) by (simp add: dag_rel_with_edge acyclic_insert)
  with True assms(3) show ?thesis
    by (auto simp: add_dependency_def with_edge_def Let_def split: if_splits)
next
  case False
  with assms(3) show ?thesis by (auto simp: add_dependency_def split: option.splits)
qed

lemma add_dependency_inv:
  assumes "dag_inv d" "key_order (dag_nodes d) ord" "add_dependency p c ord d = (res, d')"
  shows "dag_inv d'"
proof -
  have closed: "dag_closed d'" using add_dependency_closed assms(1,3) by (auto simp: dag_inv_def)
  show ?thesis
  proof (cases "res = Inr ()")
    case True
    with add_dependency_result [OF assms] add_dependency_frame(3) [OF assms(3)] assms(1) closed
    show ?thesis by (simp add: dag_inv_def dag_rel_with_edge acyclic_insert)
  next
    case False
    with add_dependency_frame(2) [OF assms(3)] assms(1) closed
    show ?thesis by (simp add: dag_inv_def dag_rel_def)
  qed
qed

end
