(* ===== verification/Topo_Sort.thy ===== *)
theory Topo_Sort
  imports Dag
begin

text \<open>
  \<open>TopologicalSort\<close> (\<open>internal/execution/dag.go\<close>): Kahn's algorithm, its in-degree table
  and its queue as in the source. It ranges over three Go maps, so it takes three orders.
\<close>

section \<open>Kahn's algorithm\<close>

type_synonym degrees = "string \<rightharpoonup> int"

definition bump :: "string \<Rightarrow> degrees \<Rightarrow> degrees" where
  "bump c deg = deg(c \<mapsto> map_get 0 deg c + 1)"

text \<open>\<open>ns\<close> orders the nodes and \<open>es\<close> the keys of the edge map.\<close>

definition in_degrees :: "dag \<Rightarrow> string list \<Rightarrow> string list \<Rightarrow> degrees" where
  "in_degrees d ns es =
     fold (\<lambda>u. fold bump (children d u)) es (fold (\<lambda>v deg. deg(v \<mapsto> 0)) ns Map.empty)"

fun relax :: "string list \<Rightarrow> degrees \<Rightarrow> string list \<Rightarrow> degrees \<times> string list" where
  "relax [] deg queue = (deg, queue)"
| "relax (c # cs) deg queue =
     (let deg' = deg(c \<mapsto> map_get 0 deg c - 1)
      in relax cs deg' (if map_get 0 deg' c = 0 then queue @ [c] else queue))"

fun kahn :: "nat \<Rightarrow> (string \<Rightarrow> string list) \<Rightarrow> degrees \<Rightarrow> string list \<Rightarrow> string list \<Rightarrow>
      string list option" where
  "kahn n E deg [] order = Some order"
| "kahn 0 E deg (v # queue) order = None"
| "kahn (Suc n) E deg (v # queue) order =
     (let (deg', queue') = relax (E v) deg queue in kahn n E deg' queue' (order @ [v]))"

text \<open>
  \<open>ds\<close> orders the keys of \<open>inDegree\<close> when the queue is filled. Every node is dequeued
  once, so \<open>length ds\<close> rounds are enough (\<open>topological_sort_ok\<close>).
\<close>

definition topological_sort ::
  "dag \<Rightarrow> string list \<Rightarrow> string list \<Rightarrow> string list \<Rightarrow> string list result" where
  "topological_sort d ns es ds =
     (if has_cycle d ns then Inl (Errf ''DAG contains a cycle'' [])
      else let deg = in_degrees d ns es;
               queue = filter (\<lambda>v. map_get 0 deg v = 0) ds
           in case kahn (length ds) (children d) deg queue [] of
                Some order \<Rightarrow> Inr order
              | None \<Rightarrow> Inl (Panic ''out of fuel''))"


text \<open>What a valid execution order is: every job once, each after all of its parents.\<close>

definition topo_order :: "dag \<Rightarrow> string list \<Rightarrow> bool" where
  "topo_order d xs \<longleftrightarrow> distinct xs \<and> set xs = dom (dag_nodes d) \<and>
     (\<forall>ys x zs. xs = ys @ x # zs \<longrightarrow> (\<forall>u. (u, x) \<in> dag_rel d \<longrightarrow> u \<in> set ys))"

section \<open>The in-degree table\<close>

lemma fold_bump:
  "map_get 0 (fold bump cs deg) v = map_get 0 deg v + int (count_list cs v)"
  "dom (fold bump cs deg) = dom deg \<union> set cs"
  by (induction cs arbitrary: deg) (auto simp: bump_def)

lemma fold_fold_bump:
  "map_get 0 (fold (\<lambda>u. fold bump (E u)) es deg) v =
     map_get 0 deg v + (\<Sum>u\<leftarrow>es. int (count_list (E u) v))"
  "dom (fold (\<lambda>u. fold bump (E u)) es deg) = dom deg \<union> (\<Union>u \<in> set es. set (E u))"
  by (induction es arbitrary: deg) (auto simp: fold_bump)

lemma fold_zero:
  "map_get 0 (fold (\<lambda>v deg. deg(v \<mapsto> 0)) ns deg) v = (if v \<in> set ns then 0 else map_get 0 deg v)"
  "dom (fold (\<lambda>v deg. deg(v \<mapsto> (0::int))) ns deg) = dom deg \<union> set ns"
  by (induction ns arbitrary: deg) auto

lemma in_degrees_dom:
  assumes "dag_closed d" "key_order (dag_nodes d) ns"
  shows "dom (in_degrees d ns es) = dom (dag_nodes d)"
  using assms by (auto simp: in_degrees_def fold_fold_bump(2) fold_zero(2) key_order_def
      dag_closed_def)

lemma in_degrees_sum:
  assumes "dag_closed d" "key_order (dag_nodes d) ns" "key_order (dag_edges d) es"
  shows "map_get 0 (in_degrees d ns es) v =
    (\<Sum>u \<in> dom (dag_nodes d). int (count_list (children d u) v))"
proof -
  have "map_get 0 (in_degrees d ns es) v = (\<Sum>u\<leftarrow>es. int (count_list (children d u) v))"
    by (simp add: in_degrees_def fold_fold_bump(1) fold_zero(1))
  also have "\<dots> = (\<Sum>u \<in> dom (dag_edges d). int (count_list (children d u) v))"
    using assms(3) by (simp add: key_order_def sum_list_distinct_conv_sum_set)
  also have "\<dots> = (\<Sum>u \<in> dom (dag_nodes d). int (count_list (children d u) v))"
  proof (rule sum.mono_neutral_left)
    show "\<forall>u \<in> dom (dag_nodes d) - dom (dag_edges d). int (count_list (children d u) v) = 0"
      proof
      fix u assume "u \<in> dom (dag_nodes d) - dom (dag_edges d)"
      then have "v \<notin> set (children d u)" using children_dom by blast
      then show "int (count_list (children d u) v) = 0" by (simp add: count_notin)
    qed
  qed (use assms(1) in \<open>auto simp: dag_closed_def\<close>)
  finally show ?thesis .
qed

section \<open>One round of the queue\<close>

lemma relax_deg:
  "relax cs deg q = (deg', q') \<Longrightarrow> map_get 0 deg' v = map_get 0 deg v - int (count_list cs v)"
  by (induction cs arbitrary: deg q) (auto simp: Let_def)

lemma relax_queue:
  assumes "relax cs deg q = (deg', q')" "\<forall>v \<in> set cs. int (count_list cs v) \<le> map_get 0 deg v"
  shows "\<exists>new. q' = q @ new \<and> distinct new \<and>
    set new = {v \<in> set cs. map_get 0 deg v = int (count_list cs v)}"
  using assms
proof (induction cs arbitrary: deg q)
  case Nil
  then show ?case by auto
next
  case (Cons c cs)
  let ?deg = "deg(c \<mapsto> map_get 0 deg c - 1)"
  let ?q = "if map_get 0 ?deg c = 0 then q @ [c] else q"
  have le: "\<forall>v \<in> set cs. int (count_list cs v) \<le> map_get 0 ?deg v"
    using Cons.prems(2) by auto
  have "relax cs ?deg ?q = (deg', q')" using Cons.prems(1) by (simp add: Let_def)
  from Cons.IH [OF this le] obtain new where new: "q' = ?q @ new" "distinct new"
    "set new = {v \<in> set cs. map_get 0 ?deg v = int (count_list cs v)}" by blast
  let ?new = "if map_get 0 deg c = 1 then c # new else new"
  have last: "map_get 0 deg c = 1 \<Longrightarrow> c \<notin> set cs"
    using Cons.prems(2) count_list_0_iff [of cs c] by fastforce
  have "v \<in> set ?new \<longleftrightarrow> v \<in> set (c # cs) \<and> map_get 0 deg v = int (count_list (c # cs) v)" for v
  proof (cases "v = c")
    case True
    with last show ?thesis unfolding new(3) if_distrib [of set] by (cases "c \<in> set cs") (auto simp: count_notin)
  next
    case False
    then have "v \<in> set ?new \<longleftrightarrow> v \<in> set new" by simp
    also have "\<dots> \<longleftrightarrow> v \<in> set (c # cs) \<and> map_get 0 deg v = int (count_list (c # cs) v)"
      unfolding new(3) using False by simp
    finally show ?thesis .
  qed
  moreover have "q' = q @ ?new" using new(1) by simp
  moreover have "distinct ?new" using new(2,3) last by auto
  ultimately show ?case by blast
qed

section \<open>The loop invariant\<close>

definition kahn_inv ::
  "string set \<Rightarrow> (string \<Rightarrow> string list) \<Rightarrow> degrees \<Rightarrow> string list \<Rightarrow> string list \<Rightarrow> bool" where
  "kahn_inv V E deg queue order \<longleftrightarrow>
     distinct (order @ queue) \<and> set (order @ queue) \<subseteq> V \<and>
     (\<forall>v \<in> V. map_get 0 deg v = (\<Sum>u \<in> V - set order. int (count_list (E u) v))) \<and>
     (\<forall>v \<in> V. v \<in> set (order @ queue) \<longleftrightarrow> map_get 0 deg v = 0) \<and>
     (\<forall>ys x zs. order = ys @ x # zs \<longrightarrow> (\<forall>u \<in> V. x \<in> set (E u) \<longrightarrow> u \<in> set ys))"

lemma sum_snoc:
  assumes "finite V" "v \<in> V" "v \<notin> set order"
  shows "(\<Sum>u \<in> V - set order. f u :: int) = f v + (\<Sum>u \<in> V - set (order @ [v]). f u)"
proof -
  have "V - set (order @ [v]) = V - set order - {v}" by auto
  with assms show ?thesis by (simp add: sum.remove [of _ v])
qed

text \<open>The head of the queue comes after all it depends on.\<close>

lemma kahn_head:
  assumes "finite V" "kahn_inv V E deg (v # queue) order" "u \<in> V" "v \<in> set (E u)"
  shows "u \<in> set order"
proof (rule ccontr)
  assume u: "u \<notin> set order"
  from assms(2) have "v \<in> V" by (simp add: kahn_inv_def)
  with assms(2) have "(\<Sum>u \<in> V - set order. int (count_list (E u) v)) = map_get 0 deg v" "map_get 0 deg v = 0"
    unfolding kahn_inv_def by (metis, metis in_set_conv_decomp)
  then show False using assms(1,3,4) u by (simp add: sum_nonneg_eq_0_iff count_list_0_iff)
qed

text \<open>What a round adds to the queue are the nodes whose last open dependency was its head.\<close>

lemma relax_new:
  assumes "relax (E v) deg queue = (deg', queue')" "\<forall>w \<in> set (E v). int (count_list (E v) w) \<le> map_get 0 deg w"
  obtains new where "queue' = queue @ new" "distinct new" "set new \<subseteq> set (E v)"
    "\<And>w. w \<in> set new \<Longrightarrow> map_get 0 deg w \<noteq> 0"
    "\<And>w. map_get 0 deg' w = 0 \<longleftrightarrow> w \<in> set new \<or> map_get 0 deg w = 0"
proof -
  obtain new where new: "queue' = queue @ new" "distinct new"
    "set new = {w \<in> set (E v). map_get 0 deg w = int (count_list (E v) w)}"
    using relax_queue [OF assms] by blast
  have pos: "count_list (E v) w \<noteq> 0" if "w \<in> set (E v)" for w using that by (simp add: count_list_0_iff)
  have "map_get 0 deg' w = 0 \<longleftrightarrow> w \<in> set new \<or> map_get 0 deg w = 0" for w
    using relax_deg [OF assms(1), of w] new(3) pos [of w] assms(2)
    by (cases "w \<in> set (E v)") (auto simp: count_notin)
  with new pos show thesis by (intro that [of new]) auto
qed

lemma kahn_inv_step:
  assumes "finite V" "\<forall>u. set (E u) \<subseteq> V" "kahn_inv V E deg (v # queue) order"
    and relax: "relax (E v) deg queue = (deg', queue')"
  shows "kahn_inv V E deg' queue' (order @ [v])"
proof -
  have inv: "distinct (order @ v # queue)" "set (order @ v # queue) \<subseteq> V"
    "\<And>w. w \<in> V \<Longrightarrow> map_get 0 deg w = (\<Sum>u \<in> V - set order. int (count_list (E u) w))"
    "\<And>w. w \<in> V \<Longrightarrow> w \<in> set (order @ v # queue) \<longleftrightarrow> map_get 0 deg w = 0"
    and topo: "\<And>ys x zs u. order = ys @ x # zs \<Longrightarrow> u \<in> V \<Longrightarrow> x \<in> set (E u) \<Longrightarrow> u \<in> set ys"
    using assms(3) unfolding kahn_inv_def by blast+
  have v: "v \<in> V" "v \<notin> set order" using inv(1,2) by auto
  have split: "map_get 0 deg w = int (count_list (E v) w) + (\<Sum>u \<in> V - set (order @ [v]). int (count_list (E u) w))"
    if "w \<in> V" for w
    using inv(3) [OF that] sum_snoc [OF assms(1) v] by simp
  have "\<forall>w \<in> set (E v). int (count_list (E v) w) \<le> map_get 0 deg w"
    using split assms(2) by (auto simp: sum_nonneg subset_eq)
  from relax_new [of E, OF relax this] obtain new where new: "queue' = queue @ new" "distinct new"
    "set new \<subseteq> set (E v)" "\<And>w. w \<in> set new \<Longrightarrow> map_get 0 deg w \<noteq> 0"
    "\<And>w. map_get 0 deg' w = 0 \<longleftrightarrow> w \<in> set new \<or> map_get 0 deg w = 0" by blast
  have newV: "set new \<subseteq> V" using new(3) assms(2) by blast
  then have disj: "w \<notin> set (order @ v # queue)" if "w \<in> set new" for w
    using that new(4) inv(4) by blast
  have "distinct ((order @ [v]) @ queue')" "set ((order @ [v]) @ queue') \<subseteq> V"
    using inv(1,2) new(1,2) newV disj by auto
  moreover have "\<forall>w \<in> V. map_get 0 deg' w = (\<Sum>u \<in> V - set (order @ [v]). int (count_list (E u) w))"
    using split relax_deg [OF relax] by simp
  moreover have "\<forall>w \<in> V. w \<in> set ((order @ [v]) @ queue') \<longleftrightarrow> map_get 0 deg' w = 0"
    using inv(4) new(1,5) by auto
  moreover have "\<forall>ys x zs. order @ [v] = ys @ x # zs \<longrightarrow> (\<forall>u \<in> V. x \<in> set (E u) \<longrightarrow> u \<in> set ys)"
    using topo kahn_head [OF assms(1,3)] by (auto simp: snoc_eq_split)
  ultimately show ?thesis unfolding kahn_inv_def by blast
qed

lemma kahn_run:
  assumes "finite V" "\<forall>u. set (E u) \<subseteq> V"
  shows "kahn_inv V E deg queue order \<Longrightarrow> card V \<le> n + length order \<Longrightarrow>
    \<exists>xs deg'. kahn n E deg queue order = Some xs \<and> kahn_inv V E deg' [] xs"
proof (induction n arbitrary: deg queue order)
  case 0
  have "length (order @ queue) \<le> card V"
    by (metis 0(1) assms(1) card_mono distinct_card kahn_inv_def)
  with 0 show ?case by (cases queue) auto
next
  case (Suc n)
  show ?case
  proof (cases queue)
    case Nil
    with Suc.prems show ?thesis by auto
  next
    case (Cons v queue1)
    obtain deg' queue' where relax: "relax (E v) deg queue1 = (deg', queue')" by force
    from kahn_inv_step [OF assms Suc.prems(1) [unfolded Cons] relax]
    have "kahn_inv V E deg' queue' (order @ [v])" .
    with Suc.IH [of deg' queue' "order @ [v]"] Suc.prems(2) relax Cons show ?thesis by simp
  qed
qed

text \<open>With an empty queue nothing is left: a node left over would sit on a cycle.\<close>

lemma kahn_complete:
  assumes "finite V" "\<forall>u. set (E u) \<subseteq> V" "kahn_inv V E deg [] xs" "acyclic (erel E)"
  shows "set xs = V"
proof (rule ccontr)
  note inv = assms(3) [unfolded kahn_inv_def]
  let ?W = "V - set xs"
  assume "set xs \<noteq> V"
  with inv have ne: "?W \<noteq> {}" by auto
  have "finite (erel E \<inter> ?W \<times> ?W)" using assms(1) by (meson finite_Diff finite_Int finite_SigmaI)
  moreover have "acyclic (erel E \<inter> ?W \<times> ?W)" using assms(4) by (meson Int_lower1 acyclic_subset)
  ultimately have "wf (erel E \<inter> ?W \<times> ?W)" by (rule finite_acyclic_wf)
  with ne obtain v where v: "v \<in> ?W" "\<And>u. (u, v) \<in> erel E \<inter> ?W \<times> ?W \<Longrightarrow> u \<notin> ?W"
    by (metis wfE_min ex_in_conv)
  have "(\<Sum>u \<in> ?W. int (count_list (E u) v)) = 0"
  proof (rule sum.neutral, rule ballI)
    fix u assume "u \<in> ?W"
    with v have "v \<notin> set (E u)" by (auto simp: erel_def)
    then show "int (count_list (E u) v) = 0" by (simp add: count_notin)
  qed
  with inv v(1) show False by auto
qed

section \<open>Correctness of the sort\<close>

theorem topological_sort_cases:
  assumes "dag_closed d" "key_order (dag_nodes d) ns" "key_order (dag_edges d) es"
    and "key_order (in_degrees d ns es) ds"
  shows "case topological_sort d ns es ds of
      Inr xs \<Rightarrow> acyclic (dag_rel d) \<and> topo_order d xs
    | Inl e \<Rightarrow> \<not> acyclic (dag_rel d) \<and> e = Errf ''DAG contains a cycle'' []"
proof (cases "acyclic (dag_rel d)")
  case False
  then show ?thesis using has_cycle_iff [OF assms(1,2)] by (simp add: topological_sort_def)
next
  case True
  let ?V = "dom (dag_nodes d)" and ?E = "children d" and ?deg = "in_degrees d ns es"
  let ?q = "filter (\<lambda>v. map_get 0 ?deg v = 0) ds"
  have V: "finite ?V" "\<forall>u. set (?E u) \<subseteq> ?V" using assms(1) by (auto simp: dag_closed_def)
  have ds: "distinct ds" "set ds = ?V"
    using assms(4) in_degrees_dom [OF assms(1,2), of es] by (auto simp: key_order_def)
  then have len: "length ds = card ?V" by (metis distinct_card)
  have "kahn_inv ?V ?E ?deg ?q []"
    using ds in_degrees_sum [OF assms(1-3)] by (auto simp: kahn_inv_def)
  from kahn_run [OF V this, of "length ds"] len obtain xs deg' where
    run: "kahn (length ds) ?E ?deg ?q [] = Some xs" and inv: "kahn_inv ?V ?E deg' [] xs" by auto
  have "set xs = ?V" using kahn_complete [OF V inv] True by (simp add: dag_rel_erel)
  moreover from this inv have "topo_order d xs"
    using dag_rel_nodes [OF assms(1)]
    unfolding topo_order_def kahn_inv_def dag_rel_erel erel_def by auto
  moreover have "\<not> has_cycle d ns" using has_cycle_iff [OF assms(1,2)] True by simp
  ultimately show ?thesis using run True by (simp add: topological_sort_def)
qed

section \<open>What task graphs guarantee\<close>

text \<open>A graph of three jobs for the witnesses: \<open>a\<close> before \<open>b\<close> and \<open>c\<close>, \<open>b\<close> before \<open>c\<close>.\<close>

definition diamond :: dag where
  "diamond = \<lparr>dag_nodes = [''a'' \<mapsto> 0, ''b'' \<mapsto> 1, ''c'' \<mapsto> 2],
     dag_edges = [''a'' \<mapsto> [''c'', ''b''], ''b'' \<mapsto> [''c'']]\<rparr>"

lemma diamond_closed: "dag_closed diamond"
  by (auto simp: dag_closed_def diamond_def children_def map_get_def)

lemma diamond_orders:
  "key_order (dag_nodes diamond) [''c'', ''a'', ''b'']"
  "key_order (dag_edges diamond) [''b'', ''a'']"
  "key_order (in_degrees diamond [''c'', ''a'', ''b''] [''b'', ''a'']) [''b'', ''c'', ''a'']"
  using in_degrees_dom [OF diamond_closed, of "[''c'', ''a'', ''b'']" "[''b'', ''a'']"]
  by (auto simp: key_order_def diamond_def)

lemma diamond_acyclic: "dag_inv diamond"
proof -
  have "\<not> has_cycle diamond [''c'', ''a'', ''b'']" by code_simp
  with has_cycle_iff [OF diamond_closed diamond_orders(1)] diamond_closed show ?thesis
    by (simp add: dag_inv_def)
qed

text \<open>
  C11. \<open>TopologicalSort\<close> is total and correct on every graph whose edges join its nodes,
  whatever the iteration orders of the three Go maps it ranges over: on an acyclic graph it
  returns every job exactly once, each after all of its parents, and on a cyclic one it
  returns the error.
\<close>

theorem topological_sort_correct:
  assumes "dag_closed d" "key_order (dag_nodes d) ns" "key_order (dag_edges d) es"
    and "key_order (in_degrees d ns es) ds"
  shows "if acyclic (dag_rel d)
    then \<exists>xs. topological_sort d ns es ds = Inr xs \<and> topo_order d xs
    else topological_sort d ns es ds = Inl (Errf ''DAG contains a cycle'' [])"
  using topological_sort_cases [OF assms] by (auto split: sum.splits)

theorem topological_sort_correct_witness:
  "\<exists>xs. topological_sort diamond [''c'', ''a'', ''b''] [''b'', ''a''] [''b'', ''c'', ''a''] = Inr xs \<and>
    topo_order diamond xs"
  using topological_sort_correct [OF diamond_closed diamond_orders] diamond_acyclic
  by (simp add: dag_inv_def)

text \<open>
  C22. \<open>HasCycle\<close>, the three-colour depth-first search, answers true exactly when the
  dependency relation has a cycle, for every order in which the nodes are visited; its
  recursion ends within one call per node.
\<close>

theorem has_cycle_correct:
  assumes "dag_closed d" "key_order (dag_nodes d) ord"
  shows "(has_cycle d ord \<longleftrightarrow> (\<exists>u. (u, u) \<in> (dag_rel d)\<^sup>+)) \<and>
    dfs_roots (length ord) (children d) ord (\<lambda>_. White) \<noteq> None"
  using has_cycle_iff [OF assms] has_cycle_fuel [OF assms] by (auto simp: acyclic_def)

theorem has_cycle_correct_witness:
  "has_cycle (with_edge ''c'' ''a'' diamond) [''c'', ''a'', ''b''] \<and>
   (\<exists>u. (u, u) \<in> (dag_rel (with_edge ''c'' ''a'' diamond))\<^sup>+)"
proof -
  have "has_cycle (with_edge ''c'' ''a'' diamond) [''c'', ''a'', ''b'']" by code_simp
  moreover have "dag_closed (with_edge ''c'' ''a'' diamond)"
    by (rule with_edge_closed [OF diamond_closed]) (simp_all add: diamond_def)
  moreover have "key_order (dag_nodes (with_edge ''c'' ''a'' diamond)) [''c'', ''a'', ''b'']"
    using diamond_orders(1) by simp
  ultimately show ?thesis
    using has_cycle_correct [of "with_edge ''c'' ''a'' diamond" "[''c'', ''a'', ''b'']"] by blast
qed

text \<open>
  C23. \<open>AddDependency\<close> accepts an edge exactly when both jobs exist and the child does not
  already lead to the parent. It then adds that edge and nothing else; when it refuses, the
  roll-back leaves the nodes and every adjacency list as they were. Either way the graph
  stays acyclic.
\<close>

theorem add_dependency_correct:
  assumes "dag_inv d" "key_order (dag_nodes d) ord" "add_dependency p c ord d = (res, d')"
  shows "dag_inv d' \<and> dag_nodes d' = dag_nodes d \<and>
    (if p \<in> dom (dag_nodes d) \<and> c \<in> dom (dag_nodes d) \<and> (c, p) \<notin> (dag_rel d)\<^sup>*
     then res = Inr () \<and> dag_rel d' = insert (p, c) (dag_rel d)
     else (\<exists>e. res = Inl e \<and> \<not> is_panic e) \<and> children d' = children d)"
proof -
  have "\<exists>e. res = Inl e \<and> \<not> is_panic e" if "res \<noteq> Inr ()"
    using assms(3) that by (auto simp: add_dependency_def Let_def split: option.splits if_splits)
  with add_dependency_result [OF assms] add_dependency_inv [OF assms]
    add_dependency_frame [OF assms(3)] show ?thesis by (auto simp: dag_rel_with_edge)
qed

theorem add_dependency_correct_witness:
  "(\<exists>e. fst (add_dependency ''c'' ''a'' [''c'', ''a'', ''b''] diamond) = Inl e) \<and>
   dag_inv (snd (add_dependency ''c'' ''a'' [''c'', ''a'', ''b''] diamond))"
proof -
  obtain res d' where r: "add_dependency ''c'' ''a'' [''c'', ''a'', ''b''] diamond = (res, d')"
    by force
  have "\<exists>e. fst (add_dependency ''c'' ''a'' [''c'', ''a'', ''b''] diamond) = Inl e"
    by (rule exI [of _ "Errf ''adding dependency %q -> %q would create a cycle''
          [FStr ''c'', FStr ''a'']"]) code_simp
  with add_dependency_correct [OF diamond_acyclic diamond_orders(1) r] r show ?thesis by simp
qed

end
