(* ===== verification/Plane.thy ===== *)
theory Plane
  imports Scheduler Topo_Sort
begin

text \<open>
  The execution plane (\<open>internal/execution/plane.go\<close>). Its jobs are pointers that the
  plane's table, the queue, the scheduler and the worker share, so the model keeps one heap
  of jobs and moves references. The worker goroutine \<open>process\<close> and the scheduler goroutine
  \<open>run\<close> are control states whose steps are the pieces between two lock operations.
\<close>

section \<open>State\<close>

text \<open>
  A handler gets the time of the call and the job it may modify; it returns the job as it
  leaves it and the text of its error, if any.
\<close>

type_synonym handler = "time \<Rightarrow> job \<Rightarrow> job \<times> string option"

datatype worker =
    W_NotStarted
  | W_Loop
  | W_Wait
  | W_Got ref
  | W_Handle ref handler
  | W_Running ref handler
  | W_Returned ref "string option"
  | W_Resched ref
  | W_Exited

datatype ticker = T_NotStarted | T_Flush "ref list" | T_Exited

text \<open>
  \<open>pl_calls\<close> holds, for every \<open>Submit\<close> or \<open>SubmitDAG\<close> call in progress, the jobs it has
  registered and not scheduled yet; \<open>pl_clock\<close> is the last reading of the clock.
\<close>

record plane =
  pl_heap :: "ref \<Rightarrow> job"
  pl_jobs :: "string \<rightharpoonup> ref"
  pl_sched :: "mem_queue scheduler"
  pl_handler :: handler
  pl_cancelled :: bool
  pl_worker :: worker
  pl_ticker :: ticker
  pl_calls :: "ref list list"
  pl_clock :: time

definition new_plane :: "(ref \<Rightarrow> job) \<Rightarrow> time \<Rightarrow> plane" where
  "new_plane h now =
     \<lparr>pl_heap = h, pl_jobs = Map.empty, pl_sched = new_scheduler new_mem_queue,
      pl_handler = (\<lambda>t j. (j, None)), pl_cancelled = False, pl_worker = W_NotStarted,
      pl_ticker = T_NotStarted, pl_calls = [], pl_clock = now\<rparr>"

abbreviation pl_queue :: "plane \<Rightarrow> mem_queue" where
  "pl_queue p \<equiv> sch_queue (pl_sched p)"

abbreviation upd_job :: "ref \<Rightarrow> (job \<Rightarrow> job) \<Rightarrow> plane \<Rightarrow> plane" where
  "upd_job r f p \<equiv> p\<lparr>pl_heap := (pl_heap p)(r := f (pl_heap p r))\<rparr>"

section \<open>The client interface\<close>

definition plane_start :: "plane \<Rightarrow> plane" where
  "plane_start p = p\<lparr>pl_cancelled := False, pl_worker := W_Loop, pl_ticker := T_Flush []\<rparr>"

definition plane_schedule :: "time \<Rightarrow> ref \<Rightarrow> plane \<Rightarrow> unit result \<times> plane" where
  "plane_schedule now r p =
     (case schedule enqueue (pl_heap p) now r (pl_sched p) of
        Inl e \<Rightarrow> (Inl e, p)
      | Inr s \<Rightarrow> (Inr (), p\<lparr>pl_sched := s\<rparr>))"

definition register_job :: "ref \<Rightarrow> plane \<Rightarrow> plane" where
  "register_job r p = p\<lparr>pl_jobs := (pl_jobs p)(job_id (pl_heap p r) \<mapsto> r)\<rparr>"

definition submit :: "time \<Rightarrow> ref \<Rightarrow> plane \<Rightarrow> unit result \<times> plane" where
  "submit now r p = plane_schedule now r (register_job r p)"

definition register_dag :: "dag \<Rightarrow> string list \<Rightarrow> plane \<Rightarrow> plane" where
  "register_dag d order p =
     p\<lparr>pl_jobs := fold (\<lambda>i m. case dag_nodes d i of Some r \<Rightarrow> m(i \<mapsto> r) | None \<Rightarrow> m)
                    order (pl_jobs p)\<rparr>"

fun schedule_order :: "time \<Rightarrow> dag \<Rightarrow> string list \<Rightarrow> plane \<Rightarrow> unit result \<times> plane" where
  "schedule_order now d [] p = (Inr (), p)"
| "schedule_order now d (i # is) p =
     (case dag_nodes d i of
        None \<Rightarrow> (Inl (Panic ''nil pointer dereference''), p)
      | Some r \<Rightarrow>
         (case plane_schedule now r p of
            (Inl e, p') \<Rightarrow> (Inl (Wrapf ''schedule job %q: %w'' [FStr i] e), p')
          | (Inr _, p') \<Rightarrow> schedule_order now d is p'))"

definition submit_dag ::
  "time \<Rightarrow> dag \<Rightarrow> string list \<Rightarrow> string list \<Rightarrow> string list \<Rightarrow> plane \<Rightarrow> unit result \<times> plane" where
  "submit_dag now d ns es ds p =
     (case topological_sort d ns es ds of
        Inl e \<Rightarrow> (Inl (Wrapf ''topological sort: %w'' [] e), p)
      | Inr order \<Rightarrow> schedule_order now d order (register_dag d order p))"

definition get_job :: "string \<Rightarrow> plane \<Rightarrow> job result" where
  "get_job i p =
     (case pl_jobs p i of
        None \<Rightarrow> Inl (Errf ''job %q not found'' [FStr i])
      | Some r \<Rightarrow> Inr (pl_heap p r))"

definition set_handler :: "handler \<Rightarrow> plane \<Rightarrow> plane" where
  "set_handler h p = p\<lparr>pl_handler := h\<rparr>"

text \<open>
  \<open>Stop\<close>: cancel, wait for both goroutines, close the queue. It returns (\<open>Some\<close>) only
  when both have exited; on a plane that was never started it waits for ever.
\<close>

definition stop_cancel :: "plane \<Rightarrow> plane" where
  "stop_cancel p = (if pl_worker p = W_NotStarted then p else p\<lparr>pl_cancelled := True\<rparr>)"

definition stop_close :: "plane \<Rightarrow> unit result option \<times> plane" where
  "stop_close p =
     (if pl_worker p = W_Exited \<and> pl_ticker p = T_Exited
      then (case queue_close (pl_queue p) of
              Inl e \<Rightarrow> (Some (Inl e), p)
            | Inr q \<Rightarrow> (Some (Inr ()), p\<lparr>pl_sched := (pl_sched p)\<lparr>sch_queue := q\<rparr>\<rparr>))
      else (None, p))"

text \<open>
  The whole of \<open>Stop\<close>: it cancels, waits for both goroutines and closes the queue. \<open>waits\<close> is the
  state in which the goroutines leave the plane while it waits; when they have not ended there,
  \<open>Stop\<close> does not return, for which the error stands.
\<close>

definition err_waiting :: go_error where
  "err_waiting = Panic ''all goroutines are asleep - deadlock!''"

definition plane_stop :: "(plane \<Rightarrow> plane) \<Rightarrow> plane \<Rightarrow> unit result \<times> plane" where
  "plane_stop waits p =
     (case stop_close (waits (stop_cancel p)) of
        (Some res, p') \<Rightarrow> (res, p')
      | (None, p') \<Rightarrow> (Inl err_waiting, p'))"

section \<open>The worker loop\<close>

text \<open>
  \<open>time.Duration(a*a) * 100 * time.Millisecond\<close> in 64-bit arithmetic.
\<close>

definition backoff :: "int \<Rightarrow> gint" where
  "backoff a = word_of_int a * word_of_int a * 100 * millisecond"

definition worker_top :: "plane \<Rightarrow> plane" where
  "worker_top p =
     (if pl_cancelled p then p\<lparr>pl_worker := W_Exited\<rparr>
      else case dequeue (pl_queue p) of
             (Inr (Some r), q) \<Rightarrow>
               p\<lparr>pl_sched := (pl_sched p)\<lparr>sch_queue := q\<rparr>, pl_worker := W_Got r\<rparr>
           | (_, q) \<Rightarrow>
               p\<lparr>pl_sched := (pl_sched p)\<lparr>sch_queue := q\<rparr>, pl_worker := W_Wait\<rparr>)"

text \<open>The timer branch and the cancellation branch of the idle wait.\<close>

definition worker_wake :: "plane \<Rightarrow> plane" where
  "worker_wake p = p\<lparr>pl_worker := W_Loop\<rparr>"

definition worker_quit :: "plane \<Rightarrow> plane" where
  "worker_quit p = p\<lparr>pl_worker := W_Exited\<rparr>"

definition worker_handler :: "ref \<Rightarrow> plane \<Rightarrow> plane" where
  "worker_handler r p = p\<lparr>pl_worker := W_Handle r (pl_handler p)\<rparr>"

definition worker_mark :: "time \<Rightarrow> ref \<Rightarrow> handler \<Rightarrow> plane \<Rightarrow> plane" where
  "worker_mark now r h p =
     (upd_job r (\<lambda>j. j\<lparr>job_state := JobRunning, attempts := attempts j + 1,
                       started_at := now\<rparr>) p)
     \<lparr>pl_worker := W_Running r h\<rparr>"

definition worker_call :: "time \<Rightarrow> ref \<Rightarrow> handler \<Rightarrow> plane \<Rightarrow> plane" where
  "worker_call now r h p =
     (let (j, err) = h now (pl_heap p r) in
      (upd_job r (\<lambda>_. j) p)\<lparr>pl_worker := W_Returned r err\<rparr>)"

text \<open>The retry branch reads the clock twice, at \<open>t1\<close> and \<open>t2\<close>.\<close>

definition finish_failed :: "time \<Rightarrow> time \<Rightarrow> string \<Rightarrow> job \<Rightarrow> job" where
  "finish_failed t1 t2 err j =
     (let j1 = j\<lparr>job_error := err\<rparr> in
      if attempts j < max_attempts j
      then j1\<lparr>job_state := JobRetrying, finished_at := t1,
              run_after := time_add t2 (backoff (attempts j))\<rparr>
      else j1\<lparr>job_state := JobFailed, finished_at := t1\<rparr>)"

definition finish_ok :: "time \<Rightarrow> job \<Rightarrow> job" where
  "finish_ok now j = j\<lparr>job_state := JobCompleted, finished_at := now\<rparr>"

definition worker_finish :: "time \<Rightarrow> time \<Rightarrow> ref \<Rightarrow> string option \<Rightarrow> plane \<Rightarrow> plane" where
  "worker_finish t1 t2 r err p =
     (case err of
        None \<Rightarrow> (upd_job r (finish_ok t1) p)\<lparr>pl_worker := W_Loop\<rparr>
      | Some e \<Rightarrow>
         (upd_job r (finish_failed t1 t2 e) p)
         \<lparr>pl_worker := if attempts (pl_heap p r) < max_attempts (pl_heap p r)
                        then W_Resched r else W_Loop\<rparr>)"

text \<open>The result of \<open>Schedule\<close> is dropped (\<open>_ = p.scheduler.Schedule(job)\<close>).\<close>

definition worker_resched :: "time \<Rightarrow> ref \<Rightarrow> plane \<Rightarrow> plane" where
  "worker_resched now r p = (snd (plane_schedule now r p))\<lparr>pl_worker := W_Loop\<rparr>"

section \<open>The scheduler loop\<close>

definition ticker_take :: "time \<Rightarrow> plane \<Rightarrow> plane" where
  "ticker_take now p =
     (let (ready, s) = flush_take (pl_heap p) now (pl_sched p) in
      p\<lparr>pl_sched := s, pl_ticker := T_Flush ready\<rparr>)"

definition ticker_push :: "ref \<Rightarrow> ref list \<Rightarrow> plane \<Rightarrow> plane" where
  "ticker_push r rs p =
     p\<lparr>pl_sched := flush_push enqueue r (pl_sched p), pl_ticker := T_Flush rs\<rparr>"

definition ticker_quit :: "plane \<Rightarrow> plane" where
  "ticker_quit p = p\<lparr>pl_ticker := T_Exited\<rparr>"

section \<open>One whole round of the worker\<close>

text \<open>
  A round of \<open>process\<close> on a running plane with no interference: dequeue, read the handler,
  mark the job, call the handler, record its outcome, and reschedule on a retry.
\<close>

definition worker_round :: "time \<Rightarrow> plane \<Rightarrow> plane" where
  "worker_round now p =
     (case worker_top p of p1 \<Rightarrow>
      (case pl_worker p1 of
         W_Got r \<Rightarrow>
           (let h = pl_handler p1;
                p2 = worker_call now r h (worker_mark now r h (worker_handler r p1))
            in case pl_worker p2 of
                 W_Returned _ err \<Rightarrow>
                   (let p3 = worker_finish now now r err p2
                    in if pl_worker p3 = W_Resched r then worker_resched now r p3 else p3)
               | _ \<Rightarrow> p2)
       | _ \<Rightarrow> p1))"

section \<open>Lemmas on the operations\<close>

lemma plane_schedule_frame [simp]:
  "pl_heap (snd (plane_schedule now r p)) = pl_heap p"
  "pl_jobs (snd (plane_schedule now r p)) = pl_jobs p"
  "pl_handler (snd (plane_schedule now r p)) = pl_handler p"
  "pl_worker (snd (plane_schedule now r p)) = pl_worker p"
  "pl_ticker (snd (plane_schedule now r p)) = pl_ticker p"
  "pl_calls (snd (plane_schedule now r p)) = pl_calls p"
  "pl_cancelled (snd (plane_schedule now r p)) = pl_cancelled p"
  "pl_clock (snd (plane_schedule now r p)) = pl_clock p"
  by (simp_all add: plane_schedule_def split: sum.splits)

text \<open>Where a scheduled job ends up, and what a failure leaves behind.\<close>

lemma plane_schedule_cases:
  assumes "mem_queue_inv (pl_queue p)" "plane_schedule now r p = (res, p')"
  shows "mem_queue_inv (pl_queue p') \<and>
    (case res of
       Inl e \<Rightarrow> p' = p \<and> \<not> is_panic e \<and>
         (mq_closed (pl_queue p) \<or> queue_capacity \<le> length (queue_items (pl_queue p)))
     | Inr _ \<Rightarrow>
         if now < run_after (pl_heap p r) \<and> run_after (pl_heap p r) \<noteq> zero_time
         then sch_pending (pl_sched p') = sch_pending (pl_sched p) @ [r] \<and>
              pl_queue p' = pl_queue p
         else sch_pending (pl_sched p') = sch_pending (pl_sched p) \<and>
              queue_items (pl_queue p') = queue_items (pl_queue p) @ [r] \<and>
              mq_closed (pl_queue p') = mq_closed (pl_queue p))"
proof (cases "schedule enqueue (pl_heap p) now r (pl_sched p)")
  case (Inl e)
  then have "enqueue (pl_queue p) r = Inl e"
    by (auto simp: schedule_def split: if_splits sum.splits)
  with mq.enq_no_panic [OF assms(1)] mq.enq_Inl_iff [OF assms(1), of r] assms Inl
  show ?thesis by (auto simp: plane_schedule_def)
next
  case (Inr s)
  from mq.schedule_cases [OF assms(1) Inr] mq.enqD(3,4) [OF assms(1)] Inr assms(2)
  show ?thesis
    by (auto simp: plane_schedule_def schedule_def due_def split: if_splits sum.splits)
qed

lemma worker_finish_heap:
  "pl_heap (worker_finish t1 t2 r err p) = (pl_heap p)(r :=
     (case err of None \<Rightarrow> finish_ok t1 (pl_heap p r)
      | Some e \<Rightarrow> finish_failed t1 t2 e (pl_heap p r)))"
  by (simp add: worker_finish_def split: option.split)

end
