(* ===== verification/Handlers.thy ===== *)
theory Handlers
  imports Gateway Json_Values Agent Policy Memory Event_Bus Plane
begin

text \<open>
  The request handlers that \<open>cmd/hydra/main.go\<close> registers on the gateway, over the state of
  the planes they call. Generated identifiers, clock readings, map orders and the run of the
  agent are gathered in \<open>serve_env\<close>.
\<close>

section \<open>The state behind the handlers\<close>

text \<open>\<open>co_jobs\<close> is the number of jobs allocated so far: the next job's address.\<close>

record ('w, 's) core =
  co_policy :: engine
  co_runtime :: "'w runtime"
  co_exec :: plane
  co_jobs :: nat
  co_memory :: 's
  co_bus :: bus
  co_gateway :: gw_state

record serve_env =
  se_uuid :: "nat \<Rightarrow> string"
  se_now :: time
  se_keys :: "string list"
  se_heads :: "string list"
  se_heads2 :: "string list"
  se_names :: "string list"

section \<open>Decoding requests\<close>

definition dec_identity :: "identity decoder" where
  "dec_identity v a =
     bind (obj_fields v) (\<lambda>fs.
     bind (dec_field ''id'' dec_string fs (actor_id a)) (\<lambda>i.
     bind (dec_field ''kind'' dec_string fs (actor_kind a)) (\<lambda>k.
     bind (dec_field ''roles'' dec_strings fs (actor_roles a)) (\<lambda>r.
     bind (dec_field ''tenant_id'' dec_string fs (actor_tenant a)) (\<lambda>t.
       Inr \<lparr>actor_id = i, actor_kind = k, actor_roles = r, actor_tenant = t\<rparr>)))))"

definition dec_tenant :: "tenant decoder" where
  "dec_tenant v t =
     bind (obj_fields v) (\<lambda>fs.
     bind (dec_field ''id'' dec_string fs (tenant_id t)) (\<lambda>i.
     bind (dec_field ''name'' dec_string fs (tenant_name t)) (\<lambda>n.
       Inr \<lparr>tenant_id = i, tenant_name = n\<rparr>)))"

record chat_request =
  cr_message :: string
  cr_actor :: identity
  cr_tenant :: tenant

definition dec_chat :: "raw \<Rightarrow> chat_request result" where
  "dec_chat p =
     bind (obj_fields p) (\<lambda>fs.
     bind (dec_field ''message'' dec_string fs []) (\<lambda>m.
     bind (dec_field ''actor'' dec_identity fs no_actor) (\<lambda>a.
     bind (dec_field ''tenant'' dec_tenant fs no_tenant) (\<lambda>t.
       Inr \<lparr>cr_message = m, cr_actor = a, cr_tenant = t\<rparr>))))"

record task_request =
  tr_type :: string
  tr_data :: raw
  tr_actor :: identity
  tr_tenant :: tenant

definition dec_task :: "raw \<Rightarrow> task_request result" where
  "dec_task p =
     bind (obj_fields p) (\<lambda>fs.
     bind (dec_field ''type'' dec_string fs []) (\<lambda>ty.
     bind (dec_field ''data'' dec_raw fs []) (\<lambda>d.
     bind (dec_field ''actor'' dec_identity fs no_actor) (\<lambda>a.
     bind (dec_field ''tenant'' dec_tenant fs no_tenant) (\<lambda>t.
       Inr \<lparr>tr_type = ty, tr_data = d, tr_actor = a, tr_tenant = t\<rparr>)))))"

record store_request =
  st_type :: string
  st_content :: raw
  st_tags :: "string list"
  st_actor :: string
  st_tenant :: string

definition dec_store :: "raw \<Rightarrow> store_request result" where
  "dec_store p =
     bind (obj_fields p) (\<lambda>fs.
     bind (dec_field ''type'' dec_string fs []) (\<lambda>ty.
     bind (dec_field ''content'' dec_raw fs []) (\<lambda>c.
     bind (dec_field ''tags'' dec_strings fs []) (\<lambda>tags.
     bind (dec_field ''actor_id'' dec_string fs []) (\<lambda>a.
     bind (dec_field ''tenant_id'' dec_string fs []) (\<lambda>t.
       Inr \<lparr>st_type = ty, st_content = c, st_tags = tags, st_actor = a, st_tenant = t\<rparr>))))))"

definition dec_search :: "raw \<Rightarrow> search_query result" where
  "dec_search p =
     bind (obj_fields p) (\<lambda>fs.
     bind (dec_field ''type'' dec_string fs []) (\<lambda>ty.
     bind (dec_field ''tags'' dec_strings fs []) (\<lambda>tags.
     bind (dec_field ''actor_id'' dec_string fs []) (\<lambda>a.
     bind (dec_field ''tenant_id'' dec_string fs []) (\<lambda>t.
     bind (dec_field ''limit'' dec_int fs 0) (\<lambda>n.
       Inr \<lparr>sq_type = ty, sq_tags = tags, sq_actor = a, sq_tenant = t, sq_limit = n,
            sq_since = zero_time, sq_min_confidence = 0\<rparr>))))))"

section \<open>Responses\<close>

definition invalid_payload :: "go_error \<Rightarrow> go_error" where
  "invalid_payload e = Wrapf ''invalid payload: %w'' [] e"

text \<open>A response envelope that keeps the trace of the request, with its payload.\<close>

definition respond :: "serve_env \<Rightarrow> string \<Rightarrow> identity \<Rightarrow> tenant \<Rightarrow> envelope \<Rightarrow> raw result \<Rightarrow> handled" where
  "respond se action actor ten req data =
     (case with_payload data ((new_envelope (se_uuid se 1) (se_uuid se 2) (se_now se)
             env_response action actor ten)\<lparr>env_trace := env_trace req\<rparr>) of
        Inl e \<Rightarrow> Failure e
      | Inr resp \<Rightarrow> Answer (Some resp))"

definition bus_notify :: "string \<Rightarrow> envelope \<Rightarrow> bus \<Rightarrow> bus" where
  "bus_notify ty req b =
     snd (publish \<lparr>ev_type = ty, ev_payload = env_payload req, ev_trace = env_trace req,
                   ev_time = zero_time\<rparr> b)"

text \<open>Permission check and audit record, shared by \<open>chat\<close> and \<open>task\<close>.\<close>

definition authorize :: "time \<Rightarrow> envelope \<Rightarrow> string \<Rightarrow> permission \<Rightarrow> identity \<Rightarrow> engine \<Rightarrow> unit result \<times> engine" where
  "authorize now req action perm actor e =
     (case check_permission e actor perm of
        Inl err \<Rightarrow> (Inl (Wrapf ''permission check failed: %w'' [] err), e)
      | Inr False \<Rightarrow>
          (Inl (Errf ''permission denied: %s'' [FStr perm]),
           audit now (env_trace req) (actor_id actor) action False ''permission denied'' e)
      | Inr True \<Rightarrow>
          (Inr (), audit now (env_trace req) (actor_id actor) action True ''allowed'' e))"

section \<open>The handlers\<close>

definition anonymous_chat :: identity where
  "anonymous_chat = \<lparr>actor_id = ''anonymous'', actor_kind = actor_human, actor_roles = [''human''],
     actor_tenant = ''default''\<rparr>"

definition anonymous_task :: identity where
  "anonymous_task = \<lparr>actor_id = ''anonymous'', actor_kind = actor_human, actor_roles = [],
     actor_tenant = ''default''\<rparr>"

definition default_tenant :: tenant where
  "default_tenant = \<lparr>tenant_id = ''default'', tenant_name = ''default''\<rparr>"

text \<open>The echo agent's function: a map, whose keys are marshalled in order.\<close>

definition echo_json :: "string \<Rightarrow> string \<Rightarrow> json" where
  "echo_json msg i = JObj [(''agent_id'', JStr i), (''echo'', JStr msg)]"

definition echo_env :: "time \<Rightarrow> string \<Rightarrow> nat \<Rightarrow> 'w attempt_env" where
  "echo_env now msg k =
     \<lparr>at_cancelled = None, at_func = \<lambda>a. (a, Inr (echo_json msg (ag_id a))),
      at_ctx_err = None, at_clock = now\<rparr>"

definition chat_handler :: "serve_env \<Rightarrow> ('w, 's) core handler_func" where
  "chat_handler se req hs =
     (let (h, s) = hs in
      case dec_chat (env_payload req) of
        Inl e \<Rightarrow> (Failure (invalid_payload e), (h, s))
      | Inr cr \<Rightarrow>
          let actor = (if actor_id (cr_actor cr) = [] then anonymous_chat else cr_actor cr);
              ten = (if tenant_id (cr_tenant cr) = [] then default_tenant else cr_tenant cr);
              (auth, pe) = authorize (se_now se) req ''chat'' perm_create_agent actor (co_policy s);
              s = s\<lparr>co_policy := pe\<rparr>
          in case auth of
               Inl e \<Rightarrow> (Failure e, (h, s))
             | Inr _ \<Rightarrow>
                 let ac = new_context (se_uuid se 3) actor ten;
                     ((a, err), rt) = spawn (se_uuid se 0) (se_now se) ''echo-agent'' [WithContext ac]
                                        (echo_env (se_now se) (cr_message cr)) (se_now se) (co_runtime s);
                     s = s\<lparr>co_runtime := rt\<rparr>
                 in case err of
                      Some e \<Rightarrow> (Failure e, (h, s))
                    | None \<Rightarrow>
                        (respond se ''chat'' actor ten req
                           (Inr (print (case ag_result a of Some v \<Rightarrow> v | None \<Rightarrow> JNull))),
                         (h, s\<lparr>co_bus := bus_notify ''agent.completed'' req (co_bus s)\<rparr>)))"

definition task_handler :: "serve_env \<Rightarrow> ('w, 's) core handler_func" where
  "task_handler se req hs =
     (let (h, s) = hs in
      case dec_task (env_payload req) of
        Inl e \<Rightarrow> (Failure (invalid_payload e), (h, s))
      | Inr tr \<Rightarrow>
          let actor = (if actor_id (tr_actor tr) = [] then anonymous_task else tr_actor tr);
              ten = (if tenant_id (tr_tenant tr) = [] then default_tenant else tr_tenant tr);
              (auth, pe) = authorize (se_now se) req ''task'' perm_execute_task actor (co_policy s);
              s = s\<lparr>co_policy := pe\<rparr>
          in case auth of
               Inl e \<Rightarrow> (Failure e, (h, s))
             | Inr _ \<Rightarrow>
                 let job = new_job (se_uuid se 0) (se_now se) (tr_type tr) (tr_data tr) [];
                     r = co_jobs s;
                     p = (co_exec s)\<lparr>pl_heap := (pl_heap (co_exec s))(r := job)\<rparr>;
                     (res, p) = submit (se_now se) r p;
                     s = s\<lparr>co_exec := p, co_jobs := Suc r\<rparr>
                 in case res of
                      Inl e \<Rightarrow> (Failure e, (h, s))
                    | Inr _ \<Rightarrow>
                        (respond se ''task'' actor ten req
                           (Inr (print (JObj [(''job_id'', JStr (job_id job)),
                                              (''state'', JStr ''pending'')]))),
                         (h, s)))"

definition store_handler :: "'s memory_plane \<Rightarrow> serve_env \<Rightarrow> ('w, 's) core handler_func" where
  "store_handler mp se req hs =
     (let (h, s) = hs in
      case dec_store (env_payload req) of
        Inl e \<Rightarrow> (Failure (invalid_payload e), (h, s))
      | Inr sr \<Rightarrow>
          let actor = (if st_actor sr = [] then ''anonymous'' else st_actor sr);
              ten = (if st_tenant sr = [] then ''default'' else st_tenant sr);
              ty = (if st_type sr = [] then semantic else st_type sr);
              m = (new_memory (se_uuid se 0) (se_now se) ty (st_content sr) actor ten)
                    \<lparr>mem_tags := st_tags sr\<rparr>;
              (r, ms) = mp_alloc mp m (co_memory s);
              (res, ms) = plane_store (mp_provider mp) r ms;
              s = s\<lparr>co_memory := ms\<rparr>
          in case res of
               Inl e \<Rightarrow> (Failure e, (h, s))
             | Inr _ \<Rightarrow>
                 (respond se ''memory.store'' (no_actor\<lparr>actor_id := actor\<rparr>)
                    (no_tenant\<lparr>tenant_id := ten\<rparr>) req
                    (Inr (print (JObj [(''memory_id'', JStr (mem_id (mp_load mp ms r))),
                                       (''type'', JStr (mem_type (mp_load mp ms r)))]))),
                  (h, s\<lparr>co_bus := bus_notify ''memory.stored'' req (co_bus s)\<rparr>)))"

text \<open>A record in JSON; \<open>ff\<close> formats a confidence, \<open>ft\<close> a time stamp. Metadata is never set.\<close>

definition memory_json :: "(rat \<Rightarrow> string) \<Rightarrow> (time \<Rightarrow> string) \<Rightarrow> memory \<Rightarrow> json result" where
  "memory_json ff ft m =
     map_sum id (\<lambda>c. JObj
       ([(''id'', JStr (mem_id m)), (''type'', JStr (mem_type m)), (''content'', c)] @
        (if mem_tags m = [] then [] else [(''tags'', JArr (map JStr (mem_tags m)))]) @
        [(''confidence'', JNum (ff (mem_confidence m))), (''actor_id'', JStr (mem_actor m)),
         (''tenant_id'', JStr (mem_tenant m)), (''created_at'', JStr (ft (mem_created m))),
         (''accessed_at'', JStr (ft (mem_accessed m))), (''expires_at'', JStr (ft (mem_expires m)))]))
     (payload_json (mem_content m))"

text \<open>A nil slice of results is \<open>null\<close>.\<close>

definition results_json :: "(rat \<Rightarrow> string) \<Rightarrow> (time \<Rightarrow> string) \<Rightarrow> bool \<Rightarrow> memory list \<Rightarrow> json result" where
  "results_json ff ft is_nil ms =
     (if ms = [] \<and> is_nil then Inr JNull else map_sum id JArr (all_results (map (memory_json ff ft) ms)))"

definition search_handler :: "(rat \<Rightarrow> string) \<Rightarrow> (time \<Rightarrow> string) \<Rightarrow> 's memory_plane \<Rightarrow> serve_env \<Rightarrow> ('w, 's) core handler_func" where
  "search_handler ff ft mp se req hs =
     (let (h, s) = hs in
      case dec_search (env_payload req) of
        Inl e \<Rightarrow> (Failure (invalid_payload e), (h, s))
      | Inr q \<Rightarrow>
          let (res, ms) = plane_search (mp_provider mp) (se_keys se) q (co_memory s);
              s = s\<lparr>co_memory := ms\<rparr>
          in case res of
               Inl e \<Rightarrow> (Failure e, (h, s))
             | Inr rs \<Rightarrow>
                 (respond se ''memory.search'' no_actor no_tenant req
                    (map_sum id (\<lambda>v. print (JObj [(''count'', JNum (show_int (int (length rs)))),
                                                  (''results'', v)]))
                      (results_json ff ft (mp_nil mp) (map (mp_load mp ms) rs))),
                  (h, s)))"

fun status_text :: "health_status \<Rightarrow> string" where
  "status_text Healthy = ''healthy''"
| "status_text Degraded = ''degraded''"
| "status_text Unhealthy = ''unhealthy''"

definition health_report_json :: "health_report \<Rightarrow> json" where
  "health_report_json r =
     JObj ([(''head'', JStr (hr_head r)), (''status'', JStr (status_text (hr_status r)))] @
       (if hr_detail r = [] then [] else [(''detail'', JStr (hr_detail r))]))"

text \<open>Each of the three sweeps of the registry has its own iteration order.\<close>

definition health_handler :: "serve_env \<Rightarrow> ('w, 's) core registry \<Rightarrow> ('w, 's) core handler_func" where
  "health_handler se reg req hs =
     (let (h, s) = hs;
          reports = health_all (se_heads se) reg s;
          status = (if is_healthy (se_heads2 se) reg s then ''healthy'' else ''unhealthy'')
      in (respond se ''health'' no_actor no_tenant req
            (Inr (print (JObj [(''heads'', JArr (map JStr (head_names (se_names se) reg))),
                               (''reports'', JArr (map health_report_json reports)),
                               (''status'', JStr status)]))),
          (h, s)))"

section \<open>The heads and what \<open>main\<close> registers\<close>

text \<open>
  \<open>listen\<close> and \<open>shutdown\<close> are the outcomes of the network calls; \<open>waits\<close> is what the
  goroutines of the execution plane do while its \<open>Stop\<close> waits for them.
\<close>

definition ok_head :: "string \<Rightarrow> ('s \<Rightarrow> 's) \<Rightarrow> ('s \<Rightarrow> 's) \<Rightarrow> string \<Rightarrow> 's head" where
  "ok_head n start stop detail =
     \<lparr>hd_name = n, hd_start = \<lambda>s. (Inr (), start s), hd_stop = \<lambda>s. (Inr (), stop s),
      hd_health = \<lambda>_. \<lparr>hr_head = n, hr_status = Healthy, hr_detail = detail\<rparr>\<rparr>"

definition gateway_head :: "(string \<Rightarrow> unit result) \<Rightarrow> unit result \<Rightarrow> ('w, 's) core head" where
  "gateway_head listen shutdown =
     \<lparr>hd_name = ''gateway'',
      hd_start = \<lambda>s. map_prod id (\<lambda>g. s\<lparr>co_gateway := g\<rparr>) (gateway_start listen (co_gateway s)),
      hd_stop = \<lambda>s. map_prod id (\<lambda>g. s\<lparr>co_gateway := g\<rparr>) (gateway_stop shutdown (co_gateway s)),
      hd_health = \<lambda>s. gateway_health (co_gateway s)\<rparr>"

definition agent_head :: "('w, 's) core head" where
  "agent_head = ok_head ''agent'' id (\<lambda>s. s\<lparr>co_runtime := runtime_stop (co_runtime s)\<rparr>) []"

definition execution_head :: "(plane \<Rightarrow> plane) \<Rightarrow> ('w, 's) core head" where
  "execution_head waits =
     (ok_head ''execution'' (\<lambda>s. s\<lparr>co_exec := plane_start (co_exec s)\<rparr>) id [])
       \<lparr>hd_stop := \<lambda>s. map_prod id (\<lambda>p. s\<lparr>co_exec := p\<rparr>) (plane_stop waits (co_exec s))\<rparr>"

definition memory_head :: "('w, 's) core head" where
  "memory_head = ok_head ''memory'' id id []"

definition policy_head :: "('w, 's) core head" where
  "policy_head =
     ok_head ''policy'' (\<lambda>s. s\<lparr>co_policy := engine_start (co_policy s)\<rparr>) id ''policy engine operational''"

definition main_heads :: "(string \<Rightarrow> unit result) \<Rightarrow> unit result \<Rightarrow> (plane \<Rightarrow> plane) \<Rightarrow> ('w, 's) core head list" where
  "main_heads listen shutdown waits =
     [gateway_head listen shutdown, agent_head, execution_head waits, memory_head, policy_head]"

lemmas head_defs = agent_head_def execution_head_def memory_head_def policy_head_def

definition register_heads :: "'s head list \<Rightarrow> 's registry result" where
  "register_heads hds = put_all (\<lambda>_. register) (map (\<lambda>h. (hd_name h, h)) hds) new_registry"

definition register_handlers :: "(rat \<Rightarrow> string) \<Rightarrow> (time \<Rightarrow> string) \<Rightarrow> 's memory_plane \<Rightarrow> serve_env \<Rightarrow> ('w, 's) core registry \<Rightarrow>
    ('w, 's) core gateway \<Rightarrow> ('w, 's) core gateway" where
  "register_handlers ff ft mp se reg g =
     register_handler ''health'' (health_handler se reg)
       (register_handler ''memory.search'' (search_handler ff ft mp se)
         (register_handler ''memory.store'' (store_handler mp se)
           (register_handler ''task'' (task_handler se)
             (register_handler ''chat'' (chat_handler se) g))))"

section \<open>Lemmas\<close>

lemma respond_Inr: "respond se action actor ten req (Inr d) =
    Answer (Some ((new_envelope (se_uuid se 1) (se_uuid se 2) (se_now se) env_response action actor ten)
      \<lparr>env_trace := env_trace req, env_payload := d\<rparr>))"
  by (simp add: respond_def with_payload_def)

lemma respond_trace: "respond se action actor ten req d = Answer (Some e) \<Longrightarrow>
    env_trace e = env_trace req \<and> env_type e = env_response \<and> env_action e = action"
  by (auto simp: respond_def with_payload_def new_envelope_def split: sum.splits)

lemma authorize_cases:
  "authorize now req action perm actor e =
     (let ok = check_roles (eng_roles e) (actor_roles actor) perm in
      (if ok then Inr () else Inl (Errf ''permission denied: %s'' [FStr perm]),
       audit now (env_trace req) (actor_id actor) action ok
         (if ok then ''allowed'' else ''permission denied'') e))"
  by (simp add: authorize_def check_permission_def Let_def split: bool.split)

lemma echo_spawn:
  assumes "0 \<le> sint (ex_retries (rt_executor rt))"
    and "spawn i now n [WithContext ac] (echo_env now msg) now rt = ((a, err), rt')"
  shows "err = None \<and> ag_result a = Some (echo_json msg i) \<and> ag_state a = StateDone \<and>
    get_agent i rt' = Inr a \<and> rt_executor rt' = rt_executor rt"
proof -
  let ?a = "new_agent i now n [WithContext ac] :: 'a agent"
  have id: "ag_id ?a = i" by (simp add: new_agent_def)
  have "execute (rt_executor rt) (echo_env now msg) now ?a =
      (None, ?a\<lparr>ag_state := StateDone, ag_result := Some (echo_json msg i), ag_finished := now\<rparr>)"
    using assms(1) id unfolding execute_def
    by (subst exec_loop.simps) (simp add: echo_env_def)
  with assms(2) id show ?thesis
    by (auto simp: spawn_def spawn_begin_def spawn_end_def Let_def get_agent_def)
qed

text \<open>What \<open>task\<close> does with a request that decodes.\<close>

lemma task_outcome:
  assumes "dec_task (env_payload req) = Inr tr" "task_handler se req (h, s) = (out, (h', s'))"
  defines "actor \<equiv> if actor_id (tr_actor tr) = [] then anonymous_task else tr_actor tr"
  defines "ten \<equiv> if tenant_id (tr_tenant tr) = [] then default_tenant else tr_tenant tr"
  defines "ok \<equiv> check_roles (eng_roles (co_policy s)) (actor_roles actor) perm_execute_task"
  defines "job \<equiv> new_job (se_uuid se 0) (se_now se) (tr_type tr) (tr_data tr) []"
  shows "h' = h \<and> co_policy s' = audit (se_now se) (env_trace req) (actor_id actor) ''task'' ok
      (if ok then ''allowed'' else ''permission denied'') (co_policy s) \<and>
    (if \<not> ok then s' = s\<lparr>co_policy := co_policy s'\<rparr> \<and> out = Failure (Errf ''permission denied: %s'' [FStr perm_execute_task])
     else \<exists>res. submit (se_now se) (co_jobs s)
          ((co_exec s)\<lparr>pl_heap := (pl_heap (co_exec s))(co_jobs s := job)\<rparr>) = (res, co_exec s') \<and>
        co_jobs s' = Suc (co_jobs s) \<and>
        out = (case res of
           Inl e \<Rightarrow> Failure e
         | Inr _ \<Rightarrow> respond se ''task'' actor ten req
             (Inr (print (JObj [(''job_id'', JStr (job_id job)), (''state'', JStr ''pending'')])))))"
proof (cases ok)
  case False
  with assms(1,2) show ?thesis
    by (auto simp: task_handler_def authorize_cases Let_def actor_def [symmetric] ok_def [symmetric] simp del: print.simps)
next
  case True
  obtain res p' where "submit (se_now se) (co_jobs s)
      ((co_exec s)\<lparr>pl_heap := (pl_heap (co_exec s))(co_jobs s := job)\<rparr>) = (res, p')" by force
  with assms(1,2) True show ?thesis
    by (cases res) (auto simp: task_handler_def authorize_cases Let_def actor_def [symmetric] ten_def [symmetric]
        ok_def [symmetric] job_def [symmetric] simp del: print.simps)
qed

section \<open>Properties\<close>

text \<open>
  C13. \<open>task\<close>: a decoded request leaves exactly one audit record, allowed or denied by the
  actor's roles. When denied nothing else changes and the request fails; when allowed exactly
  one new pending job with the request's type and data is submitted, and the answer names it
  unless the queue refuses it.
\<close>

theorem task_authorized:
  assumes "dec_task (env_payload req) = Inr tr" "task_handler se req (h, s) = (out, (h', s'))"
  defines "actor \<equiv> if actor_id (tr_actor tr) = [] then anonymous_task else tr_actor tr"
  defines "ok \<equiv> \<exists>n \<in> set (actor_roles actor). \<exists>r. eng_roles (co_policy s) n = Some r \<and>
    perm_execute_task \<in> set (role_perms r)"
  defines "job \<equiv> new_job (se_uuid se 0) (se_now se) (tr_type tr) (tr_data tr) []"
  shows "co_policy s' = audit (se_now se) (env_trace req) (actor_id actor) ''task'' ok
      (if ok then ''allowed'' else ''permission denied'') (co_policy s) \<and>
    (if \<not> ok then s' = s\<lparr>co_policy := co_policy s'\<rparr> \<and>
        out = Failure (Errf ''permission denied: %s'' [FStr perm_execute_task])
     else \<exists>res. submit (se_now se) (co_jobs s)
          ((co_exec s)\<lparr>pl_heap := (pl_heap (co_exec s))(co_jobs s := job)\<rparr>) = (res, co_exec s') \<and>
        co_jobs s' = Suc (co_jobs s) \<and>
        (case res of
           Inl e \<Rightarrow> out = Failure e
         | Inr _ \<Rightarrow> \<exists>e. out = Answer (Some e) \<and> env_trace e = env_trace req \<and> env_payload e =
             print (JObj [(''job_id'', JStr (job_id job)), (''state'', JStr ''pending'')])))"
proof -
  have ok: "check_roles (eng_roles (co_policy s)) (actor_roles actor) perm_execute_task = ok"
    by (simp add: check_roles_iff ok_def)
  note run = task_outcome [OF assms(1,2), folded actor_def job_def, unfolded ok]
  then show ?thesis by (cases ok) (auto simp: respond_Inr simp del: print.simps split: sum.splits)
qed

declare print.simps [simp del]

text \<open>A served request at time \<open>7\<close>, and a system whose policy engine has started.\<close>

definition demo_env :: serve_env where
  "demo_env = \<lparr>se_uuid = (\<lambda>k. CHR ''u'' # show_int (int k)), se_now = 7, se_keys = [],
     se_heads = [], se_heads2 = [], se_names = []\<rparr>"

definition demo_core :: "(unit, mem_store) core" where
  "demo_core = \<lparr>co_policy = engine_start new_engine, co_runtime = new_runtime,
     co_exec = new_plane (\<lambda>_. new_job [] 1 [] [] []) 1, co_jobs = 0, co_memory = new_store [],
     co_bus = new_bus, co_gateway = \<lparr>gw_host = [], gw_port = 0, gw_server = False, gw_running = False\<rparr>\<rparr>"

definition demo_actor :: "string \<Rightarrow> string list \<Rightarrow> json" where
  "demo_actor i roles = JObj [(''id'', JStr i), (''roles'', JArr (map JStr roles))]"

definition demo_request :: "(string \<times> json) list \<Rightarrow> envelope" where
  "demo_request kvs = (new_envelope ''e'' ''trace'' 6 env_request ''task'' no_actor no_tenant)
     \<lparr>env_payload := print (JObj kvs)\<rparr>"

lemma same_fold_names [simp]:
  "same_fold ''id'' ''id''" "\<not> same_fold ''roles'' ''id''" "\<not> same_fold ''id'' ''kind''"
  "\<not> same_fold ''roles'' ''kind''" "\<not> same_fold ''id'' ''roles''" "same_fold ''roles'' ''roles''"
  "\<not> same_fold ''id'' ''tenant_id''" "\<not> same_fold ''roles'' ''tenant_id''"
  "same_fold ''actor'' ''actor''" "\<not> same_fold ''actor'' ''type''" "\<not> same_fold ''actor'' ''data''"
  "\<not> same_fold ''actor'' ''tenant''" "\<not> same_fold ''actor'' ''message''"
  by (simp_all add: same_fold_def lower_char_def)

lemma json_ok_demo: "json_ok (demo_actor i roles)"
  by (simp add: demo_actor_def)

lemma dec_demo_actor: "dec_identity (print (demo_actor i roles)) no_actor =
    Inr \<lparr>actor_id = i, actor_kind = [], actor_roles = roles, actor_tenant = []\<rparr>"
  unfolding dec_identity_def demo_actor_def
  by (subst obj_fields_print) (simp_all add: no_actor_def)

lemma dec_demo_task: "dec_task (env_payload (demo_request [(''actor'', demo_actor i roles)])) =
    Inr \<lparr>tr_type = [], tr_data = [],
      tr_actor = \<lparr>actor_id = i, actor_kind = [], actor_roles = roles, actor_tenant = []\<rparr>,
      tr_tenant = no_tenant\<rparr>"
  using obj_fields_print [of "[(''actor'', demo_actor i roles)]"]
  by (simp add: dec_task_def demo_request_def json_ok_demo dec_demo_actor)

lemma dec_demo_chat: "dec_chat (env_payload (demo_request [(''actor'', demo_actor i roles)])) =
    Inr \<lparr>cr_message = [],
      cr_actor = \<lparr>actor_id = i, actor_kind = [], actor_roles = roles, actor_tenant = []\<rparr>,
      cr_tenant = no_tenant\<rparr>"
  using obj_fields_print [of "[(''actor'', demo_actor i roles)]"]
  by (simp add: dec_chat_def demo_request_def json_ok_demo dec_demo_actor)

lemma demo_roles: "(\<exists>n \<in> set [''human'']. \<exists>r. eng_roles (co_policy demo_core) n = Some r \<and>
    perm_execute_task \<in> set (role_perms r))"
  by (simp add: demo_core_def engine_start_def default_roles_def)

theorem task_authorized_witness:
  "\<exists>e s'. task_handler demo_env (demo_request [(''actor'', demo_actor ''bob'' [''human''])]) ([], demo_core)
     = (Answer (Some e), ([], s')) \<and> co_jobs s' = 1 \<and> env_trace e = ''trace'' \<and>
   length (eng_audit (co_policy s')) = 1"
proof -
  let ?req = "demo_request [(''actor'', demo_actor ''bob'' [''human''])]"
  obtain out h' s' where run: "task_handler demo_env ?req ([], demo_core) = (out, (h', s'))"
    by (metis surj_pair)
  have h: "h' = []"
    using run by (auto simp: task_handler_def dec_demo_task Let_def split: sum.splits prod.splits)
  let ?p = "(co_exec demo_core)\<lparr>pl_heap := (pl_heap (co_exec demo_core))(0 := new_job ''u0'' 7 [] [] [])\<rparr>"
  have u: "se_uuid demo_env 0 = ''u0''"
  proof -
    have "char_of (48 :: nat) = CHR ''0''" by (simp flip: of_char_eq_iff [where 'a = nat])
    then show ?thesis by (simp add: demo_env_def show_int_def show_nat.simps)
  qed
  have "\<exists>q. submit 7 0 ?p = (Inr (), q)"
    by (simp add: demo_core_def submit_def register_job_def plane_schedule_def schedule_def due_def
        new_job_def new_plane_def new_scheduler_def enqueue_def new_mem_queue_def make_chan_def
        chan_send_def queue_capacity_def)
  with task_authorized [OF dec_demo_task run] run demo_roles u h show ?thesis
    by (auto simp: demo_env_def demo_core_def demo_request_def new_envelope_def audit_append
        engine_start_def new_engine_def split: if_splits)
qed

text \<open>
  Requests without an actor are refused on a started engine: neither the default chat
  actor nor the default task actor has the permission it needs, so \<open>chat\<close> and \<open>task\<close> fail
  and leave nothing but a denied audit record.
\<close>

theorem anonymous_denied:
  assumes "co_policy s = engine_start e"
    and "dec_chat (env_payload req) = Inr cr" "actor_id (cr_actor cr) = []"
    and "dec_task (env_payload req') = Inr tr" "actor_id (tr_actor tr) = []"
  shows "chat_handler se req (h, s) =
      (Failure (Errf ''permission denied: %s'' [FStr perm_create_agent]),
       (h, s\<lparr>co_policy := audit (se_now se) (env_trace req) ''anonymous'' ''chat'' False
              ''permission denied'' (co_policy s)\<rparr>)) \<and>
    task_handler se req' (h, s) =
      (Failure (Errf ''permission denied: %s'' [FStr perm_execute_task]),
       (h, s\<lparr>co_policy := audit (se_now se) (env_trace req') ''anonymous'' ''task'' False
              ''permission denied'' (co_policy s)\<rparr>))"
proof -
  have "\<not> check_roles (eng_roles (co_policy s)) [''human''] perm_create_agent"
    using assms(1) by (simp add: engine_start_def default_roles_def)
  then show ?thesis
    using assms(2-5)
    by (simp add: chat_handler_def task_handler_def authorize_cases Let_def anonymous_chat_def
        anonymous_task_def)
qed

theorem anonymous_denied_witness:
  "fst (chat_handler demo_env (demo_request [(''actor'', demo_actor [] [''admin''])]) ([], demo_core)) =
     Failure (Errf ''permission denied: %s'' [FStr perm_create_agent])"
  using anonymous_denied [OF _ dec_demo_chat _ dec_demo_task, of demo_core new_engine _ _ _ _ demo_env "[]"]
  by (simp add: demo_core_def)

lemma register_handlers_cases:
  assumes "gw_routes (register_handlers ff ft mp se reg (new_gateway host port)) action = Some f"
  shows "(action, f) \<in> {(''chat'', chat_handler se), (''task'', task_handler se),
    (''memory.store'', store_handler mp se), (''memory.search'', search_handler ff ft mp se),
    (''health'', health_handler se reg)}"
  using assms
  by (simp add: register_handlers_def register_handler_def new_gateway_def fun_upd_def split: if_split_asm)

text \<open>The outcomes a handler may have: a response for its action with the trace, or an error.\<close>

fun answers :: "string \<Rightarrow> envelope \<Rightarrow> handled \<Rightarrow> bool" where
  "answers action req (Answer (Some e)) \<longleftrightarrow>
     env_trace e = env_trace req \<and> env_type e = env_response \<and> env_action e = action"
| "answers action req (Failure e) \<longleftrightarrow> True"
| "answers action req _ \<longleftrightarrow> False"

lemma respond_answers: "answers a req (respond se a i t req d)"
  by (cases d) (simp_all add: respond_def with_payload_def new_envelope_def)

text \<open>One introduction rule per construct of a handler's body.\<close>

lemma answers_split:
  "answers a req (fst (Failure e, hs))"
  "answers a req (fst (respond se a i t req d, hs))"
  "(\<And>v. answers a req (fst (f v))) \<Longrightarrow> answers a req (fst (Let w f))"
  "(\<And>x y. answers a req (fst (g x y))) \<Longrightarrow> answers a req (fst (case p of (x, y) \<Rightarrow> g x y))"
  "(\<And>x y. answers a req (fst (l x y z))) \<Longrightarrow> answers a req (fst ((case p of (x, y) \<Rightarrow> l x y) z))"
  "(\<And>e. answers a req (fst (k e))) \<Longrightarrow> (\<And>v. answers a req (fst (f v))) \<Longrightarrow>
     answers a req (fst (case r of Inl e \<Rightarrow> k e | Inr v \<Rightarrow> f v))"
  "answers a req (fst n) \<Longrightarrow> (\<And>v. answers a req (fst (f v))) \<Longrightarrow>
     answers a req (fst (case q of None \<Rightarrow> n | Some v \<Rightarrow> f v))"
  by (simp_all add: respond_answers split: prod.split sum.split option.split)

lemma handlers_answer:
  "answers ''chat'' req (fst (chat_handler se req hs))" "answers ''task'' req (fst (task_handler se req hs))"
  "answers ''memory.store'' req (fst (store_handler mp se req hs))"
  "answers ''memory.search'' req (fst (search_handler ff ft mp se req hs))"
  "answers ''health'' req (fst (health_handler se reg req hs))"
  unfolding chat_handler_def task_handler_def store_handler_def search_handler_def health_handler_def
  by (intro answers_split)+

text \<open>
  Every answer of the five handlers is a response envelope for the action asked for that
  carries the trace ID of its request; no handler returns a nil envelope or panics.
\<close>

theorem handlers_keep_trace:
  assumes "gw_routes (register_handlers ff ft mp se reg (new_gateway host port)) action = Some f"
    and "f req hs = (out, hs')"
  shows "action \<in> {''chat'', ''task'', ''memory.store'', ''memory.search'', ''health''} \<and>
    (case out of
       Answer (Some e) \<Rightarrow> env_trace e = env_trace req \<and> env_type e = env_response \<and> env_action e = action
     | Answer None \<Rightarrow> False
     | Failure _ \<Rightarrow> True
     | Crash _ \<Rightarrow> False)"
proof -
  have out: "out = fst (f req hs)" using assms(2) by simp
  from register_handlers_cases [OF assms(1)] have "answers action req out"
    unfolding out insert_iff empty_iff prod.inject using handlers_answer by metis
  moreover have "action \<in> {''chat'', ''task'', ''memory.store'', ''memory.search'', ''health''}"
    using register_handlers_cases [OF assms(1)] by simp metis
  ultimately show ?thesis by (cases "(action, req, out)" rule: answers.cases) simp_all
qed

theorem handlers_keep_trace_witness:
  "case fst (health_handler demo_env new_registry (demo_request []) ([], demo_core)) of
     Answer (Some e) \<Rightarrow> env_trace e = ''trace'' \<and> env_type e = env_response \<and> env_action e = ''health''
   | _ \<Rightarrow> False"
proof -
  let ?f = "health_handler demo_env new_registry :: (unit, mem_store) core handler_func"
  have "gw_routes (register_handlers (\<lambda>_. []) (\<lambda>_. []) inmemory_plane demo_env new_registry (new_gateway [] 0)) ''health'' = Some ?f"
    by (simp add: register_handlers_def register_handler_def)
  from handlers_keep_trace [OF this prod.collapse [symmetric], of "demo_request []" "([], demo_core)"]
  show ?thesis
    by (simp add: health_handler_def respond_Inr demo_request_def new_envelope_def Let_def)
qed

end
