(* ===== verification/Tdb_Key.thy ===== *)
theory Tdb_Key
  imports Go_Float Go_Strings Prelude
begin

text \<open>
  The key vectors by which records and queries are placed in TardigradeDB
  (\<open>internal/memory/tdb/provider.go\<close> and \<open>internal/agent/tools/tdb.go\<close>): a 64-bit hash,
  cut into bytes, spread over 768 \<open>float32\<close> entries. A key entry is the number it stands for.
\<close>

unbundle bit_operations_syntax

section \<open>Definitions\<close>

definition fnv :: "string \<Rightarrow> 64 word" where
  "fnv b = fold (\<lambda>v h. (h XOR of_nat (of_char v)) * 16777619) b 2166136261"

definition byte_at :: "64 word \<Rightarrow> nat \<Rightarrow> 8 word" where
  "byte_at w i = ucast (drop_bit (i * 8) w)"

definition hash_bytes :: "string \<Rightarrow> 8 word list" where
  "hash_bytes b =
     fold (\<lambda>i h. h[i := byte_at (fnv b) i, i + 8 := byte_at (fnv b) (i + 8),
                   i + 16 := byte_at (fnv b) (i + 16)]) [0..<8] (replicate 32 0)"

definition key_entry :: "8 word list \<Rightarrow> nat \<Rightarrow> rat option" where
  "key_entry h i =
     fl32 (of_nat (unat (push_bit (i mod 56) (ucast (h ! (i mod 8)) :: 64 word) AND 0xFFFF)) / 65535)"

definition derive_key :: "string \<Rightarrow> rat option list" where
  "derive_key content = (let h = hash_bytes content in map (key_entry h) [0..<768])"

text \<open>The search tool hashes the runes of the query text, and keeps eight bytes.\<close>

definition fnv1a_hash :: "string \<Rightarrow> 8 word list" where
  "fnv1a_hash s =
     (let h = fold (\<lambda>c h. (h XOR of_nat c) * 16777619) (runes s) (2166136261 :: 64 word)
      in map (byte_at h) [0..<8])"

definition build_query_key :: "string \<Rightarrow> nat \<Rightarrow> rat option list" where
  "build_query_key query d = (let h = fnv1a_hash query in map (key_entry h) [0..<d])"

section \<open>What a key says about the hash\<close>

lemma hash_bytes_nth: "i < 8 \<Longrightarrow> hash_bytes b ! i = byte_at (fnv b) i"
proof -
  assume "i < 8"
  then have "i \<in> {0, 1, 2, 3, 4, 5, 6, 7}" by auto
  moreover have "[0..<8] = [0 :: nat, 1, 2, 3, 4, 5, 6, 7]" by (simp add: upt_rec)
  ultimately show ?thesis by (auto simp: hash_bytes_def nth_list_update)
qed

definition key_word :: "8 word list \<Rightarrow> nat \<Rightarrow> 64 word" where
  "key_word h i = push_bit (i mod 56) (ucast (h ! (i mod 8))) AND 0xFFFF"

lemma key_entry_word: "key_entry h i = fl32 (of_nat (unat (key_word h i)) / 65535)"
  by (simp add: key_entry_def key_word_def)

lemma bit_low16: "bit (0xFFFF :: 64 word) n \<longleftrightarrow> n < 16"
proof -
  have "(0xFFFF :: 64 word) = mask 16" by (simp add: mask_eq_exp_minus_1)
  then have "bit (0xFFFF :: 64 word) n \<longleftrightarrow> bit (mask 16 :: 64 word) n" by (simp only:)
  then show ?thesis unfolding bit_mask_iff by auto
qed

lemma bit_key_word: "bit (key_word h i) n \<longleftrightarrow>
    n < 16 \<and> i mod 56 \<le> n \<and> bit (h ! (i mod 8)) (n - i mod 56)"
  unfolding key_word_def bit_and_iff bit_low16 bit_push_bit_iff bit_ucast_iff
  by (auto dest: bit_imp_le_length)

lemma key_word_le: "unat (key_word h i) \<le> 65535"
proof -
  have "key_word h i \<le> 0xFFFF" unfolding key_word_def by (rule word_and_le1)
  then show ?thesis by (simp add: word_le_nat_alt)
qed

lemma key_entry_eq: "key_entry h i = key_entry h' j \<longleftrightarrow> key_word h i = key_word h' j"
proof
  assume "key_entry h i = key_entry h' j"
  then have "unat (key_word h i) = unat (key_word h' j)"
    unfolding key_entry_word by (rule fl32_frac_inj [OF key_word_le key_word_le])
  then show "key_word h i = key_word h' j" by (rule word_unat_eq_iff [THEN iffD2])
qed (simp add: key_entry_word)

lemma key_word_high: "16 \<le> i mod 56 \<Longrightarrow> key_word h i = 0"
  by (rule bit_word_eqI) (simp add: bit_key_word)

lemma key_word_byte:
  assumes "i < 8" "key_word h i = key_word h' i"
  shows "h ! i = h' ! i"
proof (rule bit_word_eqI)
  fix n assume "n < LENGTH(8)"
  then have n: "n + i < 16" using assms(1) by simp
  from assms(2) have "bit (key_word h i) (n + i) = bit (key_word h' i) (n + i)" by simp
  with n assms(1) show "bit (h ! i) n = bit (h' ! i) n" by (simp add: bit_key_word)
qed

lemma bytes_eq:
  assumes "\<And>i. i < 8 \<Longrightarrow> byte_at v i = byte_at w i"
  shows "v = w"
proof (rule bit_word_eqI)
  fix n assume "n < LENGTH(64)"
  then have n: "n div 8 < 8" by simp
  have bit: "bit (byte_at u (n div 8)) (n mod 8) = bit u n" for u :: "64 word"
    by (simp add: byte_at_def bit_ucast_iff bit_drop_bit_eq)
  show "bit v n = bit w n" using bit [of v] bit [of w] assms [OF n] by simp
qed

text \<open>
  Two contents get the same key vector exactly when their 64-bit hashes are the same:
  the vector loses nothing of the hash although every entry whose index has a remainder of
  16 or more modulo 56 is zero, that is, all but 224 of the 768.
\<close>

theorem derive_key_collision:
  "(derive_key c = derive_key c' \<longleftrightarrow> fnv c = fnv c') \<and>
   length (derive_key c) = 768 \<and>
   (\<forall>i < 768. 16 \<le> i mod 56 \<longrightarrow> derive_key c ! i = Some 0)"
proof (intro conjI allI impI iffI)
  assume eq: "derive_key c = derive_key c'"
  show "fnv c = fnv c'"
  proof (rule bytes_eq)
    fix i :: nat assume i: "i < 8"
    then have "key_entry (hash_bytes c) i = key_entry (hash_bytes c') i"
      using arg_cong [OF eq, of "\<lambda>k. k ! i"] by (simp add: derive_key_def Let_def)
    then have "hash_bytes c ! i = hash_bytes c' ! i"
      unfolding key_entry_eq by (rule key_word_byte [OF i])
    then show "byte_at (fnv c) i = byte_at (fnv c') i" by (simp add: hash_bytes_nth [OF i])
  qed
next
  assume "fnv c = fnv c'"
  then show "derive_key c = derive_key c'" by (simp add: derive_key_def hash_bytes_def)
next
  show "length (derive_key c) = 768" by (simp add: derive_key_def Let_def)
next
  fix i :: nat assume "i < 768" "16 \<le> i mod 56"
  then show "derive_key c ! i = Some 0"
    by (simp add: derive_key_def Let_def key_entry_word key_word_high fl32_def)
qed

theorem derive_key_collision_witness: "derive_key ''a'' \<noteq> derive_key ''b'' \<and> derive_key ''a'' ! 767 = Some 0"
proof -
  have "fnv ''a'' \<noteq> fnv ''b''" by (simp add: fnv_def)
  with derive_key_collision [of "''a''" "''b''"] show ?thesis by simp
qed

text \<open>
  On ASCII text the key the search tool builds is the key a record with that content was
  written under, entry by entry, so an exact query hits it.
\<close>

theorem query_key_agrees:
  assumes "ascii s"
  shows "build_query_key s 768 = derive_key s"
proof -
  have "fnv1a_hash s = map (byte_at (fnv s)) [0..<8]"
    by (simp add: fnv1a_hash_def fnv_def runes_ascii [OF assms] fold_map comp_def Let_def)
  then have nth: "fnv1a_hash s ! (i mod 8) = hash_bytes s ! (i mod 8)" for i
    by (simp add: hash_bytes_nth)
  then have "key_entry (fnv1a_hash s) = key_entry (hash_bytes s)"
    unfolding key_entry_def by (simp only: nth)
  then show ?thesis by (simp add: build_query_key_def derive_key_def Let_def)
qed

theorem query_key_agrees_witness: "build_query_key ''hydra'' 768 = derive_key ''hydra''"
  by (rule query_key_agrees) (simp add: ascii_def)

text \<open>A text that is not ASCII is hashed differently by the two.\<close>

lemma query_key_differs: "build_query_key [CHR 0xC3, CHR 0xA9] 768 \<noteq> derive_key [CHR 0xC3, CHR 0xA9]"
proof
  let ?s = "[CHR 0xC3, CHR 0xA9]"
  assume eq: "build_query_key ?s 768 = derive_key ?s"
  have r: "runes ?s = [233]" by (simp add: runes_def cont_byte_def)
  have "key_entry (fnv1a_hash ?s) 0 = key_entry (hash_bytes ?s) 0"
    using arg_cong [OF eq, of "\<lambda>k. k ! 0"] by (simp add: build_query_key_def derive_key_def Let_def)
  then have "fnv1a_hash ?s ! 0 = hash_bytes ?s ! 0" unfolding key_entry_eq by (rule key_word_byte [rotated]) simp
  then show False by (simp add: hash_bytes_nth fnv1a_hash_def r fnv_def byte_at_def upt_rec)
qed

end
