(* ===== verification/Http_Client.thy ===== *)
theory Http_Client
  imports Json_Values Go_Fmt
begin

text \<open>
  The part of \<open>net/http\<close>'s client that the outbound callers share. The world outside is
  the argument \<open>net\<close>: whether a request can be built for a method and a URL, and what
  sending it does to the world and answers (a transport error, or a response whose body may
  fail to be read).
\<close>

record http_out =
  ho_method :: string
  ho_url :: string
  ho_headers :: "(string \<times> string) list"
  ho_body :: "string option"
  ho_timeout :: gint

record http_in =
  hi_status :: int
  hi_headers :: "(string \<times> string list) list"
  hi_body :: "string result"

record 'n net =
  nt_request :: "string \<Rightarrow> string \<Rightarrow> unit result"
  nt_do :: "http_out \<Rightarrow> 'n \<Rightarrow> http_in result \<times> 'n"

abbreviation (input) "status_ok \<equiv> 200 :: int"

definition json_header :: "(string \<times> string) list" where
  "json_header = [(''Content-Type'', ''application/json'')]"

text \<open>\<open>client.Post\<close> builds the request and sends it; a URL that does not parse is its error.\<close>

definition http_post :: "'n net \<Rightarrow> gint \<Rightarrow> string \<Rightarrow> string \<Rightarrow> 'n \<Rightarrow> http_in result \<times> 'n" where
  "http_post net timeout url body n =
     (case nt_request net ''POST'' url of
        Inl e \<Rightarrow> (Inl e, n)
      | Inr _ \<Rightarrow> nt_do net \<lparr>ho_method = ''POST'', ho_url = url, ho_headers = json_header,
                           ho_body = Some body, ho_timeout = timeout\<rparr> n)"

definition http_get :: "'n net \<Rightarrow> gint \<Rightarrow> string \<Rightarrow> 'n \<Rightarrow> http_in result \<times> 'n" where
  "http_get net timeout url n =
     (case nt_request net ''GET'' url of
        Inl e \<Rightarrow> (Inl e, n)
      | Inr _ \<Rightarrow> nt_do net \<lparr>ho_method = ''GET'', ho_url = url, ho_headers = [],
                           ho_body = None, ho_timeout = timeout\<rparr> n)"

text \<open>
  \<open>Header.Set\<close> on a header kept as a list of single values: the canonical form of a key of
  token characters has each word after a hyphen capitalised and the rest in lower case.
\<close>

definition token_char :: "char \<Rightarrow> bool" where
  "token_char c \<longleftrightarrow>
     (let n = of_char c :: nat in
      48 \<le> n \<and> n \<le> 57 \<or> 65 \<le> n \<and> n \<le> 90 \<or> 97 \<le> n \<and> n \<le> 122 \<or>
      n \<in> {33, 35, 36, 37, 38, 39, 42, 43, 45, 46, 94, 95, 96, 124, 126})"

fun canon_chars :: "bool \<Rightarrow> string \<Rightarrow> string" where
  "canon_chars up [] = []"
| "canon_chars up (c # s) =
     (if up then upper_char c else lower_char c) # canon_chars (c = CHR ''-'') s"

definition canonical_key :: "string \<Rightarrow> string" where
  "canonical_key k = (if list_all token_char k then canon_chars True k else k)"

definition header_set :: "string \<Rightarrow> string \<Rightarrow> (string \<times> string) list \<Rightarrow> (string \<times> string) list" where
  "header_set k v hs = filter (\<lambda>h. fst h \<noteq> canonical_key k) hs @ [(canonical_key k, v)]"

text \<open>A world that logs what it is sent and answers from a script.\<close>

definition scripted_net :: "(http_out \<Rightarrow> http_in result) \<Rightarrow> http_out list net" where
  "scripted_net f = \<lparr>nt_request = \<lambda>_ _. Inr (), nt_do = \<lambda>r sent. (f r, sent @ [r])\<rparr>"

lemma scripted_net_simps [simp]:
  "nt_request (scripted_net f) m u = Inr ()"
  "nt_do (scripted_net f) r sent = (f r, sent @ [r])"
  by (simp_all add: scripted_net_def)

definition answer :: "int \<Rightarrow> string \<Rightarrow> http_in" where
  "answer st body = \<lparr>hi_status = st, hi_headers = [], hi_body = Inr body\<rparr>"

lemma answer_simps [simp]: "hi_status (answer st b) = st" "hi_body (answer st b) = Inr b"
  by (simp_all add: answer_def)

end
