(* ===== verification/Tdb.thy ===== *)
theory Tdb
  imports Tdb_Key Memory Http_Client
begin

text \<open>
  The memory provider backed by a TardigradeDB server (\<open>internal/memory/tdb/provider.go\<close>).
  The server is behind the argument \<open>net\<close>; a \<open>tdb\<close> holds the world it lives in and the
  heap of the records, where \<open>Read\<close> and \<open>Search\<close> allocate what they return. The floats of a
  request are written by \<open>ff\<close> (\<open>float64\<close>) and \<open>ff32\<close>, time stamps by \<open>ft\<close>.
\<close>

section \<open>Definitions\<close>

record 'n tdb =
  td_net :: 'n
  td_heap :: "memory list"

definition layer_from_type :: "mem_type \<Rightarrow> gint" where
  "layer_from_type t =
     (if t = episodic then 0 else if t = semantic then 1 else if t = operational then 2
      else if t = working then 3 else 0)"

definition type_from_layer :: "gint \<Rightarrow> mem_type" where
  "type_from_layer l =
     (if l = 0 then episodic else if l = 1 then semantic else if l = 2 then operational
      else if l = 3 then working else semantic)"

definition tdb_timeout :: gint where
  "tdb_timeout = 10 * second"

definition key_json :: "(rat \<Rightarrow> string) \<Rightarrow> rat option list \<Rightarrow> json result" where
  "key_json ff32 k = map_sum id JArr (all_results (map (num_json ff32) k))"

text \<open>The keys of a marshalled map are sorted.\<close>

definition write_payload :: "(rat \<Rightarrow> string) \<Rightarrow> (rat \<Rightarrow> string) \<Rightarrow> memory \<Rightarrow> json result" where
  "write_payload ff32 ff m =
     bind (key_json ff32 (derive_key (mem_content m))) (\<lambda>k.
     bind (num_json ff (fl64 (mem_confidence m * 100))) (\<lambda>sal.
     bind (payload_json (mem_content m)) (\<lambda>v.
       Inr (JObj [(''key'', k), (''layer'', int_json (layer_from_type (mem_type m))),
                  (''owner'', JStr (mem_actor m)), (''salience'', sal), (''value'', v)]))))"

definition dec_cell_id :: "raw \<Rightarrow> gint result" where
  "dec_cell_id p = bind (obj_fields p) (\<lambda>fs. dec_field ''cell_id'' dec_int fs 0)"

definition tdb_write :: "(rat \<Rightarrow> string) \<Rightarrow> (rat \<Rightarrow> string) \<Rightarrow> 'n net \<Rightarrow> string \<Rightarrow> ref \<Rightarrow> 'n tdb \<Rightarrow>
    unit result \<times> 'n tdb" where
  "tdb_write ff32 ff net base r s =
     (case write_payload ff32 ff (td_heap s ! r) of
        Inl e \<Rightarrow> (Inl (Wrapf ''marshal mem_write payload: %w'' [] e), s)
      | Inr body \<Rightarrow>
     (case http_post net tdb_timeout (base @ ''/mem/write'') (print body) (td_net s) of
        (Inl e, n) \<Rightarrow> (Inl (Wrapf ''tdb /mem/write: %w'' [] e), s\<lparr>td_net := n\<rparr>)
      | (Inr resp, n) \<Rightarrow>
          let s = s\<lparr>td_net := n\<rparr> in
     (case hi_body resp of
        Inl e \<Rightarrow> (Inl (Wrapf ''read mem_write response: %w'' [] e), s)
      | Inr raw \<Rightarrow>
          if hi_status resp \<noteq> status_ok
          then (Inl (Errf ''tdb /mem/write: HTTP %d'' [FInt (hi_status resp)]), s)
          else case dec_cell_id raw of
                 Inl e \<Rightarrow> (Inl (Wrapf ''decode mem_write response: %w'' [] e), s)
               | Inr _ \<Rightarrow> (Inr (), s))))"

record cell =
  ce_id :: gint
  ce_owner :: string
  ce_layer :: gint
  ce_importance :: rat
  ce_tier :: string
  ce_key_dim :: gint
  ce_value_dim :: gint

definition dec_cell :: "raw \<Rightarrow> cell result" where
  "dec_cell p =
     bind (obj_fields p) (\<lambda>fs.
     bind (dec_field ''cell_id'' dec_int fs 0) (\<lambda>i.
     bind (dec_field ''owner'' dec_string fs []) (\<lambda>ow.
     bind (dec_field ''layer'' dec_int fs 0) (\<lambda>l.
     bind (dec_field ''importance'' dec_float fs 0) (\<lambda>im.
     bind (dec_field ''tier'' dec_string fs []) (\<lambda>ti.
     bind (dec_field ''key_dim'' dec_int fs 0) (\<lambda>kd.
     bind (dec_field ''value_dim'' dec_int fs 0) (\<lambda>vd.
       Inr \<lparr>ce_id = i, ce_owner = ow, ce_layer = l, ce_importance = im, ce_tier = ti,
            ce_key_dim = kd, ce_value_dim = vd\<rparr>))))))))"

text \<open>Dividing a finite float by 100 stays finite: the second case does not occur.\<close>

definition per_cent :: "rat \<Rightarrow> rat" where
  "per_cent q = (case fl64 (q / 100) of Some r \<Rightarrow> r | None \<Rightarrow> 0)"

definition cell_memory :: "string \<Rightarrow> gint \<Rightarrow> string \<Rightarrow> rat \<Rightarrow> memory" where
  "cell_memory i layer owner importance =
     \<lparr>mem_id = i, mem_type = type_from_layer layer, mem_content = [], mem_tags = [],
      mem_confidence = per_cent importance, mem_actor = owner, mem_tenant = [], mem_meta = Map.empty,
      mem_created = zero_time, mem_accessed = zero_time, mem_expires = zero_time\<rparr>"

definition cell_url :: "string \<Rightarrow> string \<Rightarrow> string" where
  "cell_url base i = base @ ''/cells/'' @ i"

definition tdb_read :: "'n net \<Rightarrow> string \<Rightarrow> string \<Rightarrow> 'n tdb \<Rightarrow> ref result \<times> 'n tdb" where
  "tdb_read net base i s =
     (case http_get net tdb_timeout (cell_url base i) (td_net s) of
        (Inl e, n) \<Rightarrow> (Inl (Wrapf ''tdb /cells/%s: %w'' [FStr i] e), s\<lparr>td_net := n\<rparr>)
      | (Inr resp, n) \<Rightarrow>
          let s = s\<lparr>td_net := n\<rparr> in
     (case hi_body resp of
        Inl e \<Rightarrow> (Inl (Wrapf ''read cell response: %w'' [] e), s)
      | Inr raw \<Rightarrow>
          if hi_status resp = 404 then (Inl (Errf ''memory %q not found'' [FStr i]), s)
          else if hi_status resp \<noteq> status_ok
          then (Inl (Errf ''tdb /cells/%s: HTTP %d'' [FStr i, FInt (hi_status resp)]), s)
          else case dec_cell raw of
                 Inl e \<Rightarrow> (Inl (Wrapf ''decode cell response: %w'' [] e), s)
               | Inr c \<Rightarrow>
                   (Inr (length (td_heap s)),
                    s\<lparr>td_heap := td_heap s @
                       [cell_memory i (ce_layer c) (ce_owner c) (ce_importance c)]\<rparr>)))"

text \<open>The query struct has no field tags: its Go names in order; no tags is the nil slice.\<close>

definition query_json :: "(rat \<Rightarrow> string) \<Rightarrow> (time \<Rightarrow> string) \<Rightarrow> search_query \<Rightarrow> json" where
  "query_json ff ft q =
     JObj [(''Type'', JStr (sq_type q)),
           (''Tags'', if sq_tags q = [] then JNull else JArr (map JStr (sq_tags q))),
           (''ActorID'', JStr (sq_actor q)), (''TenantID'', JStr (sq_tenant q)),
           (''Limit'', int_json (sq_limit q)), (''Since'', JStr (ft (sq_since q))),
           (''MinConfidence'', JNum (ff (sq_min_confidence q)))]"

definition query_key :: "(rat \<Rightarrow> string) \<Rightarrow> (time \<Rightarrow> string) \<Rightarrow> search_query \<Rightarrow> rat option list" where
  "query_key ff ft q =
     (let h = hash_bytes (print (query_json ff ft q)) in map (key_entry h) [0..<768])"

record hit =
  hit_id :: gint
  hit_owner :: string
  hit_layer :: gint
  hit_score :: rat
  hit_tier :: string
  hit_importance :: rat

definition zero_hit :: hit where
  "zero_hit = \<lparr>hit_id = 0, hit_owner = [], hit_layer = 0, hit_score = 0, hit_tier = [], hit_importance = 0\<rparr>"

definition dec_hit :: "hit decoder" where
  "dec_hit v h =
     bind (obj_fields v) (\<lambda>fs.
     bind (dec_field ''cell_id'' dec_int fs (hit_id h)) (\<lambda>i.
     bind (dec_field ''owner'' dec_string fs (hit_owner h)) (\<lambda>ow.
     bind (dec_field ''layer'' dec_int fs (hit_layer h)) (\<lambda>l.
     bind (dec_field ''score'' dec_float fs (hit_score h)) (\<lambda>sc.
     bind (dec_field ''tier'' dec_string fs (hit_tier h)) (\<lambda>ti.
     bind (dec_field ''importance'' dec_float fs (hit_importance h)) (\<lambda>im.
       Inr \<lparr>hit_id = i, hit_owner = ow, hit_layer = l, hit_score = sc, hit_tier = ti,
            hit_importance = im\<rparr>)))))))"

definition dec_hits :: "raw \<Rightarrow> hit list result" where
  "dec_hits p =
     bind (obj_fields p) (\<lambda>fs. dec_field ''results'' (dec_list dec_hit zero_hit) fs [])"

definition tdb_limit :: "gint \<Rightarrow> gint" where
  "tdb_limit k = (if sint k \<le> 0 then 50 else k)"

definition tdb_search :: "(rat \<Rightarrow> string) \<Rightarrow> (rat \<Rightarrow> string) \<Rightarrow> (time \<Rightarrow> string) \<Rightarrow> 'n net \<Rightarrow> string \<Rightarrow>
    search_query \<Rightarrow> 'n tdb \<Rightarrow> ref list result \<times> 'n tdb" where
  "tdb_search ff32 ff ft net base q s =
     (case bind (key_json ff32 (query_key ff ft q)) (\<lambda>k.
             Inr (JObj [(''k'', int_json (tdb_limit (sq_limit q))), (''query_key'', k)])) of
        Inl e \<Rightarrow> (Inl (Wrapf ''marshal mem_read payload: %w'' [] e), s)
      | Inr body \<Rightarrow>
     (case http_post net tdb_timeout (base @ ''/mem/read'') (print body) (td_net s) of
        (Inl e, n) \<Rightarrow> (Inl (Wrapf ''tdb /mem/read: %w'' [] e), s\<lparr>td_net := n\<rparr>)
      | (Inr resp, n) \<Rightarrow>
          let s = s\<lparr>td_net := n\<rparr> in
     (case hi_body resp of
        Inl e \<Rightarrow> (Inl (Wrapf ''read mem_read response: %w'' [] e), s)
      | Inr raw \<Rightarrow>
          if hi_status resp \<noteq> status_ok
          then (Inl (Errf ''tdb /mem/read: HTTP %d'' [FInt (hi_status resp)]), s)
          else case dec_hits raw of
                 Inl e \<Rightarrow> (Inl (Wrapf ''decode mem_read response: %w'' [] e), s)
               | Inr hits \<Rightarrow>
                   (Inr (map (\<lambda>i. length (td_heap s) + i) [0..<length hits]),
                    s\<lparr>td_heap := td_heap s @
                       map (\<lambda>h. cell_memory (sprintf ''%d'' [FInt (sint (hit_id h))]) (hit_layer h)
                                  (hit_owner h) (hit_importance h)) hits\<rparr>))))"

definition tdb_delete :: "string \<Rightarrow> 'n tdb \<Rightarrow> unit result \<times> 'n tdb" where
  "tdb_delete i s = (Inr (), s)"

definition tdb_provider :: "(rat \<Rightarrow> string) \<Rightarrow> (rat \<Rightarrow> string) \<Rightarrow> (time \<Rightarrow> string) \<Rightarrow> 'n net \<Rightarrow> string \<Rightarrow>
    'n tdb provider" where
  "tdb_provider ff32 ff ft net base =
     \<lparr>pv_write = tdb_write ff32 ff net base, pv_read = \<lambda>_. tdb_read net base,
      pv_search = \<lambda>_. tdb_search ff32 ff ft net base, pv_delete = tdb_delete\<rparr>"

section \<open>What survives\<close>

lemma type_layer [simp]:
  "t \<in> {episodic, semantic, operational, working} \<Longrightarrow> type_from_layer (layer_from_type t) = t"
  by (auto simp: type_from_layer_def layer_from_type_def)

text \<open>A cell as the server describes it, with the number text \<open>im\<close> as its importance.\<close>

definition cell_json :: "cell \<Rightarrow> string \<Rightarrow> json" where
  "cell_json c im =
     JObj [(''cell_id'', int_json (ce_id c)), (''owner'', JStr (ce_owner c)),
           (''layer'', int_json (ce_layer c)), (''importance'', JNum im), (''tier'', JStr (ce_tier c)),
           (''key_dim'', int_json (ce_key_dim c)), (''value_dim'', int_json (ce_value_dim c))]"

lemma dec_float_print:
  "num_ok im \<Longrightarrow> fl64 (read_rat im) = Some q \<Longrightarrow> dec_float (print (JNum im)) x = Inr q"
  using parse_print [of "JNum im"] by (simp add: dec_float_def)

lemma dec_cell_json:
  assumes "num_ok im" "fl64 (read_rat im) = Some (ce_importance c)"
  shows "dec_cell (print (cell_json c im)) = Inr c"
  unfolding dec_cell_def cell_json_def using assms
  by (subst obj_fields_print)
     (simp_all add: field_names dec_float_print del: print.simps)

text \<open>
  C39. A record of one of the four types that TardigradeDB holds as a cell (its layer and
  owner being the ones \<open>Write\<close> sends for the record) is recalled under the cell's number
  with its type and actor, but without its content, tags and tenant. \<open>Forget\<close> answers that
  all is well without calling the server, so the record is recalled afterwards as before.
\<close>

theorem tdb_recall:
  fixes net :: "'n net"
  assumes "mem_type m \<in> {episodic, semantic, operational, working}"
    and "ce_layer c = layer_from_type (mem_type m)" "ce_owner c = mem_actor m"
    and "num_ok im" "fl64 (read_rat im) = Some (ce_importance c)"
    and "nt_request net ''GET'' (cell_url base i) = Inr ()"
    and "\<And>n. nt_do net \<lparr>ho_method = ''GET'', ho_url = cell_url base i, ho_headers = [],
        ho_body = None, ho_timeout = tdb_timeout\<rparr> n = (Inr (answer 200 (print (cell_json c im))), got n)"
  shows "\<exists>a s1 m'. plane_forget (tdb_provider ff32 ff ft net base) i s = (Inr (), s) \<and>
    plane_recall (tdb_provider ff32 ff ft net base) now i s = (Inr a, s1) \<and>
    td_heap s1 = td_heap s @ [m'] \<and> a = length (td_heap s) \<and>
    mem_id m' = i \<and> mem_type m' = mem_type m \<and> mem_actor m' = mem_actor m \<and>
    mem_confidence m' = per_cent (ce_importance c) \<and>
    mem_content m' = [] \<and> mem_tags m' = [] \<and> mem_tenant m' = []"
proof -
  let ?m = "cell_memory i (ce_layer c) (ce_owner c) (ce_importance c)"
  have "tdb_read net base i s =
      (Inr (length (td_heap s)), \<lparr>td_net = got (td_net s), td_heap = td_heap s @ [?m]\<rparr>)"
    by (simp add: tdb_read_def http_get_def assms(6,7) dec_cell_json [OF assms(4,5)] Let_def)
  then show ?thesis using assms(1-3)
    by (simp add: plane_recall_def plane_forget_def tdb_provider_def tdb_delete_def
        cell_memory_def)
qed

definition note_memory :: memory where
  "note_memory = new_memory ''m1'' 5 operational ''{}'' ''bob'' ''acme''"

definition note_cell :: cell where
  "note_cell = \<lparr>ce_id = 7, ce_owner = ''bob'', ce_layer = 2, ce_importance = 0, ce_tier = [],
     ce_key_dim = 768, ce_value_dim = 0\<rparr>"

definition note_net :: "nat net" where
  "note_net = \<lparr>nt_request = \<lambda>_ _. Inr (),
     nt_do = \<lambda>_ n. (Inr (answer 200 (print (cell_json note_cell (show_int 0)))), Suc n)\<rparr>"

theorem tdb_recall_witness:
  "\<exists>a s1 m'. plane_recall (tdb_provider (\<lambda>_. []) (\<lambda>_. []) (\<lambda>_. []) note_net ''b'') 9 ''7''
       \<lparr>td_net = 0, td_heap = []\<rparr> = (Inr a, s1) \<and> td_heap s1 = [m'] \<and>
     mem_type m' = operational \<and> mem_content m' = []"
proof -
  have im: "fl64 (read_rat (show_int 0)) = Some (ce_importance note_cell)"
    by (simp add: note_cell_def)
  have "mem_type note_memory \<in> {episodic, semantic, operational, working}"
    "ce_layer note_cell = layer_from_type (mem_type note_memory)"
    "ce_owner note_cell = mem_actor note_memory"
    "mem_type note_memory = operational"
    by (simp_all add: note_memory_def new_memory_def note_cell_def layer_from_type_def)
  note m = this
  from tdb_recall [OF m(1-3) num_ok_show_int im, of note_net "''b''" "''7''" Suc "\<lambda>_. []" "\<lambda>_. []"
      "\<lambda>_. []" "\<lparr>td_net = 0, td_heap = []\<rparr>" 9] m(4)
  show ?thesis by (fastforce simp: note_net_def)
qed

end
