(* ===== verification/Llm.thy ===== *)
theory Llm
  imports Http_Client
begin

text \<open>
  The client of the LLM sidecar (\<open>internal/llm/client.go\<close>): the request it encodes, the
  answers it accepts and the errors it reports. The sidecar is behind the argument \<open>net\<close>.
\<close>

definition default_base_url :: string where
  "default_base_url = ''http://localhost:3100''"

definition default_timeout :: gint where
  "default_timeout = 120 * second"

record complete_request =
  cq_system :: string
  cq_user :: string
  cq_max_tokens :: gint
  cq_temperature :: "rat option"
  cq_model :: string

record usage =
  us_input :: gint
  us_output :: gint

record complete_response =
  cp_text :: string
  cp_usage :: usage
  cp_error :: string

record llm_client =
  lc_base_url :: string
  lc_timeout :: gint

datatype client_option = With_Base_URL string | With_Timeout gint

fun apply_client_option :: "client_option \<Rightarrow> llm_client \<Rightarrow> llm_client" where
  "apply_client_option (With_Base_URL u) c = c\<lparr>lc_base_url := u\<rparr>"
| "apply_client_option (With_Timeout d) c = c\<lparr>lc_timeout := d\<rparr>"

definition new_client :: "client_option list \<Rightarrow> llm_client" where
  "new_client opts =
     fold apply_client_option opts \<lparr>lc_base_url = default_base_url, lc_timeout = default_timeout\<rparr>"

definition request_json :: "(rat \<Rightarrow> string) \<Rightarrow> complete_request \<Rightarrow> json" where
  "request_json ff q =
     JObj ([(''systemPrompt'', JStr (cq_system q)), (''userMessage'', JStr (cq_user q))] @
       (if cq_max_tokens q = 0 then [] else [(''maxTokens'', int_json (cq_max_tokens q))]) @
       (case cq_temperature q of None \<Rightarrow> [] | Some t \<Rightarrow> [(''temperature'', JNum (ff t))]) @
       (if cq_model q = [] then [] else [(''model'', JStr (cq_model q))]))"

definition zero_usage :: usage where
  "zero_usage = \<lparr>us_input = 0, us_output = 0\<rparr>"

definition dec_usage :: "usage decoder" where
  "dec_usage v u =
     bind (obj_fields v) (\<lambda>fs.
     bind (dec_field ''inputTokens'' dec_int fs (us_input u)) (\<lambda>i.
     bind (dec_field ''outputTokens'' dec_int fs (us_output u)) (\<lambda>out.
       Inr \<lparr>us_input = i, us_output = out\<rparr>)))"

definition dec_response :: "raw \<Rightarrow> complete_response result" where
  "dec_response p =
     bind (obj_fields p) (\<lambda>fs.
     bind (dec_field ''text'' dec_string fs []) (\<lambda>t.
     bind (dec_field ''usage'' dec_usage fs zero_usage) (\<lambda>u.
     bind (dec_field ''error'' dec_string fs []) (\<lambda>e.
       Inr \<lparr>cp_text = t, cp_usage = u, cp_error = e\<rparr>))))"

text \<open>The error field of an answer that is not 200, empty when there is none.\<close>

definition dec_error :: "raw \<Rightarrow> string result" where
  "dec_error p = bind (obj_fields p) (\<lambda>fs. dec_field ''error'' dec_string fs [])"

definition complete :: "(rat \<Rightarrow> string) \<Rightarrow> 'n net \<Rightarrow> llm_client \<Rightarrow> complete_request \<Rightarrow> 'n \<Rightarrow>
    complete_response result \<times> 'n" where
  "complete ff net c q n =
     (let body = print (request_json ff q); url = lc_base_url c @ ''/complete'' in
      case nt_request net ''POST'' url of
        Inl e \<Rightarrow> (Inl (Wrapf ''create request: %w'' [] e), n)
      | Inr _ \<Rightarrow>
     (case nt_do net \<lparr>ho_method = ''POST'', ho_url = url, ho_headers = json_header,
                      ho_body = Some body, ho_timeout = lc_timeout c\<rparr> n of
        (Inl e, n) \<Rightarrow> (Inl (Wrapf ''sidecar request: %w'' [] e), n)
      | (Inr resp, n) \<Rightarrow>
     (case hi_body resp of
        Inl e \<Rightarrow> (Inl (Wrapf ''read response: %w'' [] e), n)
      | Inr raw \<Rightarrow>
          if hi_status resp \<noteq> status_ok
          then (case dec_error raw of
                  Inr m \<Rightarrow>
                    if m \<noteq> [] then (Inl (Errf ''sidecar error: %s'' [FStr m]), n)
                    else (Inl (Errf ''sidecar HTTP %d: %s'' [FInt (hi_status resp), FStr raw]), n)
                | Inl _ \<Rightarrow> (Inl (Errf ''sidecar HTTP %d: %s'' [FInt (hi_status resp), FStr raw]), n))
          else case dec_response raw of
                 Inl e \<Rightarrow> (Inl (Wrapf ''decode response: %w'' [] e), n)
               | Inr r \<Rightarrow>
                   if cp_error r \<noteq> [] then (Inl (Errf ''sidecar error: %s'' [FStr (cp_error r)]), n)
                   else (Inr r, n))))"

definition llm_health :: "'n net \<Rightarrow> llm_client \<Rightarrow> 'n \<Rightarrow> unit result \<times> 'n" where
  "llm_health net c n =
     (let url = lc_base_url c @ ''/health'' in
      case nt_request net ''GET'' url of
        Inl e \<Rightarrow> (Inl (Wrapf ''create health request: %w'' [] e), n)
      | Inr _ \<Rightarrow>
     (case nt_do net \<lparr>ho_method = ''GET'', ho_url = url, ho_headers = [], ho_body = None,
                      ho_timeout = lc_timeout c\<rparr> n of
        (Inl e, n) \<Rightarrow> (Inl (Wrapf ''sidecar unreachable: %w'' [] e), n)
      | (Inr resp, n) \<Rightarrow>
          if hi_status resp \<noteq> status_ok
          then (Inl (Errf ''sidecar unhealthy: HTTP %d'' [FInt (hi_status resp)]), n)
          else (Inr (), n)))"

section \<open>Exchanges\<close>

text \<open>How a sidecar encodes its answer.\<close>

definition usage_json :: "usage \<Rightarrow> json" where
  "usage_json u = JObj [(''inputTokens'', int_json (us_input u)), (''outputTokens'', int_json (us_output u))]"

definition response_json :: "complete_response \<Rightarrow> json" where
  "response_json r =
     JObj ([(''text'', JStr (cp_text r)), (''usage'', usage_json (cp_usage r))] @
       (if cp_error r = [] then [] else [(''error'', JStr (cp_error r))]))"

lemma same_fold_llm [simp]:
  "same_fold ''text'' ''text''" "\<not> same_fold ''usage'' ''text''" "\<not> same_fold ''error'' ''text''"
  "\<not> same_fold ''text'' ''usage''" "same_fold ''usage'' ''usage''" "\<not> same_fold ''error'' ''usage''"
  "\<not> same_fold ''text'' ''error''" "\<not> same_fold ''usage'' ''error''" "same_fold ''error'' ''error''"
  "same_fold ''inputTokens'' ''inputTokens''" "\<not> same_fold ''outputTokens'' ''inputTokens''"
  "\<not> same_fold ''inputTokens'' ''outputTokens''" "same_fold ''outputTokens'' ''outputTokens''"
  by (simp_all add: same_fold_def lower_char_def)

lemma dec_usage_json: "dec_usage (print (usage_json u)) z = Inr u"
  unfolding dec_usage_def usage_json_def
  by (subst obj_fields_print) simp_all

lemma dec_response_json: "dec_response (print (response_json r)) = Inr r"
proof -
  have ok: "json_ok (usage_json u)" for u by (simp add: usage_json_def)
  show ?thesis
  proof (cases "cp_error r = []")
    case True
    then have fs: "obj_fields (print (response_json r)) =
        Inr [(''text'', print (JStr (cp_text r))), (''usage'', print (usage_json (cp_usage r)))]"
      using obj_fields_print [of "[(''text'', JStr (cp_text r)), (''usage'', usage_json (cp_usage r))]"]
      by (simp add: response_json_def ok del: print.simps)
    then show ?thesis using True
      by (simp add: dec_response_def dec_usage_json del: print.simps)
  next
    case False
    then have fs: "obj_fields (print (response_json r)) =
        Inr [(''text'', print (JStr (cp_text r))), (''usage'', print (usage_json (cp_usage r))),
             (''error'', print (JStr (cp_error r)))]"
      using obj_fields_print [of "[(''text'', JStr (cp_text r)), (''usage'', usage_json (cp_usage r)),
          (''error'', JStr (cp_error r))]"]
      by (simp add: response_json_def ok del: print.simps)
    then show ?thesis
      by (simp add: dec_response_def dec_usage_json del: print.simps)
  qed
qed

lemma request_json_ok: "(\<And>q. num_ok (ff q)) \<Longrightarrow> json_ok (request_json ff q)"
  by (auto simp: request_json_def split: option.split)

text \<open>
  C35. \<open>Complete\<close> sends one POST to the sidecar's \<open>/complete\<close> whose body parses back to the
  request. A 200 answer that encodes a response is returned unchanged, unless it carries an
  error text, which becomes the error; a 200 answer that does not decode is an error; and an
  answer with another status is an error whatever its body, with the error text of the body
  or else the status and the body.
\<close>

theorem llm_complete_exchange:
  assumes "\<And>q. num_ok (ff q)"
    and "\<And>body. parse body = Some (request_json ff q) \<Longrightarrow>
      nt_do net \<lparr>ho_method = ''POST'', ho_url = lc_base_url c @ ''/complete'', ho_headers = json_header,
        ho_body = Some body, ho_timeout = lc_timeout c\<rparr> n = (Inr (answer st b), n')"
    and "nt_request net ''POST'' (lc_base_url c @ ''/complete'') = Inr ()"
  shows "\<exists>res. complete ff net c q n = (res, n') \<and>
    (if st = 200
     then (\<forall>r. b = print (response_json r) \<longrightarrow>
             res = (if cp_error r = [] then Inr r else Inl (Errf ''sidecar error: %s'' [FStr (cp_error r)]))) \<and>
       (\<forall>e. dec_response b = Inl e \<longrightarrow> res = Inl (Wrapf ''decode response: %w'' [] e))
     else res = Inl (case dec_error b of
         Inr m \<Rightarrow> if m \<noteq> [] then Errf ''sidecar error: %s'' [FStr m] else Errf ''sidecar HTTP %d: %s'' [FInt st, FStr b]
       | Inl _ \<Rightarrow> Errf ''sidecar HTTP %d: %s'' [FInt st, FStr b]))"
proof -
  have "parse (print (request_json ff q)) = Some (request_json ff q)"
    by (rule parse_print) (rule request_json_ok [OF assms(1)])
  note sent = assms(2) [OF this]
  show ?thesis
    using assms(3) by (auto simp: complete_def sent dec_response_json Let_def split: sum.split)
qed

definition hi_there :: complete_response where
  "hi_there = \<lparr>cp_text = ''hi'', cp_usage = \<lparr>us_input = 3, us_output = 1\<rparr>, cp_error = []\<rparr>"

definition hello :: complete_request where
  "hello = \<lparr>cq_system = ''s'', cq_user = ''u'', cq_max_tokens = 5, cq_temperature = Some (1 / 2), cq_model = []\<rparr>"

theorem llm_complete_exchange_witness:
  "complete (\<lambda>_. show_int 0) \<lparr>nt_request = \<lambda>_ _. Inr (), nt_do = \<lambda>_ n. (Inr (answer 200 (print (response_json hi_there))), Suc n)\<rparr>
     (new_client []) hello 0 = (Inr hi_there, 1) \<and>
   fst (complete (\<lambda>_. show_int 0) \<lparr>nt_request = \<lambda>_ _. Inr (), nt_do = \<lambda>_ n. (Inr (answer 502 ''?''), Suc n)\<rparr>
     (new_client []) hello 0) \<noteq> Inr hi_there"
proof -
  let ?net = "\<lambda>st b. \<lparr>nt_request = \<lambda>_ _. Inr (), nt_do = \<lambda>_ n. (Inr (answer st b), Suc n)\<rparr>"
  note run = llm_complete_exchange [of "\<lambda>_. show_int 0" hello _ "new_client []" 0 _ _ 1, OF num_ok_show_int]
  from run [of "?net 200 (print (response_json hi_there))" 200 "print (response_json hi_there)"]
    run [of "?net 502 ''?''" 502 "''?''"]
  show ?thesis by (auto simp: hi_there_def simp del: print.simps)
qed

end
