(* ===== verification/Tools.thy ===== *)
theory Tools
  imports Tdb Llm Agent
begin

text \<open>
  The built-in tools of agents (\<open>internal/agent/tools\<close>): writing and searching the memory
  plane, a search of TardigradeDB, an outbound HTTP request and an LLM completion. Each
  takes the raw JSON of its input and returns raw JSON or an error.
\<close>

section \<open>Memory tools\<close>

definition tdb_plane :: "(rat \<Rightarrow> string) \<Rightarrow> (rat \<Rightarrow> string) \<Rightarrow> (time \<Rightarrow> string) \<Rightarrow> 'n net \<Rightarrow> string \<Rightarrow>
    'n tdb memory_plane" where
  "tdb_plane ff32 ff ft net base =
     \<lparr>mp_provider = tdb_provider ff32 ff ft net base,
      mp_alloc = \<lambda>m s. (length (td_heap s), s\<lparr>td_heap := td_heap s @ [m]\<rparr>),
      mp_load = \<lambda>s r. td_heap s ! r, mp_nil = False\<rparr>"

record write_input =
  mw_type :: string
  mw_content :: "json option"
  mw_actor :: string
  mw_confidence :: rat
  mw_tags :: "string list"

definition dec_write_input :: "(rat \<Rightarrow> string) \<Rightarrow> raw \<Rightarrow> write_input result" where
  "dec_write_input ff p =
     bind (obj_fields p) (\<lambda>fs.
     bind (dec_field ''type'' dec_string fs []) (\<lambda>ty.
     bind (dec_field ''content'' (dec_any_map ff) fs None) (\<lambda>c.
     bind (dec_field ''actor_id'' dec_string fs []) (\<lambda>a.
     bind (dec_field ''confidence'' dec_float fs 0) (\<lambda>conf.
     bind (dec_field ''tags'' dec_strings fs []) (\<lambda>tags.
       Inr \<lparr>mw_type = ty, mw_content = c, mw_actor = a, mw_confidence = conf, mw_tags = tags\<rparr>))))))"

text \<open>The type, and the error that goes with it.\<close>

definition parse_memory_type :: "string \<Rightarrow> mem_type \<times> go_error option" where
  "parse_memory_type s =
     (if s = [] \<or> s = episodic then (episodic, None)
      else if s = semantic then (semantic, None)
      else if s = operational then (operational, None)
      else if s = working then (working, None)
      else (episodic, Some (Errf ''unknown memory type %q'' [FStr s])))"

text \<open>The \<open>float64\<close> nearest to 0.8.\<close>

definition default_confidence :: rat where
  "default_confidence = 3602879701896397 / 4503599627370496"

definition memory_write_exec :: "(rat \<Rightarrow> string) \<Rightarrow> 's memory_plane \<Rightarrow> string \<Rightarrow> time \<Rightarrow> raw \<Rightarrow> 's \<Rightarrow>
    raw result \<times> 's" where
  "memory_write_exec ff mp uuid now input s =
     (case dec_write_input ff input of
        Inl e \<Rightarrow> (Inl (Wrapf ''memory_write: unmarshal input: %w'' [] e), s)
      | Inr i \<Rightarrow>
     (case parse_memory_type (mw_type i) of
        (_, Some e) \<Rightarrow> (Inl (Wrapf ''memory_write: %w'' [] e), s)
      | (ty, None) \<Rightarrow>
          let content = print (case mw_content i of None \<Rightarrow> JNull | Some j \<Rightarrow> j);
              actor = (if mw_actor i = [] then ''agent'' else mw_actor i);
              conf = (if mw_confidence i = 0 then default_confidence else mw_confidence i);
              m = (new_memory uuid now ty content actor ''default'')\<lparr>mem_confidence := conf\<rparr>;
              (r, s) = mp_alloc mp m s;
              (res, s) = plane_store (mp_provider mp) r s
          in case res of
               Inl e \<Rightarrow> (Inl (Wrapf ''memory_write: store: %w'' [] e), s)
             | Inr _ \<Rightarrow>
                 (Inr (print (JObj [(''actor'', JStr actor), (''id'', JStr (mem_id m)),
                                    (''ok'', JBool True), (''type'', JStr (mw_type i))])), s)))"

record search_input =
  mi_type :: string
  mi_tags :: "string list"
  mi_limit :: gint
  mi_actor :: string

definition dec_search_input :: "raw \<Rightarrow> search_input result" where
  "dec_search_input p =
     bind (obj_fields p) (\<lambda>fs.
     bind (dec_field ''type'' dec_string fs []) (\<lambda>ty.
     bind (dec_field ''tags'' dec_strings fs []) (\<lambda>tags.
     bind (dec_field ''limit'' dec_int fs 0) (\<lambda>l.
     bind (dec_field ''actor_id'' dec_string fs []) (\<lambda>a.
       Inr \<lparr>mi_type = ty, mi_tags = tags, mi_limit = l, mi_actor = a\<rparr>)))))"

definition tool_query :: "search_input \<Rightarrow> search_query" where
  "tool_query i =
     \<lparr>sq_type = fst (parse_memory_type (mi_type i)), sq_tags = [], sq_actor = mi_actor i,
      sq_tenant = [], sq_limit = (if sint (mi_limit i) \<le> 0 then 10 else mi_limit i),
      sq_since = zero_time, sq_min_confidence = 0\<rparr>"

definition hit_json :: "(rat \<Rightarrow> string) \<Rightarrow> memory \<Rightarrow> json result" where
  "hit_json ff m =
     map_sum id (\<lambda>c. JObj
       [(''actor_id'', JStr (mem_actor m)), (''confidence'', JNum (ff (mem_confidence m))),
        (''content'', c), (''id'', JStr (mem_id m)),
        (''tags'', if mem_tags m = [] then JNull else JArr (map JStr (mem_tags m))),
        (''type'', JStr (mem_type m))])
     (payload_json (mem_content m))"

definition memory_search_exec :: "(rat \<Rightarrow> string) \<Rightarrow> 's memory_plane \<Rightarrow> string list \<Rightarrow> raw \<Rightarrow> 's \<Rightarrow>
    raw result \<times> 's" where
  "memory_search_exec ff mp ks input s =
     (case dec_search_input input of
        Inl e \<Rightarrow> (Inl (Wrapf ''memory_search: unmarshal input: %w'' [] e), s)
      | Inr i \<Rightarrow>
     (case plane_search (mp_provider mp) ks (tool_query i) s of
        (Inl e, s) \<Rightarrow> (Inl (Wrapf ''memory_search: search: %w'' [] e), s)
      | (Inr rs, s) \<Rightarrow>
          (map_sum id (\<lambda>out. print (JObj [(''count'', JNum (show_int (int (length rs)))), (''results'', JArr out)]))
             (all_results (map (\<lambda>r. hit_json ff (mp_load mp s r)) rs)), s)))"

section \<open>TardigradeDB search\<close>

record tdb_input =
  ti_query :: string
  ti_limit :: gint
  ti_layer :: gint
  ti_metadata :: "json option"

definition dec_tdb_input :: "(rat \<Rightarrow> string) \<Rightarrow> raw \<Rightarrow> tdb_input result" where
  "dec_tdb_input ff p =
     bind (obj_fields p) (\<lambda>fs.
     bind (dec_field ''query'' dec_string fs []) (\<lambda>q.
     bind (dec_field ''limit'' dec_int fs 0) (\<lambda>l.
     bind (dec_field ''layer'' dec_int fs 0) (\<lambda>la.
     bind (dec_field ''metadata'' (dec_any_map ff) fs None) (\<lambda>md.
       Inr \<lparr>ti_query = q, ti_limit = l, ti_layer = la, ti_metadata = md\<rparr>)))))"

definition tdb_result_json :: "(rat \<Rightarrow> string) \<Rightarrow> hit \<Rightarrow> json" where
  "tdb_result_json ff h =
     JObj [(''cell_id'', int_json (hit_id h)), (''owner'', JStr (hit_owner h)),
           (''layer'', int_json (hit_layer h)), (''score'', JNum (ff (hit_score h))),
           (''tier'', JStr (hit_tier h)), (''importance'', JNum (ff (hit_importance h)))]"

definition tdb_output :: "(rat \<Rightarrow> string) \<Rightarrow> hit list \<Rightarrow> json" where
  "tdb_output ff hits =
     JObj [(''count'', JNum (show_int (int (length hits)))), (''results'', JArr (map (tdb_result_json ff) hits))]"

definition tdb_tool_payload :: "(rat \<Rightarrow> string) \<Rightarrow> tdb_input \<Rightarrow> json result" where
  "tdb_tool_payload ff32 i =
     bind (key_json ff32 (build_query_key (ti_query i) 768)) (\<lambda>k.
       Inr (JObj ([(''k'', int_json (if sint (ti_limit i) \<le> 0 then 5 else ti_limit i))] @
         (if 0 \<le> sint (ti_layer i) then [(''layer'', int_json (ti_layer i))] else []) @
         [(''query_key'', k)])))"

definition tdb_tool_timeout :: gint where
  "tdb_tool_timeout = 15 * second"

definition tdb_search_exec :: "(rat \<Rightarrow> string) \<Rightarrow> (rat \<Rightarrow> string) \<Rightarrow> 'n net \<Rightarrow> string \<Rightarrow> raw \<Rightarrow> 'n \<Rightarrow>
    raw result \<times> 'n" where
  "tdb_search_exec ff32 ff net base input n =
     (case dec_tdb_input ff input of
        Inl e \<Rightarrow> (Inl (Wrapf ''tdb_search: unmarshal input: %w'' [] e), n)
      | Inr i \<Rightarrow>
     (case tdb_tool_payload ff32 i of
        Inl e \<Rightarrow> (Inl (Wrapf ''tdb_search: marshal payload: %w'' [] e), n)
      | Inr body \<Rightarrow>
     (case nt_request net ''POST'' (base @ ''/mem/read'') of
        Inl e \<Rightarrow> (Inl (Wrapf ''tdb_search: new request: %w'' [] e), n)
      | Inr _ \<Rightarrow>
     (case nt_do net \<lparr>ho_method = ''POST'', ho_url = base @ ''/mem/read'', ho_headers = json_header,
                      ho_body = Some (print body), ho_timeout = tdb_tool_timeout\<rparr> n of
        (Inl e, n) \<Rightarrow> (Inl (Wrapf ''tdb_search: request failed: %w'' [] e), n)
      | (Inr resp, n) \<Rightarrow>
     (case hi_body resp of
        Inl e \<Rightarrow> (Inl (Wrapf ''tdb_search: read body: %w'' [] e), n)
      | Inr raw \<Rightarrow>
          if hi_status resp \<noteq> status_ok
          then (Inl (Errf ''tdb_search: TDB returned HTTP %d: %s'' [FInt (hi_status resp), FStr raw]), n)
          else case dec_hits raw of
                 Inl e \<Rightarrow> (Inl (Wrapf ''tdb_search: unmarshal response: %w'' [] e), n)
               | Inr hits \<Rightarrow>
                   (Inr (print (tdb_output ff hits)), n))))))"

section \<open>HTTP requests\<close>

record http_input =
  hq_url :: string
  hq_method :: string
  hq_headers :: "(string \<times> string) list"
  hq_body :: "json option"
  hq_timeout :: gint

definition dec_http_input :: "(rat \<Rightarrow> string) \<Rightarrow> raw \<Rightarrow> http_input result" where
  "dec_http_input ff p =
     bind (obj_fields p) (\<lambda>fs.
     bind (dec_field ''url'' dec_string fs []) (\<lambda>u.
     bind (dec_field ''method'' dec_string fs []) (\<lambda>m.
     bind (dec_field ''headers'' dec_string_map fs []) (\<lambda>hs.
     bind (dec_field ''body'' (dec_any ff) fs None) (\<lambda>b.
     bind (dec_field ''timeout_seconds'' dec_int fs 0) (\<lambda>t.
       Inr \<lparr>hq_url = u, hq_method = m, hq_headers = hs, hq_body = b, hq_timeout = t\<rparr>))))))"

definition headers_json :: "(string \<times> string list) list \<Rightarrow> json" where
  "headers_json hs = sorted_obj (map (\<lambda>(k, vs). (k, JArr (map JStr vs))) hs)"

definition http_output :: "http_in \<Rightarrow> json \<Rightarrow> json" where
  "http_output resp j =
     JObj [(''status_code'', JNum (show_int (hi_status resp))), (''headers'', headers_json (hi_headers resp)), (''body'', j)]"

text \<open>\<open>order\<close> is the order in which the map of headers is ranged over.\<close>

definition http_request_exec :: "(rat \<Rightarrow> string) \<Rightarrow> ((string \<times> string) list \<Rightarrow> (string \<times> string) list) \<Rightarrow>
    'n net \<Rightarrow> raw \<Rightarrow> 'n \<Rightarrow> raw result \<times> 'n" where
  "http_request_exec ff order net input n =
     (case dec_http_input ff input of
        Inl e \<Rightarrow> (Inl (Wrapf ''http_request: unmarshal input: %w'' [] e), n)
      | Inr i \<Rightarrow>
          if hq_url i = [] then (Inl (Errf ''http_request: url is required'' []), n)
          else let meth = (if hq_method i = [] then ''GET'' else hq_method i);
                   body = map_option print (hq_body i)
     in (case nt_request net meth (hq_url i) of
           Inl e \<Rightarrow> (Inl (Wrapf ''http_request: new request: %w'' [] e), n)
         | Inr _ \<Rightarrow>
             let hs = fold (\<lambda>(k, v). header_set k v) (order (hq_headers i))
                        (header_set ''Content-Type'' ''application/json'' []);
                 timeout = hq_timeout i * second;
                 timeout = (if timeout = 0 then 30 * second else timeout)
     in (case nt_do net \<lparr>ho_method = meth, ho_url = hq_url i, ho_headers = hs, ho_body = body,
                         ho_timeout = timeout\<rparr> n of
           (Inl e, n) \<Rightarrow> (Inl (Wrapf ''http_request: do request: %w'' [] e), n)
         | (Inr resp, n) \<Rightarrow>
     (case hi_body resp of
        Inl e \<Rightarrow> (Inl (Wrapf ''http_request: read body: %w'' [] e), n)
      | Inr raw \<Rightarrow>
          (case parse raw of
             None \<Rightarrow> (Inl err_json, n)
           | Some j \<Rightarrow> (Inr (print (http_output resp j)), n))))))"

section \<open>LLM completion\<close>

record llm_input =
  li_system :: string
  li_user :: string
  li_max :: gint
  li_temperature :: "rat option"

definition dec_llm_input :: "raw \<Rightarrow> llm_input result" where
  "dec_llm_input p =
     bind (obj_fields p) (\<lambda>fs.
     bind (dec_field ''system_prompt'' dec_string fs []) (\<lambda>s.
     bind (dec_field ''user_message'' dec_string fs []) (\<lambda>u.
     bind (dec_field ''max_tokens'' dec_int fs 0) (\<lambda>m.
     bind (dec_field ''temperature'' dec_float_ptr fs None) (\<lambda>t.
       Inr \<lparr>li_system = s, li_user = u, li_max = m, li_temperature = t\<rparr>)))))"

definition llm_output :: "complete_response \<Rightarrow> json" where
  "llm_output r = JObj [(''text'', JStr (cp_text r)), (''usage'', usage_json (cp_usage r))]"

definition llm_complete_exec :: "(rat \<Rightarrow> string) \<Rightarrow> 'n net \<Rightarrow> llm_client \<Rightarrow> raw \<Rightarrow> 'n \<Rightarrow> raw result \<times> 'n" where
  "llm_complete_exec ff net c input n =
     (case dec_llm_input input of
        Inl e \<Rightarrow> (Inl (Wrapf ''unmarshal llm input: %w'' [] e), n)
      | Inr i \<Rightarrow>
          if li_system i = [] \<or> li_user i = []
          then (Inl (Errf ''system_prompt and user_message are required'' []), n)
          else case complete ff net c
                 \<lparr>cq_system = li_system i, cq_user = li_user i, cq_max_tokens = li_max i,
                  cq_temperature = li_temperature i, cq_model = []\<rparr> n of
                 (Inl e, n) \<Rightarrow> (Inl (Wrapf ''llm complete: %w'' [] e), n)
               | (Inr r, n) \<Rightarrow>
                   (Inr (print (llm_output r)), n))"

section \<open>The tools as agents see them\<close>

definition memory_write_tool :: "(rat \<Rightarrow> string) \<Rightarrow> 's memory_plane \<Rightarrow> string \<Rightarrow> time \<Rightarrow> 's tool" where
  "memory_write_tool ff mp uuid now =
     \<lparr>tl_name = ''memory_write'', tl_execute = memory_write_exec ff mp uuid now\<rparr>"

definition memory_search_tool :: "(rat \<Rightarrow> string) \<Rightarrow> 's memory_plane \<Rightarrow> string list \<Rightarrow> 's tool" where
  "memory_search_tool ff mp ks =
     \<lparr>tl_name = ''memory_search'', tl_execute = memory_search_exec ff mp ks\<rparr>"

definition tdb_search_tool :: "(rat \<Rightarrow> string) \<Rightarrow> (rat \<Rightarrow> string) \<Rightarrow> 'n net \<Rightarrow> string \<Rightarrow> 'n tool" where
  "tdb_search_tool ff32 ff net base =
     \<lparr>tl_name = ''tdb_search'', tl_execute = tdb_search_exec ff32 ff net base\<rparr>"

definition http_request_tool :: "(rat \<Rightarrow> string) \<Rightarrow> ((string \<times> string) list \<Rightarrow> (string \<times> string) list) \<Rightarrow>
    'n net \<Rightarrow> 'n tool" where
  "http_request_tool ff order net =
     \<lparr>tl_name = ''http_request'', tl_execute = http_request_exec ff order net\<rparr>"

definition llm_complete_tool :: "(rat \<Rightarrow> string) \<Rightarrow> 'n net \<Rightarrow> llm_client \<Rightarrow> 'n tool" where
  "llm_complete_tool ff net c =
     \<lparr>tl_name = ''llm.complete'', tl_execute = llm_complete_exec ff net c\<rparr>"

section \<open>Properties\<close>

lemma parse_memory_type_cases:
  "parse_memory_type s = (t, None) \<Longrightarrow> t \<in> {episodic, semantic, operational, working} \<and> (s \<noteq> [] \<longrightarrow> t = s)"
  "parse_memory_type s = (t, Some e) \<Longrightarrow> e = Errf ''unknown memory type %q'' [FStr s]"
  by (auto simp: parse_memory_type_def split: if_splits)

text \<open>
  The \<open>memory_write\<close> tool on the in-memory plane: an unknown type is refused and nothing
  changes; otherwise the record is stored under its new ID with that type (episodic when none
  is given), the content marshalled again, a confidence of 0.8 when none is given and the
  tenant \<open>default\<close>, but without the tags of the input, and no other record changes.
\<close>

theorem memory_write_effect:
  assumes "dec_write_input ff input = Inr i" "ms_index s uuid = None" "mem_store_inv s"
    and "parse_memory_type (mw_type i) = (ty, err)"
    and "memory_write_exec ff inmemory_plane uuid now input s = (res, s')"
  shows "(err \<noteq> None \<longrightarrow> s' = s \<and>
      res = Inl (Wrapf ''memory_write: %w'' [] (Errf ''unknown memory type %q'' [FStr (mw_type i)]))) \<and>
    (err = None \<longrightarrow> (\<exists>m out. res = Inr out \<and> stored s' uuid = Some m \<and>
      (\<forall>j. j \<noteq> uuid \<longrightarrow> stored s' j = stored s j) \<and> mem_id m = uuid \<and> mem_type m = ty \<and>
      ty \<in> {episodic, semantic, operational, working} \<and>
      mem_content m = print (case mw_content i of None \<Rightarrow> JNull | Some j \<Rightarrow> j) \<and>
      mem_confidence m = (if mw_confidence i = 0 then default_confidence else mw_confidence i) \<and>
      mem_tags m = [] \<and> mem_tenant m = ''default'' \<and> mem_created m = now))"
proof (cases err)
  case (Some e)
  with assms(5) parse_memory_type_cases(2) [of "mw_type i" ty e] show ?thesis
    by (simp add: memory_write_exec_def assms(1,4))
next
  case None
  define actor where "actor = (if mw_actor i = [] then ''agent'' else mw_actor i)"
  define content where "content = print (case mw_content i of None \<Rightarrow> JNull | Some j \<Rightarrow> j)"
  define conf where "conf = (if mw_confidence i = 0 then default_confidence else mw_confidence i)"
  define m where "m = (new_memory uuid now ty content actor ''default'')\<lparr>mem_confidence := conf\<rparr>"
  let ?s = "s\<lparr>ms_heap := ms_heap s @ [m], ms_index := (ms_index s)(uuid \<mapsto> length (ms_heap s))\<rparr>"
  have m: "mem_id m = uuid" "mem_type m = ty" "mem_content m = content" "mem_confidence m = conf"
    "mem_tags m = []" "mem_tenant m = ''default''" "mem_created m = now"
    by (simp_all add: m_def new_memory_def)
  have wr: "plane_store (mp_provider inmemory_plane) (length (ms_heap s)) (s\<lparr>ms_heap := ms_heap s @ [m]\<rparr>) =
      (Inr (), ?s)"
    using assms(2) by (simp add: inmemory_plane_def plane_store_def inmemory_def mem_write_def m(1))
  have alloc: "mp_alloc inmemory_plane m s = (length (ms_heap s), s\<lparr>ms_heap := ms_heap s @ [m]\<rparr>)"
    by (simp add: inmemory_plane_def)
  from assms(5) obtain out where out: "res = Inr out" "s' = ?s"
    by (simp only: memory_write_exec_def assms(1,4) None sum.case prod.case option.case Let_def
        actor_def [symmetric] content_def [symmetric] conf_def [symmetric] m_def [symmetric] alloc wr) blast
  have st: "stored s' uuid = Some m" by (simp add: out(2) stored_def)
  have "stored s' j = stored s j" if "j \<noteq> uuid" for j
    using that assms(3) by (cases "ms_index s j") (auto simp: out(2) stored_def nth_append mem_store_inv_def)
  moreover have "ty \<in> {episodic, semantic, operational, working}"
    using parse_memory_type_cases(1) [of "mw_type i" ty] assms(4) None by simp
  ultimately show ?thesis using None out(1) st m unfolding content_def conf_def by blast
qed

definition todo_input :: raw where
  "todo_input = print (JObj [(''type'', JStr ''working''), (''tags'', JArr [JStr ''x''])])"

lemma dec_todo: "dec_write_input ff todo_input = Inr
    \<lparr>mw_type = ''working'', mw_content = None, mw_actor = [], mw_confidence = 0, mw_tags = [''x'']\<rparr>"
  unfolding dec_write_input_def todo_input_def
  using dec_strings_print [of "[''x'']"]
  by (subst obj_fields_print) (simp_all add: field_names del: print.simps)

theorem memory_write_effect_witness:
  "\<exists>out s' m. memory_write_exec (\<lambda>_. []) inmemory_plane ''u'' 3 todo_input (new_store []) = (Inr out, s') \<and>
     stored s' ''u'' = Some m \<and> mem_type m = working \<and> mem_tags m = []"
proof -
  obtain res s' where run: "memory_write_exec (\<lambda>_. []) inmemory_plane ''u'' 3 todo_input (new_store []) = (res, s')"
    by force
  have "ms_index (new_store []) ''u'' = None" by (simp add: new_store_def)
  note fresh = this
  have "parse_memory_type ''working'' = (working, None)" by (simp add: parse_memory_type_def)
  with memory_write_effect [OF dec_todo fresh mem_store_inv_new _ run, of working None]
  show ?thesis unfolding run by auto
qed

text \<open>
  The \<open>http_request\<close> tool returns what the server answered, with its status, only when
  the body of the answer is itself JSON: any other body is an error, although the request has
  been carried out. A request that is carried out has the method asked for (GET by default),
  a JSON content type unless the input sets another, and a timeout of 30 seconds by default.
\<close>

theorem http_request_answer:
  assumes "dec_http_input ff input = Inr i" "hq_url i \<noteq> []"
    and "meth = (if hq_method i = [] then ''GET'' else hq_method i)"
    and "nt_request net meth (hq_url i) = Inr ()"
    and "hs = fold (\<lambda>(k, v). header_set k v) (order (hq_headers i)) [(''Content-Type'', ''application/json'')]"
    and "nt_do net \<lparr>ho_method = meth, ho_url = hq_url i, ho_headers = hs, ho_body = map_option print (hq_body i),
      ho_timeout = (if hq_timeout i * second = 0 then 30 * second else hq_timeout i * second)\<rparr> n = (Inr resp, n')"
    and "hi_body resp = Inr raw"
  shows "http_request_exec ff order net input n =
    ((case parse raw of
        None \<Rightarrow> Inl err_json
      | Some j \<Rightarrow> Inr (print (http_output resp j))), n')"
proof -
  have "header_set ''Content-Type'' ''application/json'' [] = [(''Content-Type'', ''application/json'')]"
    by (simp add: header_set_def) code_simp
  note ct = this
  show ?thesis
    using assms(2,4,6,7) unfolding http_request_exec_def assms(1) ct Let_def assms(3,5)
    by (simp split: option.split del: print.simps)
qed

definition get_input :: raw where
  "get_input = print (JObj [(''url'', JStr ''http://x'')])"

lemma dec_get: "dec_http_input ff get_input = Inr
    \<lparr>hq_url = ''http://x'', hq_method = [], hq_headers = [], hq_body = None, hq_timeout = 0\<rparr>"
  unfolding dec_http_input_def get_input_def
  by (subst obj_fields_print) (simp_all add: field_names del: print.simps)

theorem http_request_answer_witness:
  "\<exists>req. http_request_exec (\<lambda>_. []) id (scripted_net (\<lambda>_. Inr (answer 200 ''oops''))) get_input [] =
     (Inl err_json, [req]) \<and> ho_method req = ''GET''"
proof -
  have "parse ''oops'' = None" by code_simp
  moreover have "(0 :: gint) * second = 0" by simp
  ultimately show ?thesis
    using http_request_answer [OF dec_get _ refl _ refl, of "scripted_net (\<lambda>_. Inr (answer 200 ''oops''))"
        id "[]" "answer 200 ''oops''" _ "''oops''" "\<lambda>_. []"]
    by simp
qed

end
