(* ===== verification/Config.thy ===== *)
theory Config
  imports Prelude Go_Strings
begin

text \<open>
  The configuration of an instance (\<open>internal/body/config.go\<close>): the records with their
  defaults, the layering of defaults, file and environment, and \<open>Validate\<close>. The koanf
  library and its YAML parser are not part of the repository: what \<open>LoadConfig\<close> calls of
  them is the record \<open>koanf\<close>, an argument.
\<close>

section \<open>The records\<close>

record hydra_config =
  hc_name :: string
  hc_version :: string
  hc_log_level :: string

record gateway_config =
  gc_host :: string
  gc_port :: gint
  gc_read_timeout :: gint
  gc_write_timeout :: gint

record memory_config =
  mc_provider :: string
  mc_tdb_url :: string
  mc_tdb_dir :: string

record policy_config =
  pc_default_budget :: gint
  pc_rate_limit :: gint

record logging_config =
  lc_level :: string
  lc_format :: string

record config =
  cfg_hydra :: hydra_config
  cfg_gateway :: gateway_config
  cfg_memory :: memory_config
  cfg_policy :: policy_config
  cfg_logging :: logging_config

definition zero_config :: config where
  "zero_config =
     \<lparr>cfg_hydra = \<lparr>hc_name = [], hc_version = [], hc_log_level = []\<rparr>,
      cfg_gateway = \<lparr>gc_host = [], gc_port = 0, gc_read_timeout = 0, gc_write_timeout = 0\<rparr>,
      cfg_memory = \<lparr>mc_provider = [], mc_tdb_url = [], mc_tdb_dir = []\<rparr>,
      cfg_policy = \<lparr>pc_default_budget = 0, pc_rate_limit = 0\<rparr>,
      cfg_logging = \<lparr>lc_level = [], lc_format = []\<rparr>\<rparr>"

definition default_config :: config where
  "default_config = zero_config
     \<lparr>cfg_hydra := \<lparr>hc_name = ''hydra'', hc_version = ''0.1.0'', hc_log_level = ''info''\<rparr>,
      cfg_gateway := \<lparr>gc_host = ''localhost'', gc_port = 8080, gc_read_timeout = 30,
                      gc_write_timeout = 30\<rparr>,
      cfg_policy := \<lparr>pc_default_budget = 10000, pc_rate_limit = 100\<rparr>,
      cfg_logging := \<lparr>lc_level = ''info'', lc_format = ''json''\<rparr>\<rparr>"

section \<open>Loading\<close>

text \<open>
  \<open>kf_load\<close> is \<open>Load\<close> with a provider of bytes (what \<open>ReadBytes\<close> returned) and the YAML
  parser, \<open>kf_env\<close> is \<open>Load\<close> with the environment provider: the prefix, the key callback
  and the environment.
\<close>

record 'k koanf =
  kf_new :: "string \<Rightarrow> 'k"
  kf_load :: "string result \<Rightarrow> 'k \<Rightarrow> 'k result"
  kf_env :: "string \<Rightarrow> string \<Rightarrow> (string \<Rightarrow> string) \<Rightarrow> (string \<times> string) list \<Rightarrow> 'k \<Rightarrow> 'k result"
  kf_unmarshal :: "string \<Rightarrow> 'k \<Rightarrow> config \<Rightarrow> config result"

record raw_bytes_provider =
  rb_data :: string

definition rb_read_bytes :: "raw_bytes_provider \<Rightarrow> string result" where
  "rb_read_bytes p = Inr (rb_data p)"

definition rb_read :: "raw_bytes_provider \<Rightarrow> unit result" where
  "rb_read p = Inl (Errf ''rawBytesProvider does not support Read'' [])"

text \<open>The lines of the built-in YAML text.\<close>

definition default_lines :: "string list" where
  "default_lines =
     [''hydra:'', ''  name: hydra'', ''  version: '' @ [CHR 0x22] @ ''0.1.0'' @ [CHR 0x22],
      ''  log_level: info'', ''gateway:'', ''  host: localhost'', ''  port: 8080'',
      ''  read_timeout: 30'', ''  write_timeout: 30'', ''policy:'', ''  default_budget: 10000'',
      ''  rate_limit: 100'', ''logging:'', ''  level: info'', ''  format: json'']"

definition defaults_yaml :: string where
  "defaults_yaml = concat (map (\<lambda>l. l @ [CHR 0x0A]) default_lines)"

definition env_key :: "string \<Rightarrow> string" where
  "env_key s = replace_all ''__'' ''.'' (to_lower (trim_prefix ''HYDRA_'' s))"

definition load_config :: "'k koanf \<Rightarrow> (string \<Rightarrow> string result) \<Rightarrow> (string \<times> string) list \<Rightarrow> string \<Rightarrow>
    config result" where
  "load_config kf read_file environ path =
     (case kf_load kf (rb_read_bytes \<lparr>rb_data = defaults_yaml\<rparr>) (kf_new kf ''.'') of
        Inl e \<Rightarrow> Inl (Wrapf ''loading defaults: %w'' [] e)
      | Inr k1 \<Rightarrow>
     (case kf_load kf (read_file path) k1 of
        Inl e \<Rightarrow> Inl (Wrapf ''loading config file %s: %w'' [FStr path] e)
      | Inr k2 \<Rightarrow>
     (case kf_env kf ''HYDRA_'' ''.'' env_key environ k2 of
        Inl e \<Rightarrow> Inl (Wrapf ''loading env overrides: %w'' [] e)
      | Inr k3 \<Rightarrow>
     (case kf_unmarshal kf [] k3 zero_config of
        Inl e \<Rightarrow> Inl (Wrapf ''unmarshaling config: %w'' [] e)
      | Inr cfg \<Rightarrow> Inr cfg))))"

section \<open>Validation\<close>

definition valid_log_levels :: "string \<rightharpoonup> bool" where
  "valid_log_levels = [''debug'' \<mapsto> True, ''info'' \<mapsto> True, ''warn'' \<mapsto> True, ''error'' \<mapsto> True]"

definition valid_formats :: "string \<rightharpoonup> bool" where
  "valid_formats = [''json'' \<mapsto> True, ''text'' \<mapsto> True, ''console'' \<mapsto> True]"

definition config_validate :: "config \<Rightarrow> unit result" where
  "config_validate c =
     (if sint (gc_port (cfg_gateway c)) < 1 \<or> 65535 < sint (gc_port (cfg_gateway c))
      then Inl (Errf ''invalid gateway port: %d (must be 1-65535)'' [FInt (sint (gc_port (cfg_gateway c)))])
      else if \<not> map_get False valid_log_levels (hc_log_level (cfg_hydra c))
      then Inl (Errf ''invalid hydra log_level: %q (must be debug, info, warn, or error)''
                  [FStr (hc_log_level (cfg_hydra c))])
      else if \<not> map_get False valid_log_levels (lc_level (cfg_logging c))
      then Inl (Errf ''invalid logging level: %q (must be debug, info, warn, or error)''
                  [FStr (lc_level (cfg_logging c))])
      else if \<not> map_get False valid_formats (lc_format (cfg_logging c))
      then Inl (Errf ''invalid logging format: %q (must be json, text, or console)''
                  [FStr (lc_format (cfg_logging c))])
      else if sint (gc_read_timeout (cfg_gateway c)) < 0
      then Inl (Errf ''gateway read_timeout must be non-negative'' [])
      else if sint (gc_write_timeout (cfg_gateway c)) < 0
      then Inl (Errf ''gateway write_timeout must be non-negative'' [])
      else if sint (pc_default_budget (cfg_policy c)) < 0
      then Inl (Errf ''policy default_budget must be non-negative'' [])
      else if sint (pc_rate_limit (cfg_policy c)) < 0
      then Inl (Errf ''policy rate_limit must be non-negative'' [])
      else Inr ())"

text \<open>The timeouts \<open>Gateway.Start\<close> gives its server: a product of 64-bit integers.\<close>

definition server_timeout :: "gint \<Rightarrow> gint" where
  "server_timeout secs = secs * second"

text \<open>What \<open>setupLogger\<close> makes of the two logging options.\<close>

datatype log_level = Level_Debug | Level_Info | Level_Warn | Level_Error
datatype log_format = Text_Handler | Json_Handler

definition setup_logger :: "config \<Rightarrow> log_format \<times> log_level" where
  "setup_logger c =
     (let level = (if lc_level (cfg_logging c) = ''debug'' then Level_Debug
                   else if lc_level (cfg_logging c) = ''warn'' then Level_Warn
                   else if lc_level (cfg_logging c) = ''error'' then Level_Error
                   else Level_Info)
      in (if lc_format (cfg_logging c) = ''text'' then Text_Handler else Json_Handler, level))"

section \<open>What validation accepts\<close>

definition legal_config :: "config \<Rightarrow> bool" where
  "legal_config c \<longleftrightarrow>
     sint (gc_port (cfg_gateway c)) \<in> {1..65535} \<and>
     {hc_log_level (cfg_hydra c), lc_level (cfg_logging c)} \<subseteq> {''debug'', ''info'', ''warn'', ''error''} \<and>
     lc_format (cfg_logging c) \<in> {''json'', ''text'', ''console''} \<and>
     (\<forall>n \<in> {gc_read_timeout (cfg_gateway c), gc_write_timeout (cfg_gateway c),
             pc_default_budget (cfg_policy c), pc_rate_limit (cfg_policy c)}. 0 \<le> sint n)"

lemma valid_log_levels: "map_get False valid_log_levels l \<longleftrightarrow> l \<in> {''debug'', ''info'', ''warn'', ''error''}"
  unfolding valid_log_levels_def map_get_upd map_get_empty by simp

lemma valid_formats: "map_get False valid_formats f \<longleftrightarrow> f \<in> {''json'', ''text'', ''console''}"
  unfolding valid_formats_def map_get_upd map_get_empty by simp

lemma validate_legal: "config_validate c = Inr () \<longleftrightarrow> legal_config c"
  unfolding config_validate_def legal_config_def valid_log_levels valid_formats
  by (simp add: not_less conj_ac)

lemma legal_default: "legal_config default_config"
  by (simp add: legal_config_def default_config_def)

lemma server_timeout_exact:
  assumes "0 \<le> sint n"
  shows "sint (server_timeout n) = sint n * 1000000000 \<longleftrightarrow> sint n \<le> 9223372036"
proof
  assume "sint n \<le> 9223372036"
  then have "sint (word_of_int (1000000000 * sint n) :: gint) = 1000000000 * sint n"
    using assms by (intro sint_gint_scaled [of _ 9223372036]) simp_all
  moreover have "server_timeout n = word_of_int (1000000000 * sint n)"
    by (simp add: server_timeout_def second_def mult.commute)
  ultimately show "sint (server_timeout n) = sint n * 1000000000" by simp
next
  assume "sint (server_timeout n) = sint n * 1000000000"
  moreover have "sint (server_timeout n) < 2 ^ 63" using sint_lt [of "server_timeout n"] by simp
  ultimately show "sint n \<le> 9223372036" by simp
qed

text \<open>
  A configuration passes \<open>Validate\<close> exactly when its port, log levels and log format
  are among the legal ones and its timeouts, budget and rate limit are not negative; the
  default configuration does. A legal timeout reaches the HTTP server as that many seconds
  only up to 9223372036: above, the product with \<open>time.Second\<close> has overflowed.
\<close>

theorem config_validate_iff:
  "(config_validate c = Inr () \<longleftrightarrow> legal_config c) \<and> config_validate default_config = Inr () \<and>
   (legal_config c \<longrightarrow>
      (sint (server_timeout (gc_read_timeout (cfg_gateway c))) =
         sint (gc_read_timeout (cfg_gateway c)) * 1000000000 \<longleftrightarrow>
       sint (gc_read_timeout (cfg_gateway c)) \<le> 9223372036))"
proof (intro conjI impI)
  show "config_validate c = Inr () \<longleftrightarrow> legal_config c" by (rule validate_legal)
  show "config_validate default_config = Inr ()"
    unfolding validate_legal by (rule legal_default)
  assume "legal_config c"
  then have "0 \<le> sint (gc_read_timeout (cfg_gateway c))" by (simp add: legal_config_def)
  then show "sint (server_timeout (gc_read_timeout (cfg_gateway c))) =
      sint (gc_read_timeout (cfg_gateway c)) * 1000000000 \<longleftrightarrow>
    sint (gc_read_timeout (cfg_gateway c)) \<le> 9223372036"
    by (rule server_timeout_exact)
qed

definition long_timeouts :: config where
  "long_timeouts = default_config\<lparr>cfg_gateway := \<lparr>gc_host = ''localhost'', gc_port = 8080,
     gc_read_timeout = 9223372037, gc_write_timeout = 30\<rparr>\<rparr>"

theorem config_validate_iff_witness:
  "config_validate long_timeouts = Inr () \<and>
   sint (server_timeout (gc_read_timeout (cfg_gateway long_timeouts))) \<noteq> 9223372037 * 1000000000"
proof -
  have "legal_config long_timeouts" by (simp add: legal_config_def long_timeouts_def default_config_def)
  with config_validate_iff [of long_timeouts] show ?thesis by (simp add: long_timeouts_def)
qed

section \<open>Environment variables\<close>

text \<open>The variable that stands for a configuration key.\<close>

definition env_name :: "string \<Rightarrow> string" where
  "env_name path = ''HYDRA_'' @ to_upper (replace_all ''.'' ''__'' path)"

text \<open>A key in which no underscore is followed by another one or by a dot.\<close>

fun tidy :: "string \<Rightarrow> bool" where
  "tidy (c # d # s) \<longleftrightarrow> (c = CHR ''_'' \<longrightarrow> d \<noteq> CHR ''_'' \<and> d \<noteq> CHR ''.'') \<and> tidy (d # s)"
| "tidy _ \<longleftrightarrow> True"

lemma replace_dots_set: "set (replace_all ''.'' ''__'' s) \<subseteq> insert (CHR ''_'') (set s)"
  by (induction s) (auto simp: has_prefix_def)

lemma replace_dots_hd:
  "s \<noteq> [] \<Longrightarrow> hd s \<notin> {CHR ''_'', CHR ''.''} \<Longrightarrow>
     \<exists>t. replace_all ''.'' ''__'' s = hd s # t"
  by (cases s) (simp_all add: has_prefix_def)

lemma replace_dots_back: "tidy s \<Longrightarrow> replace_all ''__'' ''.'' (replace_all ''.'' ''__'' s) = s"
proof (induction s)
  case (Cons c s)
  have IH: "replace_all ''__'' ''.'' (replace_all ''.'' ''__'' s) = s"
    using Cons by (cases s) auto
  have "replace_all ''__'' ''.'' (CHR ''_'' # replace_all ''.'' ''__'' s) = CHR ''_'' # s" if "c = CHR ''_''"
  proof (cases s)
    case (Cons d s')
    with Cons.prems that obtain t where "replace_all ''.'' ''__'' s = d # t" "d \<noteq> CHR ''_''"
      using replace_dots_hd [of s] by auto
    with IH show ?thesis by (simp add: has_prefix_def)
  qed (simp add: has_prefix_def)
  with IH show ?case by (auto simp: has_prefix_def)
qed simp

lemma env_key_name: "tidy p \<Longrightarrow> \<forall>c \<in> set p. \<not> is_upper c \<Longrightarrow> env_key (env_name p) = p"
  using replace_dots_set [of p] unfolding env_key_def env_name_def trim_prefix_append
  by (subst lower_upper) (auto simp: is_upper_def replace_dots_back)

text \<open>The last variable for a key counts.\<close>

definition env_values :: "(string \<Rightarrow> 'v) \<Rightarrow> string \<Rightarrow> (string \<Rightarrow> string) \<Rightarrow> (string \<times> string) list \<Rightarrow> string \<rightharpoonup> 'v" where
  "env_values of_str prefix cb environ =
     map_of (rev (map (\<lambda>(n, v). (cb n, of_str v)) (filter (\<lambda>(n, _). has_prefix prefix n) environ)))"

lemma env_values_last:
  "has_prefix pre n \<Longrightarrow> env_values of_str pre cb (es @ [(n, v)]) (cb n) = Some (of_str v)"
  by (simp add: env_values_def)

text \<open>
  With koanf working as documented (a load overrides the keys it has; the environment
  provider renames the variables that have the prefix), a loaded configuration is decoded
  from the defaults, overridden by the file, overridden by the environment; and a key made
  of lower-case words and single underscores is set by the variable whose name is the key
  in upper case after \<open>HYDRA_\<close>, with two underscores for each dot.
\<close>

theorem config_layers:
  assumes new: "vals (kf_new kf ''.'') = Map.empty"
    and load: "\<And>txt k k'. kf_load kf txt k = Inr k' \<Longrightarrow> \<exists>t. txt = Inr t \<and> vals k' = vals k ++ yaml t"
    and envs: "\<And>cb k k'. kf_env kf ''HYDRA_'' ''.'' cb environ k = Inr k' \<Longrightarrow>
      vals k' = vals k ++ env_values of_str ''HYDRA_'' cb environ"
    and ok: "load_config kf read_file environ path = Inr c"
    and key: "tidy p" "\<forall>ch \<in> set p. \<not> is_upper ch"
    and set: "environ = es @ [(env_name p, v)]"
  shows "\<exists>k txt. read_file path = Inr txt \<and> kf_unmarshal kf [] k zero_config = Inr c \<and>
    vals k = yaml defaults_yaml ++ yaml txt ++ env_values of_str ''HYDRA_'' env_key environ \<and>
    vals k p = Some (of_str v)"
proof -
  from ok obtain k1 k2 k3 where
    1: "kf_load kf (Inr defaults_yaml) (kf_new kf ''.'') = Inr k1" and
    2: "kf_load kf (read_file path) k1 = Inr k2" and
    3: "kf_env kf ''HYDRA_'' ''.'' env_key environ k2 = Inr k3" and
    4: "kf_unmarshal kf [] k3 zero_config = Inr c"
    by (auto simp: load_config_def rb_read_bytes_def split: sum.splits)
  from load [OF 1] new have v1: "vals k1 = yaml defaults_yaml" by simp
  from load [OF 2] obtain t where t: "read_file path = Inr t" "vals k2 = vals k1 ++ yaml t"
    by blast
  from envs [OF 3] have v3: "vals k3 = vals k2 ++ env_values of_str ''HYDRA_'' env_key environ" .
  have "has_prefix ''HYDRA_'' (env_name p)" unfolding env_name_def by (rule has_prefix_append)
  from env_values_last [OF this, of of_str env_key es v]
  have "env_values of_str ''HYDRA_'' env_key environ p = Some (of_str v)"
    unfolding set env_key_name [OF key] .
  then have "vals k3 p = Some (of_str v)" unfolding v3 by (rule map_add_find_right)
  moreover have "vals k3 = yaml defaults_yaml ++ yaml t ++ env_values of_str ''HYDRA_'' env_key environ"
    using v1 v3 t(2) by simp
  ultimately show ?thesis using 4 t(1) by blast
qed

text \<open>A library on string maps whose YAML files set at most the port.\<close>

definition demo_yaml :: "string \<Rightarrow> string \<rightharpoonup> string" where
  "demo_yaml t = (if t = [] then Map.empty else [''gateway.port'' \<mapsto> ''8080''])"

definition demo_koanf :: "(string \<rightharpoonup> string) koanf" where
  "demo_koanf = \<lparr>kf_new = \<lambda>_. Map.empty,
     kf_load = \<lambda>txt k. map_sum id (\<lambda>t. k ++ demo_yaml t) txt,
     kf_env = \<lambda>pre _ cb es k. Inr (k ++ env_values id pre cb es),
     kf_unmarshal = \<lambda>_ k c. Inr (c\<lparr>cfg_gateway := (cfg_gateway c)\<lparr>gc_host := map_get [] k ''gateway.host''\<rparr>\<rparr>)\<rparr>"

theorem config_layers_witness:
  "\<exists>k. kf_unmarshal demo_koanf [] k zero_config =
       load_config demo_koanf (\<lambda>_. Inr []) [(''HYDRA_GATEWAY__READ_TIMEOUT'', ''5'')] ''f'' \<and>
     k ''gateway.read_timeout'' = Some ''5''"
proof -
  have name: "[(''HYDRA_GATEWAY__READ_TIMEOUT'', ''5'')] = [] @ [(env_name ''gateway.read_timeout'', ''5'')]"
    by code_simp
  have ok: "load_config demo_koanf (\<lambda>_. Inr []) [(''HYDRA_GATEWAY__READ_TIMEOUT'', ''5'')] ''f'' =
      Inr (projr (load_config demo_koanf (\<lambda>_. Inr []) [(''HYDRA_GATEWAY__READ_TIMEOUT'', ''5'')] ''f''))"
    by (simp add: load_config_def demo_koanf_def rb_read_bytes_def del: map_add_Some_iff)
  have "\<exists>k t. (\<lambda>_. Inr []) ''f'' = (Inr t :: string result) \<and>
      kf_unmarshal demo_koanf [] k zero_config =
        Inr (projr (load_config demo_koanf (\<lambda>_. Inr []) [(''HYDRA_GATEWAY__READ_TIMEOUT'', ''5'')] ''f'')) \<and>
      k = demo_yaml defaults_yaml ++ demo_yaml t ++ env_values id ''HYDRA_'' env_key
        [(''HYDRA_GATEWAY__READ_TIMEOUT'', ''5'')] \<and>
      k ''gateway.read_timeout'' = Some (id ''5'')"
  proof (rule config_layers [of "\<lambda>k. k" demo_koanf demo_yaml, OF _ _ _ ok _ _ name])
    show "kf_new demo_koanf ''.'' = Map.empty" by (simp add: demo_koanf_def)
    show "\<exists>u. tx = Inr u \<and> k' = k ++ demo_yaml u" if "kf_load demo_koanf tx k = Inr k'" for tx k k'
      using that by (cases tx) (simp_all add: demo_koanf_def)
    show "k' = k ++ env_values id ''HYDRA_'' cb [(''HYDRA_GATEWAY__READ_TIMEOUT'', ''5'')]"
      if "kf_env demo_koanf ''HYDRA_'' ''.'' cb [(''HYDRA_GATEWAY__READ_TIMEOUT'', ''5'')] k = Inr k'" for cb k k'
      using that by (simp add: demo_koanf_def)
    show "tidy ''gateway.read_timeout''" by simp
    show "\<forall>ch \<in> set ''gateway.read_timeout''. \<not> is_upper ch" by (simp add: is_upper_def)
  qed
  then show ?thesis using ok by (metis id_apply)
qed

end
