(* ===== verification/Plane_Steps.thy ===== *)
theory Plane_Steps
  imports Plane
begin

text \<open>
  The execution plane as a concurrent system: clients, the worker goroutine, the scheduler
  goroutine and \<open>Stop\<close> interleave at lock boundaries. A labelled step relation lists the
  moves, each by the operation of the theory Plane it performs.
\<close>

section \<open>Steps\<close>

text \<open>
  The labels name what a move does to the jobs: \<open>Ev_Register\<close> hands jobs over, \<open>Ev_Run\<close>
  starts an attempt, \<open>Ev_Settle\<close> records a final state, \<open>Ev_Drop\<close> loses a job because a
  background enqueue failed, \<open>Ev_Refuse\<close> returns the jobs of a client call with an error. A
  call with nothing left to schedule returns (\<open>call_done\<close>), and time passes (\<open>elapse\<close>).
\<close>

datatype event =
    Ev_Start | Ev_Cancel | Ev_Close | Ev_Tau
  | Ev_Handler handler
  | Ev_Register "ref list"
  | Ev_Run ref
  | Ev_Settle ref
  | Ev_Drop ref go_error
  | Ev_Refuse "ref list" go_error

abbreviation at_time :: "time \<Rightarrow> plane \<Rightarrow> plane" where
  "at_time now p \<equiv> p\<lparr>pl_clock := now\<rparr>"

inductive plane_step :: "plane \<Rightarrow> event \<Rightarrow> plane \<Rightarrow> bool" where
  start: "pl_worker p = W_NotStarted \<Longrightarrow> pl_ticker p = T_NotStarted \<Longrightarrow>
     plane_step p Ev_Start (plane_start p)"
| submit: "plane_step p (Ev_Register [r]) ((register_job r p)\<lparr>pl_calls := pl_calls p @ [[r]]\<rparr>)"
| submit_dag: "topological_sort d ns es ds = Inr order \<Longrightarrow>
     map (dag_nodes d) order = map Some rs \<Longrightarrow>
     (\<And>i r. dag_nodes d i = Some r \<Longrightarrow> job_id (pl_heap p r) = i) \<Longrightarrow>
     plane_step p (Ev_Register rs) ((register_dag d order p)\<lparr>pl_calls := pl_calls p @ [rs]\<rparr>)"
| call_ok: "i < length (pl_calls p) \<Longrightarrow> pl_calls p ! i = r # rs \<Longrightarrow> pl_clock p \<le> now \<Longrightarrow>
     plane_schedule now r p = (Inr (), p') \<Longrightarrow>
     plane_step p Ev_Tau (at_time now (p'\<lparr>pl_calls := (pl_calls p)[i := rs]\<rparr>))"
| call_err: "i < length (pl_calls p) \<Longrightarrow> pl_calls p ! i = r # rs \<Longrightarrow> pl_clock p \<le> now \<Longrightarrow>
     plane_schedule now r p = (Inl e, p') \<Longrightarrow>
     plane_step p (Ev_Refuse (r # rs) e) (at_time now (p'\<lparr>pl_calls := (pl_calls p)[i := []]\<rparr>))"
| call_done: "pl_calls p = xs @ [] # ys \<Longrightarrow> plane_step p Ev_Tau (p\<lparr>pl_calls := xs @ ys\<rparr>)"
| elapse: "pl_clock p \<le> now \<Longrightarrow> plane_step p Ev_Tau (at_time now p)"
| handler: "plane_step p (Ev_Handler h) (set_handler h p)"
| cancel: "pl_worker p \<noteq> W_NotStarted \<Longrightarrow> plane_step p Ev_Cancel (stop_cancel p)"
| close: "stop_close p = (Some res, p') \<Longrightarrow> plane_step p Ev_Close p'"
| top: "pl_worker p = W_Loop \<Longrightarrow> plane_step p Ev_Tau (worker_top p)"
| wake: "pl_worker p = W_Wait \<Longrightarrow> plane_step p Ev_Tau (worker_wake p)"
| quit: "pl_worker p = W_Wait \<Longrightarrow> pl_cancelled p \<Longrightarrow> plane_step p Ev_Tau (worker_quit p)"
| read: "pl_worker p = W_Got r \<Longrightarrow> plane_step p Ev_Tau (worker_handler r p)"
| mark: "pl_worker p = W_Handle r h \<Longrightarrow> pl_clock p \<le> now \<Longrightarrow>
     plane_step p (Ev_Run r) (at_time now (worker_mark now r h p))"
| run: "pl_worker p = W_Running r h \<Longrightarrow> pl_clock p \<le> now \<Longrightarrow>
     plane_step p Ev_Tau (at_time now (worker_call now r h p))"
| settle: "pl_worker p = W_Returned r err \<Longrightarrow> pl_clock p \<le> t1 \<Longrightarrow> t1 \<le> t2 \<Longrightarrow>
     pl_worker (worker_finish t1 t2 r err p) = W_Loop \<Longrightarrow>
     plane_step p (Ev_Settle r) (at_time t2 (worker_finish t1 t2 r err p))"
| retry: "pl_worker p = W_Returned r err \<Longrightarrow> pl_clock p \<le> t1 \<Longrightarrow> t1 \<le> t2 \<Longrightarrow>
     pl_worker (worker_finish t1 t2 r err p) = W_Resched r \<Longrightarrow>
     plane_step p Ev_Tau (at_time t2 (worker_finish t1 t2 r err p))"
| resched_ok: "pl_worker p = W_Resched r \<Longrightarrow> pl_clock p \<le> now \<Longrightarrow>
     plane_schedule now r p = (Inr (), p') \<Longrightarrow>
     plane_step p Ev_Tau (at_time now (worker_resched now r p))"
| resched_drop: "pl_worker p = W_Resched r \<Longrightarrow> pl_clock p \<le> now \<Longrightarrow>
     plane_schedule now r p = (Inl e, p') \<Longrightarrow>
     plane_step p (Ev_Drop r e) (at_time now (worker_resched now r p))"
| tick: "pl_ticker p = T_Flush [] \<Longrightarrow> pl_clock p \<le> now \<Longrightarrow>
     plane_step p Ev_Tau (at_time now (ticker_take now p))"
| push_ok: "pl_ticker p = T_Flush (r # rs) \<Longrightarrow> enqueue (pl_queue p) r = Inr q \<Longrightarrow>
     plane_step p Ev_Tau (ticker_push r rs p)"
| push_drop: "pl_ticker p = T_Flush (r # rs) \<Longrightarrow> enqueue (pl_queue p) r = Inl e \<Longrightarrow>
     plane_step p (Ev_Drop r e) (ticker_push r rs p)"
| tquit: "pl_ticker p = T_Flush [] \<Longrightarrow> pl_cancelled p \<Longrightarrow>
     plane_step p Ev_Tau (ticker_quit p)"

section \<open>Where a job is\<close>

fun worker_ready :: "worker \<Rightarrow> ref list" where
  "worker_ready (W_Got r) = [r]"
| "worker_ready (W_Handle r h) = [r]"
| "worker_ready _ = []"

fun worker_retry :: "worker \<Rightarrow> ref list" where
  "worker_retry (W_Resched r) = [r]"
| "worker_retry _ = []"

fun worker_busy :: "worker \<Rightarrow> ref list" where
  "worker_busy (W_Running r h) = [r]"
| "worker_busy (W_Returned r e) = [r]"
| "worker_busy _ = []"

fun flushing :: "ticker \<Rightarrow> ref list" where
  "flushing (T_Flush rs) = rs"
| "flushing _ = []"

text \<open>Jobs whose time has come, jobs waiting to be scheduled, and the job being run.\<close>

definition due_refs :: "plane \<Rightarrow> ref list" where
  "due_refs p = queue_items (pl_queue p) @ flushing (pl_ticker p) @ worker_ready (pl_worker p)"

definition wait_refs :: "plane \<Rightarrow> ref list" where
  "wait_refs p =
     sch_pending (pl_sched p) @ worker_retry (pl_worker p) @ concat (pl_calls p)"

definition tracked :: "plane \<Rightarrow> ref list" where
  "tracked p = due_refs p @ wait_refs p @ worker_busy (pl_worker p)"

fun arrivals :: "event \<Rightarrow> ref list" where
  "arrivals (Ev_Register rs) = rs"
| "arrivals _ = []"

fun departures :: "event \<Rightarrow> ref list" where
  "departures (Ev_Settle r) = [r]"
| "departures (Ev_Drop r e) = [r]"
| "departures (Ev_Refuse rs e) = rs"
| "departures _ = []"

lemmas refs_defs = tracked_def due_refs_def wait_refs_def

lemmas op_defs = plane_start_def register_job_def register_dag_def set_handler_def
  stop_cancel_def worker_wake_def worker_quit_def worker_handler_def worker_mark_def
  worker_call_def ticker_quit_def

section \<open>Conservation of jobs\<close>

text \<open>
  Every move keeps the multiset of jobs the plane holds, but for those its label says
  arrived or departed. So no job is duplicated and none vanishes silently.
\<close>

lemma worker_top_cases:
  assumes "mem_queue_inv (pl_queue p)"
  shows "pl_cancelled p \<and> worker_top p = p\<lparr>pl_worker := W_Exited\<rparr> \<or>
    \<not> pl_cancelled p \<and> queue_items (pl_queue p) = [] \<and> worker_top p = p\<lparr>pl_worker := W_Wait\<rparr> \<or>
    \<not> pl_cancelled p \<and> (\<exists>r q. queue_items (pl_queue p) = r # queue_items q \<and> mem_queue_inv q \<and>
      mq_closed q = mq_closed (pl_queue p) \<and>
      worker_top p = p\<lparr>pl_sched := (pl_sched p)\<lparr>sch_queue := q\<rparr>, pl_worker := W_Got r\<rparr>)"
proof (cases "queue_items (pl_queue p)")
  case Nil
  with mq.deq_empty [OF assms Nil] mq.deq_closed [OF assms Nil]
  show ?thesis by (cases "mq_closed (pl_queue p)") (auto simp: worker_top_def)
next
  case (Cons r rs)
  with mq.deq_next [OF assms Cons] show ?thesis by (auto simp: worker_top_def)
qed

lemma stop_close_cases:
  assumes "mem_queue_inv (pl_queue p)" "stop_close p = (Some res, p')"
  shows "pl_worker p = W_Exited \<and> pl_ticker p = T_Exited \<and> res = Inr () \<and>
    (\<exists>q. p' = p\<lparr>pl_sched := (pl_sched p)\<lparr>sch_queue := q\<rparr>\<rparr> \<and> mem_queue_inv q \<and>
      queue_items q = queue_items (pl_queue p) \<and> mq_closed q)"
  using assms(2) mq.close_ok [OF assms(1)] by (auto simp: stop_close_def split: if_splits)

lemma worker_finish_frame [simp]:
  "pl_sched (worker_finish t1 t2 r err p) = pl_sched p"
  "pl_ticker (worker_finish t1 t2 r err p) = pl_ticker p"
  "pl_calls (worker_finish t1 t2 r err p) = pl_calls p"
  "pl_jobs (worker_finish t1 t2 r err p) = pl_jobs p"
  "pl_handler (worker_finish t1 t2 r err p) = pl_handler p"
  by (simp_all add: worker_finish_def split: option.split)

lemma worker_finish_worker:
  "pl_worker (worker_finish t1 t2 r err p) =
     (if err \<noteq> None \<and> attempts (pl_heap p r) < max_attempts (pl_heap p r)
      then W_Resched r else W_Loop)"
  by (simp add: worker_finish_def split: option.split)

lemma ticker_push_Inr:
  "enqueue (pl_queue p) r = Inr q \<Longrightarrow>
     ticker_push r rs p = p\<lparr>pl_sched := (pl_sched p)\<lparr>sch_queue := q\<rparr>, pl_ticker := T_Flush rs\<rparr>"
  by (simp add: ticker_push_def flush_push_def)

lemma ticker_push_Inl:
  "enqueue (pl_queue p) r = Inl e \<Longrightarrow> ticker_push r rs p = p\<lparr>pl_ticker := T_Flush rs\<rparr>"
  by (simp add: ticker_push_def flush_push_def)

lemma plane_schedule_mset:
  assumes "mem_queue_inv (pl_queue p)" "plane_schedule now r p = (Inr (), p')"
  shows "mset (queue_items (pl_queue p')) + mset (sch_pending (pl_sched p')) =
    add_mset r (mset (queue_items (pl_queue p)) + mset (sch_pending (pl_sched p)))"
  using plane_schedule_cases [OF assms] by (auto split: if_splits)

lemma mset_tracked: "mset (tracked p) =
    (mset (queue_items (pl_queue p)) + mset (sch_pending (pl_sched p))) +
    mset (concat (pl_calls p)) +
    (mset (flushing (pl_ticker p)) + mset (worker_ready (pl_worker p)) +
     mset (worker_retry (pl_worker p)) + mset (worker_busy (pl_worker p)))"
  by (simp add: refs_defs ac_simps)

lemma plane_schedule_same: "plane_schedule now r p = (res, p') \<Longrightarrow>
    p' = p\<lparr>pl_sched := pl_sched p'\<rparr>"
  by (auto simp: plane_schedule_def split: sum.splits)

lemma worker_resched_same: "plane_schedule now r p = (res, p') \<Longrightarrow>
    worker_resched now r p = p\<lparr>pl_sched := pl_sched p', pl_worker := W_Loop\<rparr>"
  using plane_schedule_same [of now r p res p'] by (simp add: worker_resched_def)

theorem plane_step_mset:
  assumes "plane_step p ev p'" "mem_queue_inv (pl_queue p)"
  shows "mset (tracked p') + mset (departures ev) = mset (tracked p) + mset (arrivals ev)"
  using assms
proof cases
  case (call_ok i r rs now p1)
  note s = plane_schedule_same [OF call_ok(6)]
  have same: "pl_ticker p1 = pl_ticker p" "pl_worker p1 = pl_worker p"
    by (subst s, simp)+
  have "add_mset r (mset (concat ((pl_calls p)[i := rs]))) = mset (concat (pl_calls p))"
    using mset_concat_update [OF call_ok(3), of rs] call_ok(4) by simp
  note eqs = plane_schedule_mset [OF assms(2) call_ok(6)] this [symmetric]
  show ?thesis unfolding mset_tracked call_ok(1,2) by (simp add: eqs same)
next
  case (call_err i r rs now e p1)
  have "mset (concat ((pl_calls p)[i := []])) + mset (r # rs) = mset (concat (pl_calls p))"
    using mset_concat_update [OF call_err(3), of "[]"] call_err(4) by simp
  with call_err(1,2) plane_schedule_cases [OF assms(2) call_err(6)] show ?thesis
    by (simp add: refs_defs)
next
  case (top)
  with worker_top_cases [OF assms(2)] show ?thesis by (auto simp: refs_defs)
next
  case (close res)
  with stop_close_cases [OF assms(2)] show ?thesis by (auto simp: refs_defs)
next
  case (settle r err t1 t2)
  then show ?thesis by (simp add: refs_defs)
next
  case (retry r err t1 t2)
  then show ?thesis by (simp add: refs_defs)
next
  case (resched_ok r now p1)
  with worker_resched_same [OF resched_ok(5)] plane_schedule_mset [OF assms(2) resched_ok(5)]
  show ?thesis by (simp add: refs_defs)
next
  case (resched_drop r now e p1)
  with worker_resched_same [OF resched_drop(5)] plane_schedule_cases [OF assms(2) resched_drop(5)]
  show ?thesis by (simp add: refs_defs)
next
  case (tick now)
  have "mset (filter (due (pl_heap p) now) (sch_pending (pl_sched p))) +
      mset (filter (\<lambda>r. \<not> due (pl_heap p) now r) (sch_pending (pl_sched p))) =
    mset (sch_pending (pl_sched p))" by (rule mset_partition)
  with tick show ?thesis
    by (simp add: refs_defs ticker_take_def flush_take_def)
next
  case (push_ok r rs q)
  with mq.enqD(2) [OF assms(2) push_ok(4)] show ?thesis
    by (simp add: ticker_push_Inr refs_defs)
next
  case (push_drop r rs e)
  then show ?thesis by (simp add: ticker_push_Inl refs_defs)
qed (auto simp: refs_defs op_defs split: prod.splits)

end
