(* ===== verification/Plane_Inv.thy ===== *)
theory Plane_Inv
  imports Plane_Steps
begin

text \<open>
  The invariant of the execution plane under every interleaving: no job is held twice, the
  attempt counter agrees with the job's state and with its limit, no job starts before its
  time, and the queue is closed only after both goroutines have exited.
\<close>

section \<open>Reachable states\<close>

text \<open>
  What the plane relies on: a handler may fill in the job's result but leaves its lifecycle
  fields alone, and a client submits jobs fresh from \<open>NewJob\<close>, each of them once. A new job
  may be put at any time in a cell that nothing refers to (\<open>alloc\<close>).
\<close>

definition handler_ok :: "handler \<Rightarrow> bool" where
  "handler_ok h \<longleftrightarrow> (\<forall>t j. let j' = fst (h t j) in
     job_id j' = job_id j \<and> job_state j' = job_state j \<and> attempts j' = attempts j \<and>
     max_attempts j' = max_attempts j)"

fun disciplined :: "plane \<Rightarrow> event \<Rightarrow> bool" where
  "disciplined p (Ev_Register rs) \<longleftrightarrow>
     distinct rs \<and> (\<forall>r \<in> set rs. fresh_job (pl_heap p r) \<and> r \<notin> set (tracked p))"
| "disciplined p (Ev_Handler h) \<longleftrightarrow> handler_ok h"
| "disciplined p _ \<longleftrightarrow> True"

inductive reach :: "plane \<Rightarrow> bool" where
  init: "(\<And>r. fresh_job (h r)) \<Longrightarrow> 0 < now \<Longrightarrow> reach (new_plane h now)"
| step: "reach p \<Longrightarrow> plane_step p ev p' \<Longrightarrow> disciplined p ev \<Longrightarrow> reach p'"
| alloc: "reach p \<Longrightarrow> fresh_job j \<Longrightarrow> r \<notin> set (tracked p) \<Longrightarrow> r \<notin> ran (pl_jobs p) \<Longrightarrow>
     reach (upd_job r (\<lambda>_. j) p)"

section \<open>The queue\<close>

definition inv_queue :: "plane \<Rightarrow> bool" where
  "inv_queue p \<longleftrightarrow> mem_queue_inv (pl_queue p) \<and>
     (mq_closed (pl_queue p) \<longrightarrow> pl_worker p = W_Exited \<and> pl_ticker p = T_Exited)"

lemma schedule_closed:
  assumes "mem_queue_inv (pl_queue p)" "plane_schedule now r p = (res, p')"
  shows "mem_queue_inv (pl_queue p')" "mq_closed (pl_queue p') = mq_closed (pl_queue p)"
  using plane_schedule_cases [OF assms] by (auto split: sum.splits if_splits)

lemma inv_queue_step: "plane_step p ev p' \<Longrightarrow> inv_queue p \<Longrightarrow> inv_queue p'"
proof (induction rule: plane_step.induct)
  case (call_ok i p r rs now p')
  with schedule_closed [of p] plane_schedule_frame [of now r p]
  show ?case by (auto simp: inv_queue_def)
next
  case (call_err i p r rs now e p')
  with schedule_closed [of p] plane_schedule_frame [of now r p]
  show ?case by (auto simp: inv_queue_def)
next
  case (close p res p')
  with stop_close_cases [of p] show ?case by (auto simp: inv_queue_def)
next
  case (top p)
  with worker_top_cases [of p] show ?case by (auto simp: inv_queue_def)
next
  case (resched_ok p r now p')
  with schedule_closed [of p] worker_resched_same [of now r p]
  show ?case by (auto simp: inv_queue_def)
next
  case (resched_drop p r now e p')
  with schedule_closed [of p] worker_resched_same [of now r p]
  show ?case by (auto simp: inv_queue_def)
next
  case (push_ok p r rs q)
  with mq.enqD [of "pl_queue p" r q] show ?case by (auto simp: inv_queue_def ticker_push_Inr)
next
  case (push_drop p r rs e)
  then show ?case by (auto simp: inv_queue_def ticker_push_Inl)
qed (auto simp: inv_queue_def op_defs ticker_take_def flush_take_def split: prod.splits)

section \<open>No job is held twice\<close>

lemma distinct_step:
  assumes "plane_step p ev p'" "mem_queue_inv (pl_queue p)" "distinct (tracked p)"
    and "disciplined p ev"
  shows "distinct (tracked p')"
proof -
  have "distinct (tracked p @ arrivals ev)"
    using assms(3,4) by (cases ev) auto
  moreover have "mset (tracked p') \<subseteq># mset (tracked p @ arrivals ev)"
    using plane_step_mset [OF assms(1,2)] by (metis mset_append mset_subset_eq_add_left)
  ultimately show ?thesis by (rule distinct_mset_mono [rotated])
qed

section \<open>Steps that touch a job\<close>

text \<open>Only four kinds of step write to the heap or change which job is being run.\<close>

abbreviation busy :: "plane \<Rightarrow> ref list" where
  "busy p \<equiv> worker_busy (pl_worker p)"

abbreviation held :: "plane \<Rightarrow> ref list" where
  "held p \<equiv> due_refs p @ wait_refs p"

lemma step_kinds:
  assumes "plane_step p ev p'" "mem_queue_inv (pl_queue p)"
  obtains (quiet) "pl_heap p' = pl_heap p" "busy p' = busy p"
  | (mark) r h now where "pl_worker p = W_Handle r h" "pl_clock p \<le> now" "ev = Ev_Run r"
      "p' = at_time now (worker_mark now r h p)"
  | (run) r h now where "pl_worker p = W_Running r h" "pl_clock p \<le> now" "ev = Ev_Tau"
      "p' = at_time now (worker_call now r h p)"
  | (finish) r err t1 t2 where "pl_worker p = W_Returned r err" "pl_clock p \<le> t1" "t1 \<le> t2"
      "ev = Ev_Settle r \<or> ev = Ev_Tau" "p' = at_time t2 (worker_finish t1 t2 r err p)"
  using assms
proof cases
  case (call_ok i r rs now p1)
  with plane_schedule_frame [of now r p] quiet show ?thesis by simp
next
  case (call_err i r rs now e p1)
  with plane_schedule_frame [of now r p] quiet show ?thesis by simp
next
  case (close res)
  with stop_close_cases [OF assms(2)] quiet show ?thesis by auto
next
  case top
  with worker_top_cases [OF assms(2)] quiet show ?thesis by fastforce
next
  case (resched_ok r now p1)
  with worker_resched_same [OF resched_ok(5)] quiet show ?thesis by simp
next
  case (resched_drop r now e p1)
  with worker_resched_same [OF resched_drop(5)] quiet show ?thesis by simp
next
  case (push_ok r rs q)
  with quiet show ?thesis by (simp add: ticker_push_Inr)
next
  case (push_drop r rs e)
  with quiet show ?thesis by (simp add: ticker_push_Inl)
qed (use quiet mark run finish in \<open>auto simp: op_defs ticker_take_def flush_take_def\<close>)

lemma held_quiet:
  assumes "plane_step p ev p'" "mem_queue_inv (pl_queue p)" "busy p' = busy p"
  shows "set (held p') \<subseteq> set (held p) \<union> set (arrivals ev)"
proof -
  have "mset (held p') + mset (departures ev) = mset (held p) + mset (arrivals ev)"
    using plane_step_mset [OF assms(1,2)] assms(3) by (simp add: tracked_def ac_simps)
  then have "set_mset (mset (held p')) \<subseteq> set_mset (mset (held p) + mset (arrivals ev))"
    by (metis set_mset_mono mset_subset_eq_add_left)
  then show ?thesis by simp
qed

section \<open>Job states and attempts\<close>

fun job_ok :: "job \<Rightarrow> bool" where
  "job_ok j =
     (case job_state j of
        JobPending \<Rightarrow> attempts j = 0
      | JobRunning \<Rightarrow> 1 \<le> attempts j \<and> attempts j \<le> max 1 (max_attempts j)
      | JobRetrying \<Rightarrow> 1 \<le> attempts j \<and> attempts j < max_attempts j
      | JobCompleted \<Rightarrow> 1 \<le> attempts j \<and> attempts j \<le> max 1 (max_attempts j)
      | JobFailed \<Rightarrow> attempts j = max 1 (max_attempts j))"

definition runnable :: "job \<Rightarrow> bool" where
  "runnable j \<longleftrightarrow> job_state j = JobPending \<or> job_state j = JobRetrying"

definition inv_jobs :: "plane \<Rightarrow> bool" where
  "inv_jobs p \<longleftrightarrow> (\<forall>r. job_ok (pl_heap p r)) \<and>
     (\<forall>r \<in> set (held p). runnable (pl_heap p r)) \<and>
     (\<forall>r. job_state (pl_heap p r) = JobRunning \<longleftrightarrow> r \<in> set (busy p))"

definition inv_handler :: "plane \<Rightarrow> bool" where
  "inv_handler p \<longleftrightarrow> handler_ok (pl_handler p) \<and>
     (case pl_worker p of W_Handle r h \<Rightarrow> handler_ok h | W_Running r h \<Rightarrow> handler_ok h | _ \<Rightarrow> True)"

lemma inv_handler_step:
  "plane_step p ev p' \<Longrightarrow> mem_queue_inv (pl_queue p) \<Longrightarrow> disciplined p ev \<Longrightarrow>
     inv_handler p \<Longrightarrow> inv_handler p'"
proof (induction rule: plane_step.induct)
  case (call_ok i p r rs now p')
  with plane_schedule_frame [of now r p] show ?case by (auto simp: inv_handler_def)
next
  case (call_err i p r rs now e p')
  with plane_schedule_frame [of now r p] show ?case by (auto simp: inv_handler_def)
next
  case (close p res p')
  with stop_close_cases [of p] show ?case by (auto simp: inv_handler_def)
next
  case (top p)
  with worker_top_cases [of p] show ?case by (auto simp: inv_handler_def)
next
  case (resched_ok p r now p')
  with worker_resched_same [of now r p] show ?case by (auto simp: inv_handler_def)
next
  case (resched_drop p r now e p')
  with worker_resched_same [of now r p] show ?case by (auto simp: inv_handler_def)
next
  case (push_ok p r rs q)
  then show ?case by (auto simp: inv_handler_def ticker_push_Inr)
next
  case (push_drop p r rs e)
  then show ?case by (auto simp: inv_handler_def ticker_push_Inl)
qed (auto simp: inv_handler_def op_defs ticker_take_def flush_take_def worker_finish_worker
      split: prod.splits)

text \<open>Each of the four writes keeps the job well-formed.\<close>

lemma job_ok_mark:
  "job_ok j \<Longrightarrow> runnable j \<Longrightarrow>
     job_ok (j\<lparr>job_state := JobRunning, attempts := attempts j + 1, started_at := now\<rparr>)"
  by (auto simp: runnable_def)

lemma job_ok_handler:
  "job_ok j \<Longrightarrow> handler_ok h \<Longrightarrow> job_ok (fst (h t j)) \<and> job_state (fst (h t j)) = job_state j"
  by (cases "job_state j") (simp_all add: handler_ok_def Let_def)

lemma job_ok_finish_ok:
  "job_ok j \<Longrightarrow> job_state j = JobRunning \<Longrightarrow> job_ok (finish_ok t j)"
  by (simp add: finish_ok_def)

lemma job_ok_finish_failed:
  "job_ok j \<Longrightarrow> job_state j = JobRunning \<Longrightarrow> job_ok (finish_failed t1 t2 e j)"
  by (auto simp: finish_failed_def Let_def)

lemmas job_ok_simps = job_ok.simps

declare job_ok.simps [simp del]

lemma inv_jobs_step:
  assumes step: "plane_step p ev p'" and inv: "mem_queue_inv (pl_queue p)"
    "distinct (tracked p)" "inv_handler p" "inv_jobs p" and disc: "disciplined p ev"
  shows "inv_jobs p'"
proof -
  have dist: "distinct (tracked p')" using distinct_step step inv disc by blast
  show ?thesis
    using step inv(1)
  proof (cases rule: step_kinds)
    case quiet
    have "runnable (pl_heap p r)" if "r \<in> set (arrivals ev)" for r
      using disc that by (cases ev) (auto simp: fresh_job_def runnable_def)
    moreover have "r \<in> set (held p) \<or> r \<in> set (arrivals ev)" if "r \<in> set (held p')" for r
      using held_quiet [OF step inv(1) quiet(2)] that by blast
    ultimately show ?thesis using inv(4) unfolding inv_jobs_def quiet by blast
  next
    case (mark r h now)
    from mark have r: "r \<in> set (held p)" by (simp add: refs_defs)
    have held: "set (held p') \<subseteq> set (held p)" "r \<notin> set (held p')"
      using mark dist by (auto simp: refs_defs worker_mark_def)
    from r inv(4) have "runnable (pl_heap p r)" "job_ok (pl_heap p r)"
      by (auto simp: inv_jobs_def)
    note ok = job_ok_mark [OF this(2,1), of now]
    show ?thesis using inv(4) held ok mark unfolding inv_jobs_def
      by (auto simp: worker_mark_def)
  next
    case (run r h now)
    have held: "held p' = held p" "r \<notin> set (held p)"
      using run inv(2) by (auto simp: refs_defs worker_call_def split: prod.splits)
    have "job_ok (pl_heap p r)" "handler_ok h" using inv(3,4) run
      by (auto simp: inv_jobs_def inv_handler_def)
    from job_ok_handler [OF this, of now] held inv(4) run show ?thesis
      unfolding inv_jobs_def by (auto simp: worker_call_def split: prod.splits)
  next
    case (finish r err t1 t2)
    have r: "job_ok (pl_heap p r)" "job_state (pl_heap p r) = JobRunning"
      using inv(4) finish(1) by (auto simp: inv_jobs_def)
    have held: "r \<notin> set (held p)" "set (held p') \<subseteq> insert r (set (held p))"
      using finish inv(2) by (auto simp: refs_defs worker_finish_worker split: if_splits)
    have "job_ok (pl_heap p' r)" using job_ok_finish_ok [OF r] job_ok_finish_failed [OF r] finish(5)
      by (auto simp: worker_finish_heap split: option.split)
    moreover have "r \<in> set (held p') \<Longrightarrow> runnable (pl_heap p' r)"
      using finish held(1) by (auto simp: refs_defs worker_finish_worker worker_finish_heap
          finish_failed_def runnable_def Let_def split: if_splits)
    moreover have "job_state (pl_heap p' r) \<noteq> JobRunning" "busy p' = []"
      using finish(5) by (auto simp: worker_finish_heap worker_finish_worker finish_ok_def
          finish_failed_def Let_def split: option.split)
    moreover have "pl_heap p' r' = pl_heap p r'" if "r' \<noteq> r" for r'
      using that finish(5) by (simp add: worker_finish_heap)
    ultimately show ?thesis using inv(4) held finish(1) unfolding inv_jobs_def by fastforce
  qed
qed

section \<open>Times\<close>

text \<open>No job is in the queue, on its way there or about to run before its time.\<close>

definition inv_due :: "plane \<Rightarrow> bool" where
  "inv_due p \<longleftrightarrow> 0 < pl_clock p \<and>
     (\<forall>r \<in> set (due_refs p). run_after (pl_heap p r) \<le> pl_clock p)"

lemma inv_due_mono: "inv_due p \<Longrightarrow> pl_clock p \<le> now \<Longrightarrow> r \<in> set (due_refs p) \<Longrightarrow>
    run_after (pl_heap p r) \<le> now"
  unfolding inv_due_def by (meson order_trans)

lemma inv_due_advance:
  assumes "inv_due p" "pl_clock p \<le> pl_clock p'"
    "\<And>r. r \<in> set (due_refs p') \<Longrightarrow> r \<in> set (due_refs p) \<and> pl_heap p' r = pl_heap p r \<or>
      run_after (pl_heap p' r) \<le> pl_clock p'"
  shows "inv_due p'"
  using assms inv_due_mono [OF assms(1,2)] unfolding inv_due_def by fastforce

lemma plane_schedule_due:
  assumes "mem_queue_inv (pl_queue p)" "plane_schedule now r p = (res, p')"
    "pl_clock p \<le> now" "inv_due p" "r' \<in> set (queue_items (pl_queue p'))"
  shows "run_after (pl_heap p r') \<le> now"
proof (cases "r' \<in> set (queue_items (pl_queue p))")
  case True
  with inv_due_mono [OF assms(4,3)] show ?thesis by (simp add: due_refs_def)
next
  case False
  have "0 < now" using assms(3,4) by (auto simp: inv_due_def)
  with plane_schedule_cases [OF assms(1,2)] assms(5) False show ?thesis
    by (auto split: sum.splits if_splits)
qed

lemma inv_due_schedule:
  assumes "mem_queue_inv (pl_queue p)" "plane_schedule now r p = (res, p1)"
    "pl_clock p \<le> now" "inv_due p"
    and "p' = at_time now (p\<lparr>pl_sched := pl_sched p1, pl_calls := cs, pl_worker := w\<rparr>)"
    and "set (worker_ready w) \<subseteq> set (worker_ready (pl_worker p))"
  shows "inv_due p'"
proof (rule inv_due_advance [OF assms(4)])
  fix r' assume "r' \<in> set (due_refs p')"
  with plane_schedule_due [OF assms(1-4)] assms(5,6)
  show "r' \<in> set (due_refs p) \<and> pl_heap p' r' = pl_heap p r' \<or>
      run_after (pl_heap p' r') \<le> pl_clock p'"
    by (auto simp: due_refs_def)
qed (use assms(3,5) in simp)

lemma inv_due_step:
  assumes "plane_step p ev p'" "mem_queue_inv (pl_queue p)" "distinct (tracked p)" "inv_due p"
  shows "inv_due p'"
  using assms
proof cases
  case (call_ok i r rs now p1)
  note s = plane_schedule_same [OF call_ok(6)]
  show ?thesis
    by (rule inv_due_schedule [where cs = "(pl_calls p)[i := rs]" and w = "pl_worker p",
          OF assms(2) call_ok(6,5) assms(4)])
      (subst call_ok(2), subst s, simp_all)
next
  case (call_err i r rs now e p1)
  note s = plane_schedule_same [OF call_err(6)]
  show ?thesis
    by (rule inv_due_schedule [where cs = "(pl_calls p)[i := []]" and w = "pl_worker p",
          OF assms(2) call_err(6,5) assms(4)])
      (subst call_err(2), subst s, simp_all)
next
  case (resched_ok r now p1)
  show ?thesis
    by (rule inv_due_schedule [where cs = "pl_calls p" and w = W_Loop,
          OF assms(2) resched_ok(5,4) assms(4)])
      (subst resched_ok(2), subst worker_resched_same [OF resched_ok(5)], simp_all)
next
  case (resched_drop r now e p1)
  show ?thesis
    by (rule inv_due_schedule [where cs = "pl_calls p" and w = W_Loop,
          OF assms(2) resched_drop(5,4) assms(4)])
      (subst resched_drop(2), subst worker_resched_same [OF resched_drop(5)], simp_all)
next
  case (elapse now)
  then show ?thesis
    by (intro inv_due_advance [OF assms(4)]) (auto simp: due_refs_def)
next
  case (close res)
  with stop_close_cases [OF assms(2)] show ?thesis
    by (intro inv_due_advance [OF assms(4)]) (auto simp: due_refs_def)
next
  case top
  with worker_top_cases [OF assms(2)] show ?thesis
    by (intro inv_due_advance [OF assms(4)]) (auto simp: due_refs_def)
next
  case (push_ok r rs q)
  with mq.enqD(2) [OF assms(2) push_ok(4)] show ?thesis
    by (intro inv_due_advance [OF assms(4)]) (auto simp: due_refs_def ticker_push_Inr)
next
  case (push_drop r rs e)
  then show ?thesis
    by (intro inv_due_advance [OF assms(4)]) (auto simp: due_refs_def ticker_push_Inl)
next
  case (mark r h now)
  with assms(3) show ?thesis
    by (intro inv_due_advance [OF assms(4)]) (auto simp: refs_defs worker_mark_def)
next
  case (run r h now)
  with assms(3) show ?thesis
    by (intro inv_due_advance [OF assms(4)])
      (auto simp: refs_defs worker_call_def split: prod.splits)
next
  case (settle r err t1 t2)
  with assms(3) show ?thesis
    by (intro inv_due_advance [OF assms(4)]) (auto simp: refs_defs worker_finish_heap)
next
  case (retry r err t1 t2)
  with assms(3) show ?thesis
    by (intro inv_due_advance [OF assms(4)]) (auto simp: refs_defs worker_finish_heap)
next
  case (tick now)
  then show ?thesis
    by (intro inv_due_advance [OF assms(4)])
      (auto simp: due_refs_def ticker_take_def flush_take_def due_def)
qed (use assms(4) in \<open>auto simp: inv_due_def due_refs_def op_defs\<close>)

section \<open>The job table\<close>

definition inv_table :: "plane \<Rightarrow> bool" where
  "inv_table p \<longleftrightarrow> (\<forall>i r. pl_jobs p i = Some r \<longrightarrow> job_id (pl_heap p r) = i)"

lemma step_job_id:
  assumes "plane_step p ev p'" "mem_queue_inv (pl_queue p)" "inv_handler p"
  shows "job_id (pl_heap p' r) = job_id (pl_heap p r)"
  using assms(1,2)
proof (cases rule: step_kinds)
  case (run r' h now)
  with assms(3) have "handler_ok h" by (simp add: inv_handler_def)
  with run show ?thesis
    by (auto simp: worker_call_def handler_ok_def Let_def split: prod.splits)
      (metis fst_conv)
qed (auto simp: worker_mark_def worker_finish_heap finish_ok_def finish_failed_def Let_def
      split: option.split)

lemma register_dag_jobs:
  "pl_jobs (register_dag d order p) i =
     (if i \<in> set order \<and> dag_nodes d i \<noteq> None then dag_nodes d i else pl_jobs p i)"
proof -
  have "fold (\<lambda>i m. case dag_nodes d i of Some r \<Rightarrow> m(i \<mapsto> r) | None \<Rightarrow> m) order m i =
      (if i \<in> set order \<and> dag_nodes d i \<noteq> None then dag_nodes d i else m i)" for m
    by (induction order arbitrary: m) (auto split: option.splits)
  then show ?thesis by (simp add: register_dag_def)
qed

lemma step_jobs:
  assumes "plane_step p ev p'" "mem_queue_inv (pl_queue p)" "pl_jobs p' i = Some r"
  shows "pl_jobs p i = Some r \<or> job_id (pl_heap p r) = i"
  using assms
proof cases
  case (submit_dag d ns es ds order rs)
  with assms(3) show ?thesis by (auto simp: register_dag_jobs split: if_splits)
next
  case (call_ok i r rs now p1)
  with plane_schedule_frame [of now r p] assms(3) show ?thesis by simp
next
  case (call_err i r rs now e p1)
  with plane_schedule_frame [of now r p] assms(3) show ?thesis by simp
next
  case (close res)
  with stop_close_cases [OF assms(2)] assms(3) show ?thesis by auto
next
  case top
  with worker_top_cases [OF assms(2)] assms(3) show ?thesis by auto
next
  case (resched_ok r now p1)
  with worker_resched_same [OF resched_ok(5)] assms(3) show ?thesis by simp
next
  case (resched_drop r now e p1)
  with worker_resched_same [OF resched_drop(5)] assms(3) show ?thesis by simp
next
  case (push_ok r rs q)
  with assms(3) show ?thesis by (simp add: ticker_push_Inr)
next
  case (push_drop r rs e)
  with assms(3) show ?thesis by (simp add: ticker_push_Inl)
qed (auto simp: op_defs ticker_take_def flush_take_def split: if_splits prod.splits)

lemma inv_table_step:
  assumes "plane_step p ev p'" "mem_queue_inv (pl_queue p)" "inv_handler p" "inv_table p"
  shows "inv_table p'"
  using step_jobs [OF assms(1,2)] step_job_id [OF assms(1-3)] assms(4)
  unfolding inv_table_def by metis

section \<open>The invariant\<close>

definition plane_inv :: "plane \<Rightarrow> bool" where
  "plane_inv p \<longleftrightarrow> inv_queue p \<and> distinct (tracked p) \<and> inv_handler p \<and> inv_jobs p \<and>
     inv_due p \<and> inv_table p"

lemma plane_inv_queue: "plane_inv p \<Longrightarrow> mem_queue_inv (pl_queue p)"
  by (simp add: plane_inv_def inv_queue_def)

lemma plane_inv_init:
  assumes "\<And>r. fresh_job (h r)" "0 < now" shows "plane_inv (new_plane h now)"
  using assms by (auto simp: plane_inv_def new_plane_def inv_queue_def refs_defs inv_handler_def
      handler_ok_def inv_jobs_def inv_due_def inv_table_def new_scheduler_def fresh_job_def
      job_ok_simps)

lemma plane_inv_step:
  assumes "plane_step p ev p'" "disciplined p ev" "plane_inv p"
  shows "plane_inv p'"
  using assms inv_queue_step distinct_step inv_handler_step inv_jobs_step inv_due_step
    inv_table_step plane_inv_queue [OF assms(3)]
  unfolding plane_inv_def by blast

lemma plane_inv_alloc:
  assumes "plane_inv p" "fresh_job j" "r \<notin> set (tracked p)" "r \<notin> ran (pl_jobs p)"
  shows "plane_inv (upd_job r (\<lambda>_. j) p)"
  using assms
  by (auto simp: plane_inv_def inv_queue_def refs_defs inv_handler_def inv_jobs_def inv_due_def inv_table_def
      fresh_job_def job_ok_simps ran_def)

lemma reach_inv: "reach p \<Longrightarrow> plane_inv p"
  by (induction rule: reach.induct) (auto intro: plane_inv_init plane_inv_step plane_inv_alloc)

end
