(* ===== verification/Plane_Props.thy ===== *)
theory Plane_Props
  imports Plane_Inv
begin

text \<open>
  What the execution plane guarantees: the properties of task graphs, of every interleaving
  of the plane's goroutines, and of the retry policy.
\<close>

section \<open>Helper lemmas\<close>

subsection \<open>Runs\<close>

inductive plane_run :: "plane \<Rightarrow> event list \<Rightarrow> plane \<Rightarrow> bool" where
  refl: "plane_run p [] p"
| snoc: "plane_run p evs p' \<Longrightarrow> plane_step p' ev p'' \<Longrightarrow> disciplined p' ev \<Longrightarrow>
     plane_run p (evs @ [ev]) p''"

lemma plane_run_reach: "plane_run p evs p' \<Longrightarrow> reach p \<Longrightarrow> reach p'"
  by (induction rule: plane_run.induct) (auto intro: reach.step)

lemma plane_run_mset:
  "plane_run p evs p' \<Longrightarrow> reach p \<Longrightarrow>
     mset (tracked p') + mset (concat (map departures evs)) =
     mset (tracked p) + mset (concat (map arrivals evs))"
proof (induction rule: plane_run.induct)
  case (snoc p evs p' ev p'')
  have "mem_queue_inv (pl_queue p')"
    using plane_inv_queue reach_inv plane_run_reach snoc by blast
  from plane_step_mset [OF snoc(2) this] snoc.IH [OF snoc.prems] show ?case
    by (simp add: ac_simps) (metis add.assoc add.left_commute)
qed simp

subsection \<open>The background\<close>

text \<open>The moves that the worker and the scheduler loop make by themselves.\<close>

fun background :: "event \<Rightarrow> bool" where
  "background Ev_Tau \<longleftrightarrow> True"
| "background (Ev_Run r) \<longleftrightarrow> True"
| "background (Ev_Settle r) \<longleftrightarrow> True"
| "background (Ev_Drop r e) \<longleftrightarrow> True"
| "background ev \<longleftrightarrow> False"

lemma background_frame:
  assumes "plane_step p ev p'" "background ev" "mem_queue_inv (pl_queue p)" "pl_calls p = []"
  shows "pl_calls p' = [] \<and> pl_jobs p' = pl_jobs p \<and> disciplined p ev \<and> arrivals ev = []"
  using assms(1)
proof cases
  case top
  with worker_top_cases [OF assms(3)] assms(2,4) show ?thesis by auto
next
  case (resched_ok r now p1)
  with worker_resched_same [OF resched_ok(5)] assms(2,4) show ?thesis by simp
next
  case (resched_drop r now e p1)
  with worker_resched_same [OF resched_drop(5)] assms(2,4) show ?thesis by simp
next
  case (push_ok r rs q)
  with assms(2,4) show ?thesis by (simp add: ticker_push_Inr)
next
  case (push_drop r rs e)
  with assms(2,4) show ?thesis by (simp add: ticker_push_Inl)
qed (use assms(2,4) in \<open>auto simp: op_defs ticker_take_def flush_take_def split: prod.splits\<close>)

lemma background_arrivals: "list_all background evs \<Longrightarrow> concat (map arrivals evs) = []"
proof (induction evs)
  case (Cons ev evs)
  then show ?case by (cases ev) simp_all
qed simp

text \<open>What \<open>Stop\<close> waits for: moves of the loops after which both have ended.\<close>

definition loops_end :: "plane \<Rightarrow> event list \<Rightarrow> plane \<Rightarrow> bool" where
  "loops_end p evs p' \<longleftrightarrow> plane_run p evs p' \<and> list_all background evs \<and>
     pl_worker p' = W_Exited \<and> pl_ticker p' = T_Exited"

lemma reach_cancel: "reach p \<Longrightarrow> reach (stop_cancel p)"
  using reach.step [OF _ plane_step.cancel [of p]] by (cases "pl_worker p = W_NotStarted") (simp_all add: stop_cancel_def)

lemma plane_stop_ends:
  assumes "reach p" "loops_end (stop_cancel p) evs (waits (stop_cancel p))" "plane_stop waits p = (res, p')"
  shows "res = Inr () \<and> pl_worker p' = W_Exited \<and> pl_ticker p' = T_Exited \<and> mq_closed (pl_queue p') \<and>
    mset (tracked p') + mset (concat (map departures evs)) = mset (tracked p)"
proof -
  let ?q = "waits (stop_cancel p)"
  have run: "plane_run (stop_cancel p) evs ?q" "list_all background evs" "pl_worker ?q = W_Exited" "pl_ticker ?q = T_Exited"
    using assms(2) by (simp_all add: loops_end_def)
  note cancelled = reach_cancel [OF assms(1)]
  have inv: "mem_queue_inv (pl_queue ?q)"
    using plane_inv_queue reach_inv plane_run_reach [OF run(1) cancelled] by blast
  obtain r p1 where close: "stop_close ?q = (Some r, p1)" 
    using run(3,4) mq.close_ok [OF inv] by (auto simp: stop_close_def)
  with assms(3) have "res = r" "p' = p1" by (simp_all add: plane_stop_def)
  moreover have "tracked (stop_cancel p) = tracked p" by (simp add: stop_cancel_def refs_defs)
  ultimately show ?thesis
    using stop_close_cases [OF inv close] plane_run_mset [OF run(1) cancelled] background_arrivals [OF run(2)]
    by (auto simp: refs_defs)
qed

subsection \<open>Final states\<close>

lemma step_terminal:
  assumes "plane_step p ev p'" "plane_inv p" "terminal (job_state (pl_heap p r))"
  shows "pl_heap p' r = pl_heap p r"
proof -
  have q: "mem_queue_inv (pl_queue p)" and j: "inv_jobs p"
    using assms(2) by (auto simp: plane_inv_def inv_queue_def)
  have "job_state (pl_heap p r) \<noteq> JobRunning" "\<not> runnable (pl_heap p r)"
    using assms(3) by (auto simp: terminal_def runnable_def)
  then have r: "r \<notin> set (busy p)" "r \<notin> set (held p)"
    using j unfolding inv_jobs_def by blast+
  from assms(1) q show ?thesis
    by (cases rule: step_kinds)
      (use r in \<open>auto simp: refs_defs worker_mark_def worker_call_def worker_finish_heap
        split: prod.splits\<close>)
qed

lemma run_terminal:
  "plane_run p evs p' \<Longrightarrow> reach p \<Longrightarrow> terminal (job_state (pl_heap p r)) \<Longrightarrow>
     pl_heap p' r = pl_heap p r"
  by (induction rule: plane_run.induct)
    (auto simp: step_terminal [OF _ reach_inv [OF plane_run_reach]])

lemma settle_terminal:
  assumes "plane_step p (Ev_Settle r) p'" shows "terminal (job_state (pl_heap p' r))"
  using assms
proof cases
  case (settle err t1 t2)
  then show ?thesis
    by (auto simp: worker_finish_heap worker_finish_worker finish_ok_def finish_failed_def
        Let_def split: if_splits option.splits)
qed

subsection \<open>Keeping a job\<close>

lemma step_kept:
  assumes "reach p" "plane_step p ev p'"
    and "r \<in> set (tracked p) \<or> r \<in> set (arrivals ev) \<or> terminal (job_state (pl_heap p r))"
    and "\<And>e. ev \<noteq> Ev_Drop r e" "\<And>rs e. ev = Ev_Refuse rs e \<Longrightarrow> r \<notin> set rs"
  shows "r \<in> set (tracked p') \<or> terminal (job_state (pl_heap p' r))"
proof (cases "terminal (job_state (pl_heap p r))")
  case True
  with step_terminal [OF assms(2) reach_inv [OF assms(1)]] show ?thesis by simp
next
  case False
  with assms(3) have "r \<in># mset (tracked p) + mset (arrivals ev)" by auto
  then have "r \<in># mset (tracked p') + mset (departures ev)"
    using plane_step_mset [OF assms(2) plane_inv_queue [OF reach_inv [OF assms(1)]]] by simp
  then have "r \<in> set (tracked p') \<or> r \<in> set (departures ev)" by auto
  moreover have "r \<in> set (departures ev) \<Longrightarrow> ev = Ev_Settle r"
    using assms(4,5) by (cases ev) auto
  ultimately show ?thesis using settle_terminal assms(2) by blast
qed

lemma run_kept:
  "plane_run p evs p' \<Longrightarrow> reach p \<Longrightarrow>
     r \<in> set (tracked p) \<or> (\<exists>rs. Ev_Register rs \<in> set evs \<and> r \<in> set rs) \<Longrightarrow>
     (\<forall>e. Ev_Drop r e \<notin> set evs) \<Longrightarrow> (\<forall>rs e. Ev_Refuse rs e \<in> set evs \<longrightarrow> r \<notin> set rs) \<Longrightarrow>
     r \<in> set (tracked p') \<or> terminal (job_state (pl_heap p' r))"
proof (induction rule: plane_run.induct)
  case (snoc p evs p' ev p'')
  have "reach p'" using plane_run_reach snoc.hyps(1) snoc.prems(1) by blast
  moreover have "r \<in> set (tracked p') \<or> r \<in> set (arrivals ev) \<or> terminal (job_state (pl_heap p' r))"
    using snoc.IH snoc.prems by auto
  ultimately show ?case
    by (rule step_kept [OF _ snoc.hyps(2)]) (use snoc.prems in auto)
qed auto

subsection \<open>A plane that was never started\<close>

lemma plane_schedule_worker: "plane_schedule now r p = (res, p') \<Longrightarrow> pl_worker p' = pl_worker p"
  using plane_schedule_frame(4) [of now r p] by simp

lemma run_not_started:
  "plane_run p evs p' \<Longrightarrow> mem_queue_inv (pl_queue p) \<Longrightarrow> reach p \<Longrightarrow> Ev_Start \<notin> set evs \<Longrightarrow>
     pl_worker p = W_NotStarted \<Longrightarrow> pl_worker p' = W_NotStarted"
proof (induction rule: plane_run.induct)
  case (snoc p evs p' ev p'')
  have inv: "mem_queue_inv (pl_queue p')"
    using plane_inv_queue reach_inv plane_run_reach snoc by blast
  from snoc have w: "pl_worker p' = W_NotStarted" "ev \<noteq> Ev_Start" by auto
  show ?case using snoc.hyps(2) w
    by cases (auto simp: op_defs ticker_take_def flush_take_def ticker_push_def
        dest: stop_close_cases [OF inv] plane_schedule_worker split: prod.splits)
qed auto

subsection \<open>Scheduling a graph\<close>

lemma schedule_order_effect:
  assumes "mem_queue_inv (pl_queue p)" "\<not> mq_closed (pl_queue p)" "0 < now"
    and "map (dag_nodes d) order = map Some rs"
    and "length (queue_items (pl_queue p)) + length rs \<le> queue_capacity"
  shows "\<exists>p'. schedule_order now d order p = (Inr (), p') \<and> pl_heap p' = pl_heap p \<and>
    pl_jobs p' = pl_jobs p \<and>
    queue_items (pl_queue p') = queue_items (pl_queue p) @ filter (due (pl_heap p) now) rs \<and>
    sch_pending (pl_sched p') = sch_pending (pl_sched p) @
      filter (\<lambda>r. \<not> due (pl_heap p) now r) rs"
  using assms
proof (induction order arbitrary: p rs)
  case (Cons i "is")
  then obtain r rs' where rs: "rs = r # rs'" "dag_nodes d i = Some r"
    "map (dag_nodes d) is = map Some rs'" by (cases rs) auto
  obtain res p1 where p1: "plane_schedule now r p = (res, p1)" by force
  from plane_schedule_cases [OF Cons.prems(1) p1] Cons.prems(2,5) rs(1) have res: "res = Inr ()"
    by (cases res) auto
  note frame = plane_schedule_frame [of now r p, unfolded p1 snd_conv]
  from plane_schedule_cases [OF Cons.prems(1) p1] Cons.prems(3) res have p1_spec:
    "mem_queue_inv (pl_queue p1)" "mq_closed (pl_queue p1) = mq_closed (pl_queue p)"
    "if due (pl_heap p) now r
     then sch_pending (pl_sched p1) = sch_pending (pl_sched p) \<and>
       queue_items (pl_queue p1) = queue_items (pl_queue p) @ [r]
     else sch_pending (pl_sched p1) = sch_pending (pl_sched p) @ [r] \<and>
       queue_items (pl_queue p1) = queue_items (pl_queue p)"
    by (auto simp: due_def split: if_splits)
  have "length (queue_items (pl_queue p1)) + length rs' \<le> queue_capacity"
    using p1_spec(3) Cons.prems(5) rs(1) by (auto split: if_splits)
  from Cons.IH [OF p1_spec(1) _ Cons.prems(3) rs(3) this] p1_spec(2) Cons.prems(2)
  obtain p' where "schedule_order now d is p1 = (Inr (), p') \<and> pl_heap p' = pl_heap p1 \<and>
    pl_jobs p' = pl_jobs p1 \<and>
    queue_items (pl_queue p') = queue_items (pl_queue p1) @ filter (due (pl_heap p1) now) rs' \<and>
    sch_pending (pl_sched p') = sch_pending (pl_sched p1) @
      filter (\<lambda>r. \<not> due (pl_heap p1) now r) rs'" by auto
  with rs p1 res p1_spec(3) frame show ?case
    by (intro exI [of _ p']) (auto split: if_splits)
qed simp

lemma topo_order_refs:
  assumes "topo_order d xs" shows "\<exists>rs. map (dag_nodes d) xs = map Some rs"
proof -
  have "\<forall>x \<in> set xs. dag_nodes d x = Some (the (dag_nodes d x))"
    using assms by (auto simp: topo_order_def)
  then have "map (dag_nodes d) xs = map Some (map (\<lambda>x. the (dag_nodes d x)) xs)" by simp
  then show ?thesis by blast
qed

subsection \<open>One job on its own\<close>

text \<open>A scheduler tick followed by a round of the worker, at one reading of the clock.\<close>

definition plane_flush :: "time \<Rightarrow> plane \<Rightarrow> plane" where
  "plane_flush now p = p\<lparr>pl_sched := flush enqueue (pl_heap p) now (pl_sched p)\<rparr>"

definition cycle :: "time \<Rightarrow> plane \<Rightarrow> plane" where
  "cycle now p = worker_round now (plane_flush now p)"

fun cycles :: "(nat \<Rightarrow> time) \<Rightarrow> nat \<Rightarrow> plane \<Rightarrow> plane" where
  "cycles ts 0 p = p"
| "cycles ts (Suc n) p = cycle (ts n) (cycles ts n p)"

text \<open>The plane idles but for job \<open>r\<close>, which is in the queue or waits in the scheduler.\<close>

definition solo :: "ref \<Rightarrow> plane \<Rightarrow> bool" where
  "solo r p \<longleftrightarrow> mem_queue_inv (pl_queue p) \<and> \<not> mq_closed (pl_queue p) \<and> \<not> pl_cancelled p \<and>
     pl_worker p = W_Loop \<and>
     queue_items (pl_queue p) @ sch_pending (pl_sched p) = [r]"

lemma solo_flush:
  assumes "solo r p" "run_after (pl_heap p r) \<le> now"
  shows "solo r (plane_flush now p) \<and> queue_items (pl_queue (plane_flush now p)) = [r] \<and>
    sch_pending (pl_sched (plane_flush now p)) = []"
proof -
  have inv: "mem_queue_inv (pl_queue p)" "\<not> mq_closed (pl_queue p)"
    and q: "queue_items (pl_queue p) @ sch_pending (pl_sched p) = [r]"
    using assms(1) by (auto simp: solo_def)
  from q consider "queue_items (pl_queue p) = [r]" "sch_pending (pl_sched p) = []"
    | "queue_items (pl_queue p) = []" "sch_pending (pl_sched p) = [r]"
    by (auto simp: append_eq_Cons_conv)
  note cases = this
  let ?s = "flush enqueue (pl_heap p) now (pl_sched p)"
  note spec = mq.flush_spec [OF inv, of "pl_heap p" now]
  have "queue_items (sch_queue ?s) = [r] \<and> sch_pending ?s = []"
    using cases
  proof cases
    case 1
    with spec show ?thesis by simp
  next
    case 2
    with spec assms(2) show ?thesis by (simp add: due_def queue_capacity_def)
  qed
  with spec assms(1) show ?thesis by (simp add: solo_def plane_flush_def)
qed

text \<open>The worker takes the one job and calls the handler: what is left is to record the outcome.\<close>

lemma cycle_called:
  assumes "solo r p" "run_after (pl_heap p r) \<le> now"
    and "pl_handler p now ((pl_heap p r)\<lparr>job_state := JobRunning,
           attempts := attempts (pl_heap p r) + 1, started_at := now\<rparr>) = (j, err)"
  obtains p2 where "cycle now p = (let p3 = worker_finish now now r err p2
      in if pl_worker p3 = W_Resched r then worker_resched now r p3 else p3)"
    "pl_heap p2 r = j" "pl_handler p2 = pl_handler p" "mem_queue_inv (pl_queue p2)" "queue_items (pl_queue p2) = []"
    "\<not> mq_closed (pl_queue p2)" "sch_pending (pl_sched p2) = []" "\<not> pl_cancelled p2"
proof -
  let ?p1 = "plane_flush now p"
  from solo_flush [OF assms(1,2)] have s: "solo r ?p1" "queue_items (pl_queue ?p1) = [r]"
    "sch_pending (pl_sched ?p1) = []" by auto
  then have inv: "mem_queue_inv (pl_queue ?p1)" "\<not> pl_cancelled ?p1" "\<not> mq_closed (pl_queue ?p1)"
    by (auto simp: solo_def)
  have "\<not> pl_cancelled ?p1 \<and> queue_items (pl_queue ?p1) \<noteq> []" using inv(2) s(2) by simp
  with worker_top_cases [OF inv(1)] obtain r' q where
    q0: "queue_items (pl_queue ?p1) = r' # queue_items q" "mem_queue_inv q" "mq_closed q = mq_closed (pl_queue ?p1)"
      "worker_top ?p1 = ?p1\<lparr>pl_sched := (pl_sched ?p1)\<lparr>sch_queue := q\<rparr>, pl_worker := W_Got r'\<rparr>" by blast
  then have q: "queue_items q = []" "mem_queue_inv q" "\<not> mq_closed q"
    "worker_top ?p1 = ?p1\<lparr>pl_sched := (pl_sched ?p1)\<lparr>sch_queue := q\<rparr>, pl_worker := W_Got r\<rparr>"
    using s(2) inv(3) by simp_all
  let ?p2 = "worker_call now r (pl_handler p) (worker_mark now r (pl_handler p)
      (worker_handler r (worker_top ?p1)))"
  have h: "pl_handler ?p1 = pl_handler p" "pl_heap ?p1 = pl_heap p"
    by (simp_all add: plane_flush_def)
  have p2: "pl_worker ?p2 = W_Returned r err" "pl_heap ?p2 r = j"
    "pl_sched ?p2 = (pl_sched ?p1)\<lparr>sch_queue := q\<rparr>" "pl_handler ?p2 = pl_handler p"
    "pl_cancelled ?p2 = pl_cancelled ?p1"
    using assms(3) h by (simp_all add: worker_call_def worker_mark_def worker_handler_def q(4))
  then show thesis using q s inv h
    by (intro that [of ?p2]) (simp_all add: cycle_def worker_round_def Let_def)
qed

text \<open>A job to be retried is rescheduled on a plane that holds nothing else.\<close>

lemma resched_solo:
  assumes "mem_queue_inv (pl_queue p)" "queue_items (pl_queue p) = []" "\<not> mq_closed (pl_queue p)"
    and "sch_pending (pl_sched p) = []" "\<not> pl_cancelled p"
  shows "solo r (worker_resched now r p) \<and> pl_heap (worker_resched now r p) = pl_heap p \<and>
    pl_handler (worker_resched now r p) = pl_handler p"
proof -
  obtain res p4 where p4: "plane_schedule now r p = (res, p4)" by force
  from plane_schedule_cases [OF assms(1) p4] assms have res: "res = Inr ()"
    by (cases res) (auto simp: queue_capacity_def)
  from plane_schedule_cases [OF assms(1) p4] assms res show ?thesis
    unfolding worker_resched_same [OF p4] by (auto simp: solo_def split: if_splits)
qed

lemma cycle_solo:
  assumes "solo r p" "run_after (pl_heap p r) \<le> now"
    and "pl_handler p now ((pl_heap p r)\<lparr>job_state := JobRunning,
           attempts := attempts (pl_heap p r) + 1, started_at := now\<rparr>) = (j, err)"
  defines "p' \<equiv> cycle now p"
  shows "pl_handler p' = pl_handler p \<and>
    pl_heap p' r = (case err of None \<Rightarrow> finish_ok now j | Some e \<Rightarrow> finish_failed now now e j) \<and>
    (err \<noteq> None \<and> attempts j < max_attempts j \<longrightarrow> solo r p')"
proof -
  obtain p2 where p2: "cycle now p = (let p3 = worker_finish now now r err p2
      in if pl_worker p3 = W_Resched r then worker_resched now r p3 else p3)"
    "pl_heap p2 r = j" "pl_handler p2 = pl_handler p" and q: "mem_queue_inv (pl_queue p2)" "queue_items (pl_queue p2) = []"
    "\<not> mq_closed (pl_queue p2)" "sch_pending (pl_sched p2) = []" "\<not> pl_cancelled p2"
    using cycle_called [OF assms(1-3)] by blast
  let ?p3 = "worker_finish now now r err p2"
  have c: "pl_cancelled ?p3 = pl_cancelled p2" by (simp add: worker_finish_def split: option.split)
  show ?thesis
  proof (cases "err \<noteq> None \<and> attempts j < max_attempts j")
    case False
    with p2 show ?thesis by (auto simp: p'_def Let_def worker_finish_worker worker_finish_heap)
  next
    case True
    then have "p' = worker_resched now r ?p3" using p2 by (simp add: p'_def worker_finish_worker)
    with True resched_solo [of ?p3 r now] q c p2(2,3) show ?thesis by (auto simp: worker_finish_heap)
  qed
qed

text \<open>A handler that fails until attempt \<open>i\<close> and then succeeds.\<close>

definition flaky :: "int \<Rightarrow> string \<Rightarrow> handler" where
  "flaky i e = (\<lambda>t j. (j, if attempts j < i then Some e else None))"

lemma cycles_before:
  assumes "solo r p" "fresh_job (pl_heap p r)" "pl_handler p = flaky i e"
    and "\<And>k. int k < min i (max 1 (max_attempts (pl_heap p r))) \<Longrightarrow>
      run_after (pl_heap (cycles ts k p) r) \<le> ts k"
    and "int k < min i (max 1 (max_attempts (pl_heap p r)))"
  shows "solo r (cycles ts k p) \<and> attempts (pl_heap (cycles ts k p) r) = int k \<and>
    max_attempts (pl_heap (cycles ts k p) r) = max_attempts (pl_heap p r) \<and>
    pl_handler (cycles ts k p) = flaky i e"
  using assms(5)
proof (induction k)
  case 0
  with assms(1-3) show ?case by (simp add: fresh_job_def)
next
  case (Suc k)
  let ?q = "cycles ts k p"
  from Suc have IH: "solo r ?q" "attempts (pl_heap ?q r) = int k"
    "max_attempts (pl_heap ?q r) = max_attempts (pl_heap p r)" "pl_handler ?q = flaky i e" by auto
  let ?j = "(pl_heap ?q r)\<lparr>job_state := JobRunning,
      attempts := attempts (pl_heap ?q r) + 1, started_at := ts k\<rparr>"
  have "pl_handler ?q (ts k) ?j = (?j, Some e)" using IH Suc.prems by (simp add: flaky_def)
  have "int k < min i (max 1 (max_attempts (pl_heap p r)))" using Suc.prems by linarith
  then have "run_after (pl_heap ?q r) \<le> ts k" by (rule assms(4))
  from cycle_solo [OF IH(1) this \<open>pl_handler ?q (ts k) ?j = (?j, Some e)\<close>] IH Suc.prems
  show ?case
    by (auto simp: finish_failed_def Let_def max_def split: if_splits)
qed

section \<open>What the plane guarantees\<close>

text \<open>
  A plane of three fresh jobs for the witnesses, and the run in which job \<open>0\<close> is submitted,
  dequeued and marked running at time \<open>10\<close>.
\<close>

definition jobs0 :: "ref \<Rightarrow> job" where
  "jobs0 = (\<lambda>r. new_job [CHR ''j'', char_of (48 + r)] 5 ''t'' [] [])"

definition plane0 :: plane where
  "plane0 = new_plane jobs0 5"

definition plane1 :: plane where
  "plane1 = (register_job 0 (plane_start plane0))\<lparr>pl_calls := [[0]]\<rparr>"

definition plane2 :: plane where
  "plane2 = at_time 10 ((snd (plane_schedule 10 0 plane1))\<lparr>pl_calls := [[]]\<rparr>)"

definition plane3 :: plane where
  "plane3 = worker_handler 0 (worker_top plane2)"

definition plane4 :: plane where
  "plane4 = at_time 10 (worker_mark 10 0 (pl_handler plane3) plane3)"

definition plane5 :: plane where
  "plane5 = at_time 11 (worker_call 11 0 (pl_handler plane3) plane4)"

definition plane6 :: plane where
  "plane6 = at_time 12 (worker_finish 12 12 0 None plane5)"

lemma jobs0_fresh: "fresh_job (jobs0 r)"
  by (simp add: jobs0_def)

lemma plane0_reach: "reach plane0"
  unfolding plane0_def by (rule reach.init) (simp_all add: jobs0_fresh)

lemma jobs0_run_after: "run_after (jobs0 r) = 0" "job_state (jobs0 r) = JobPending"
  "attempts (jobs0 r) = 0" "max_attempts (jobs0 r) = 3"
  by (simp_all add: jobs0_def new_job_def)

lemmas plane0_defs = plane0_def new_plane_def plane_start_def new_scheduler_def
  new_mem_queue_def make_chan_def register_job_def

lemmas plane_eval = plane_schedule_def schedule_def enqueue_def chan_send_def due_def
  jobs0_run_after queue_capacity_def worker_top_def dequeue_def chan_recv_def
  worker_handler_def worker_mark_def

lemma plane2_run: "plane_run plane0 [Ev_Start, Ev_Register [0], Ev_Tau] plane2"
proof -
  have a: "plane_run plane0 [Ev_Start] (plane_start plane0)"
    using plane_run.snoc [OF plane_run.refl plane_step.start, of plane0]
    by (simp add: plane0_defs)
  have b: "plane_run plane0 [Ev_Start, Ev_Register [0]] plane1"
    using plane_run.snoc [OF a plane_step.submit, of 0] jobs0_fresh
    by (simp add: plane0_defs plane1_def refs_defs queue_items_def)
  have c: "plane_step plane1 Ev_Tau plane2"
    unfolding plane2_def
    using plane_step.call_ok [of 0 plane1 0 "[]" 10 "snd (plane_schedule 10 0 plane1)"]
    by (simp add: plane1_def plane0_defs plane_eval)
  show ?thesis using plane_run.snoc [OF b c] by simp
qed

lemma plane3_run: "plane_run plane0 [Ev_Start, Ev_Register [0], Ev_Tau, Ev_Tau, Ev_Tau] plane3"
proof -
  have w: "pl_worker plane2 = W_Loop" by (simp add: plane2_def plane1_def plane0_defs plane_eval)
  have g: "pl_worker (worker_top plane2) = W_Got 0"
    by (simp add: plane2_def plane1_def plane0_defs plane_eval)
  from plane_run.snoc [OF plane_run.snoc [OF plane2_run plane_step.top [OF w]]
      plane_step.read [OF g]]
  show ?thesis by (simp add: plane3_def)
qed

lemma plane4_step: "plane_step plane3 (Ev_Run 0) plane4"
  unfolding plane4_def
  by (rule plane_step.mark)
    (simp_all add: plane3_def plane2_def plane1_def plane0_defs plane_eval)

lemma plane4_run:
  "plane_run plane0 [Ev_Start, Ev_Register [0], Ev_Tau, Ev_Tau, Ev_Tau, Ev_Run 0] plane4"
  using plane_run.snoc [OF plane3_run plane4_step] by simp

lemma plane6_run: "plane_run plane0
    [Ev_Start, Ev_Register [0], Ev_Tau, Ev_Tau, Ev_Tau, Ev_Run 0, Ev_Tau, Ev_Settle 0] plane6"
proof -
  have a: "plane_step plane4 Ev_Tau plane5"
    unfolding plane5_def
    by (rule plane_step.run)
      (simp_all add: plane4_def plane3_def plane2_def plane1_def plane0_defs plane_eval)
  have b: "plane_step plane5 (Ev_Settle 0) plane6"
    unfolding plane6_def
    by (rule plane_step.settle)
      (simp_all add: plane5_def worker_call_def worker_finish_def plane4_def plane3_def
        plane2_def plane1_def plane0_defs plane_eval)
  from plane_run.snoc [OF plane_run.snoc [OF plane4_run a] b] show ?thesis by simp
qed

lemma plane6_reach: "reach plane6"
  using plane_run_reach plane6_run plane0_reach by blast

lemma plane6_eval: "job_state (pl_heap plane6 0) = JobCompleted" "pl_worker plane6 = W_Loop"
  by (simp_all add: plane6_def worker_finish_def finish_ok_def)

lemma plane3_reach: "reach plane3" and plane4_reach: "reach plane4"
  using plane_run_reach plane3_run plane4_run plane0_reach by blast+

text \<open>
  C2. Attempts are bounded under every interleaving of clients, worker, scheduler and
  shutdown: a pending job has none, a job that ran has between one and its limit (at least
  one run is granted), a job to be retried has some left, and a failed job used them all. This
  rests on the discipline of Plane_Inv, which Process shows the program's own clients keep:
  only fresh jobs are submitted, each once, and handlers leave the fields of the plane alone.
\<close>

theorem plane_attempts_bounded:
  assumes "reach p"
  shows "case job_state (pl_heap p r) of
      JobPending \<Rightarrow> attempts (pl_heap p r) = 0
    | JobRetrying \<Rightarrow> 1 \<le> attempts (pl_heap p r) \<and>
        attempts (pl_heap p r) < max_attempts (pl_heap p r)
    | JobFailed \<Rightarrow> attempts (pl_heap p r) = max 1 (max_attempts (pl_heap p r))
    | _ \<Rightarrow> 1 \<le> attempts (pl_heap p r) \<and>
        attempts (pl_heap p r) \<le> max 1 (max_attempts (pl_heap p r))"
proof -
  have "job_ok (pl_heap p r)" using reach_inv [OF assms] by (simp add: plane_inv_def inv_jobs_def)
  then show ?thesis unfolding job_ok_simps .
qed

theorem plane_attempts_bounded_witness:
  "job_state (pl_heap plane4 0) = JobRunning \<and> attempts (pl_heap plane4 0) \<le> 3"
  using plane_attempts_bounded [OF plane4_reach, of 0]
  by (simp add: plane4_def plane3_def plane2_def plane1_def plane0_defs plane_eval)

text \<open>
  C3. No job is ever in two places at once (queue, scheduler, a flush in progress, the
  worker, an unfinished client call), and at most one job, the worker's, is in the state
  running, under the discipline of Plane_Inv: each job is submitted once, and fresh.
\<close>

theorem plane_no_duplicates:
  assumes "reach p"
  shows "distinct (tracked p) \<and>
    (\<forall>r. job_state (pl_heap p r) = JobRunning \<longleftrightarrow> worker_busy (pl_worker p) = [r])"
proof -
  have "worker_busy (pl_worker p) = [r] \<longleftrightarrow> r \<in> set (worker_busy (pl_worker p))" for r
    by (cases "pl_worker p") auto
  with reach_inv [OF assms] show ?thesis by (auto simp: plane_inv_def inv_jobs_def)
qed

theorem plane_no_duplicates_witness:
  "reach plane4 \<and> distinct (tracked plane4) \<and> job_state (pl_heap plane4 0) = JobRunning"
  using plane_no_duplicates [OF plane4_reach] plane4_reach
  by (simp add: plane4_def plane3_def plane2_def plane1_def plane0_defs plane_eval)

text \<open>
  C24. Completed and failed are final: once a job is in such a state no later step of the
  plane, however it is interleaved, changes anything in it, as long as clients submit fresh
  jobs only, which is the discipline of Plane_Inv that Process discharges.
\<close>

theorem plane_terminal_final:
  assumes "reach p" "plane_run p evs p'" "terminal (job_state (pl_heap p r))"
  shows "pl_heap p' r = pl_heap p r"
  using run_terminal assms by blast

theorem plane_terminal_final_witness:
  "reach plane6 \<and> terminal (job_state (pl_heap plane6 0)) \<and>
   pl_heap (worker_top plane6) 0 = pl_heap plane6 0"
proof -
  have "plane_run plane6 [Ev_Tau] (worker_top plane6)"
    using plane_run.snoc [OF plane_run.refl plane_step.top [OF plane6_eval(2)]] by simp
  from plane_terminal_final [OF plane6_reach this, of 0] plane6_reach plane6_eval show ?thesis
    by simp
qed

text \<open>
  C1. No job is lost silently: along any run, every job handed to the plane is still held
  somewhere, has reached a final state, or was given up in a step that says so (a background
  enqueue into a full or closed queue, or a client call that returned the error).
\<close>

theorem plane_no_silent_loss:
  assumes "reach p" "plane_run p evs p'"
    and "r \<in> set (tracked p) \<or> (\<exists>rs. Ev_Register rs \<in> set evs \<and> r \<in> set rs)"
    and "\<And>e. Ev_Drop r e \<notin> set evs" "\<And>rs e. Ev_Refuse rs e \<in> set evs \<Longrightarrow> r \<notin> set rs"
  shows "r \<in> set (tracked p') \<or> terminal (job_state (pl_heap p' r))"
  using run_kept [OF assms(2,1,3)] assms(4,5) by blast

theorem plane_no_silent_loss_witness:
  "0 \<in> set (tracked plane4) \<or> terminal (job_state (pl_heap plane4 0))"
  by (rule plane_no_silent_loss [OF plane0_reach plane4_run]) auto

text \<open>
  C25. A step that starts an attempt starts a job that was waiting for one, never before its
  \<open>RunAfter\<close> time, and counts the attempt.
\<close>

theorem plane_never_early:
  assumes "reach p" "plane_step p (Ev_Run r) p'"
  shows "run_after (pl_heap p r) \<le> started_at (pl_heap p' r) \<and>
    (job_state (pl_heap p r) = JobPending \<or> job_state (pl_heap p r) = JobRetrying) \<and>
    job_state (pl_heap p' r) = JobRunning \<and>
    attempts (pl_heap p' r) = attempts (pl_heap p r) + 1"
  using assms(2)
proof cases
  case (mark h now)
  then have "r \<in> set (due_refs p)" by (simp add: due_refs_def)
  moreover from this reach_inv [OF assms(1)] have "runnable (pl_heap p r)"
    by (auto simp: plane_inv_def inv_jobs_def)
  ultimately show ?thesis
    using inv_due_mono [of p now r] reach_inv [OF assms(1)] mark
    by (auto simp: plane_inv_def worker_mark_def runnable_def)
qed

theorem plane_never_early_witness:
  "reach plane3 \<and> plane_step plane3 (Ev_Run 0) plane4 \<and> started_at (pl_heap plane4 0) = 10 \<and>
   run_after (pl_heap plane3 0) \<le> 10"
  using plane_never_early [OF plane3_reach plane4_step] plane3_reach plane4_step
  by (simp add: plane4_def worker_mark_def)

text \<open>
  C40. The retry delay of a failed attempt is the square of the attempt number times 100
  milliseconds after the clock reading, exactly, up to attempt 303700. At attempt 303701 the
  64-bit product overflows and the delay is negative, so the retry is due at once.
\<close>

theorem retry_backoff_exact:
  assumes "1 \<le> attempts j" "attempts j \<le> 303700" "attempts j < max_attempts j"
  shows "run_after (finish_failed t1 t2 e j) = t2 + attempts j * attempts j * 100000000 \<and>
    job_state (finish_failed t1 t2 e j) = JobRetrying \<and>
    run_after (finish_failed t1 t2 e (j\<lparr>attempts := 303701, max_attempts := 303702\<rparr>)) < t2"
proof -
  have eq: "backoff a = word_of_int (a * a * 100000000)" for a
    by (simp add: backoff_def millisecond_def)
  have exact: "sint (word_of_int (b * 100000000) :: gint) = b * 100000000"
    if "0 \<le> b" "b \<le> 303700 * 303700" for b
    using sint_gint_scaled [of b "303700 * 303700" 100000000] that by (simp add: mult.commute)
  have "attempts j * attempts j \<le> 303700 * 303700"
    using assms by (intro mult_mono) auto
  then have "sint (backoff (attempts j)) = attempts j * attempts j * 100000000"
    using exact [of "attempts j * attempts j"] by (simp add: eq)
  moreover have "sint (backoff 303701) < 0" by (simp add: backoff_def millisecond_def)
  ultimately show ?thesis using assms by (simp add: finish_failed_def Let_def time_add_def)
qed

theorem retry_backoff_exact_witness:
  "run_after (finish_failed 7 8 ''boom'' ((jobs0 0)\<lparr>attempts := 2\<rparr>)) = 8 + 400000000"
  using retry_backoff_exact [of "(jobs0 0)\<lparr>attempts := 2\<rparr>" 7 8 "''boom''"]
  by (simp add: jobs0_run_after)

text \<open>
  C26. One job alone on the plane, with a handler that fails before attempt \<open>i\<close> and succeeds
  from then on, ticked whenever its retry is due: after \<open>min i (max 1 MaxAttempts)\<close> rounds it
  is completed if \<open>i\<close> is within the limit and failed, with the handler's error, otherwise.
\<close>

theorem flaky_job_outcome:
  assumes "solo r p" "fresh_job (pl_heap p r)" "pl_handler p = flaky i e" "1 \<le> i"
    and "\<And>k. int k < min i (max 1 (max_attempts (pl_heap p r))) \<Longrightarrow>
      run_after (pl_heap (cycles ts k p) r) \<le> ts k"
  defines "m \<equiv> max 1 (max_attempts (pl_heap p r))"
  defines "j \<equiv> pl_heap (cycles ts (nat (min i m)) p) r"
  shows "attempts j = min i m \<and>
    (if i \<le> m then job_state j = JobCompleted else job_state j = JobFailed \<and> job_error j = e)"
proof -
  define k where "k = nat (min i m) - 1"
  have k: "nat (min i m) = Suc k" "int k = min i m - 1" "int k < min i m"
    using assms(4) by (auto simp: k_def m_def)
  let ?q = "cycles ts k p"
  from cycles_before [OF assms(1-3,5), of k] k(3)
  have q: "solo r ?q" "attempts (pl_heap ?q r) = int k"
    "max_attempts (pl_heap ?q r) = max_attempts (pl_heap p r)" "pl_handler ?q = flaky i e"
    by (auto simp: m_def)
  let ?j = "(pl_heap ?q r)\<lparr>job_state := JobRunning,
      attempts := attempts (pl_heap ?q r) + 1, started_at := ts k\<rparr>"
  have "pl_handler ?q (ts k) ?j = (?j, if min i m < i then Some e else None)"
    using q k(2) by (simp add: flaky_def)
  note h = this
  have now: "run_after (pl_heap ?q r) \<le> ts k" using assms(5) k(3) by (simp add: m_def)
  have "j = pl_heap (cycle (ts k) ?q) r" by (simp add: j_def k(1))
  with cycle_solo [OF q(1) now h] q k(2) show ?thesis
    by (auto simp: m_def finish_ok_def finish_failed_def Let_def split: if_splits)
qed

definition flaky_plane :: plane where
  "flaky_plane = (snd (plane_schedule 10 0 (plane_start plane0)))\<lparr>pl_handler := flaky 2 ''e''\<rparr>"

definition flaky_times :: "nat \<Rightarrow> time" where
  "flaky_times k = 10 + int k * 1000000000"

theorem flaky_job_outcome_witness:
  "solo 0 flaky_plane \<and> job_state (pl_heap (cycles flaky_times 2 flaky_plane) 0) = JobCompleted \<and>
   attempts (pl_heap (cycles flaky_times 2 flaky_plane) 0) = 2"
proof -
  have heap: "pl_heap flaky_plane = jobs0" and h: "pl_handler flaky_plane = flaky 2 ''e''"
    by (simp_all add: flaky_plane_def plane0_defs)
  have solo: "solo 0 flaky_plane"
    by (simp add: flaky_plane_def plane0_defs plane_eval solo_def mem_queue_inv_def chan_ok_def
        queue_items_def)
  have m: "max_attempts (pl_heap flaky_plane 0) = 3" by (simp add: heap jobs0_run_after)
  have fresh: "fresh_job (pl_heap flaky_plane 0)" by (simp add: heap jobs0_fresh)
  have t: "run_after (pl_heap (cycles flaky_times k flaky_plane) 0) \<le> flaky_times k"
    if "int k < min 2 (max 1 (max_attempts (pl_heap flaky_plane 0)))" for k
  proof -
    from that m have k: "k = 0 \<or> k = 1" by auto
    have zero: "run_after (pl_heap flaky_plane 0) \<le> flaky_times 0"
      by (simp add: heap jobs0_run_after flaky_times_def)
    from cycle_solo [OF solo zero] h
    have "run_after (pl_heap (cycle (flaky_times 0) flaky_plane) 0) \<le> flaky_times 1"
      by (simp add: flaky_def heap jobs0_run_after finish_failed_def flaky_times_def
          time_add_def backoff_def millisecond_def)
    with k zero show ?thesis by auto
  qed
  from flaky_job_outcome [OF solo fresh h _ t] m solo show ?thesis by simp
qed

text \<open>
  C27. \<open>SubmitDAG\<close> on an idle running plane registers every job of an acyclic graph and, if
  they fit in the queue, hands each of them to the scheduler at once: the due ones are queued
  in topological order, the delayed ones wait for their time. A child is not held back until
  its parents have completed.
\<close>

theorem submit_dag_effect:
  assumes "dag_inv d" "key_order (dag_nodes d) ns" "key_order (dag_edges d) es"
    and "key_order (in_degrees d ns es) ds"
    and "mem_queue_inv (pl_queue p)" "\<not> mq_closed (pl_queue p)" "0 < now"
    and "length (queue_items (pl_queue p)) + card (dom (dag_nodes d)) \<le> queue_capacity"
  shows "\<exists>order rs p'. topo_order d order \<and> map (dag_nodes d) order = map Some rs \<and>
    submit_dag now d ns es ds p = (Inr (), p') \<and>
    (\<forall>i r. dag_nodes d i = Some r \<longrightarrow> pl_jobs p' i = Some r) \<and>
    queue_items (pl_queue p') = queue_items (pl_queue p) @
      filter (\<lambda>r. run_after (pl_heap p r) \<le> now) rs \<and>
    sch_pending (pl_sched p') = sch_pending (pl_sched p) @
      filter (\<lambda>r. now < run_after (pl_heap p r)) rs"
proof -
  from assms(1) have d: "dag_closed d" "acyclic (dag_rel d)" by (auto simp: dag_inv_def)
  from topological_sort_cases [OF d(1) assms(2-4)] d(2) obtain order where
    sort: "topological_sort d ns es ds = Inr order" and topo: "topo_order d order"
    by (auto split: sum.splits)
  obtain rs where rs: "map (dag_nodes d) order = map Some rs"
    using topo_order_refs [OF topo] by blast
  have "length rs = card (dom (dag_nodes d))"
    using topo rs by (metis distinct_card length_map topo_order_def)
  then have room: "length (queue_items (pl_queue (register_dag d order p))) + length rs
      \<le> queue_capacity"
    using assms(8) by (simp add: register_dag_def)
  from schedule_order_effect [OF _ _ assms(7) rs room] assms(5,6)
  obtain p' where p': "schedule_order now d order (register_dag d order p) = (Inr (), p')"
    "pl_jobs p' = pl_jobs (register_dag d order p)"
    "queue_items (pl_queue p') = queue_items (pl_queue p) @ filter (due (pl_heap p) now) rs"
    "sch_pending (pl_sched p') = sch_pending (pl_sched p) @
      filter (\<lambda>r. \<not> due (pl_heap p) now r) rs"
    by (auto simp: register_dag_def)
  have "\<forall>i r. dag_nodes d i = Some r \<longrightarrow> pl_jobs p' i = Some r"
    using topo by (auto simp: p'(2) register_dag_jobs topo_order_def)
  moreover have "due (pl_heap p) now = (\<lambda>r. run_after (pl_heap p r) \<le> now)"
    "(\<lambda>r. \<not> due (pl_heap p) now r) = (\<lambda>r. now < run_after (pl_heap p r))"
    by (auto simp: due_def fun_eq_iff)
  ultimately show ?thesis using topo rs sort p'(1,3,4)
    by (intro exI [of _ order] exI [of _ rs] exI [of _ p']) (simp add: submit_dag_def)
qed

text \<open>In the witness the parent \<open>a\<close> is delayed and its children are queued before it.\<close>

definition delayed_plane :: plane where
  "delayed_plane = new_plane (\<lambda>r. if r = 0 then (jobs0 0)\<lparr>run_after := 100\<rparr> else jobs0 r) 5"

theorem submit_dag_effect_witness:
  "\<exists>order rs p'. topo_order diamond order \<and> map (dag_nodes diamond) order = map Some rs \<and>
    submit_dag 10 diamond [''c'', ''a'', ''b''] [''b'', ''a''] [''b'', ''c'', ''a''] delayed_plane
      = (Inr (), p') \<and>
    queue_items (pl_queue p') = filter (\<lambda>r. r \<noteq> 0) rs \<and>
    sch_pending (pl_sched p') = filter (\<lambda>r. r = 0) rs"
proof -
  have q: "mem_queue_inv (pl_queue delayed_plane)" "\<not> mq_closed (pl_queue delayed_plane)"
    "queue_items (pl_queue delayed_plane) = []" "sch_pending (pl_sched delayed_plane) = []"
    by (simp_all add: delayed_plane_def new_plane_def new_scheduler_def)
  have n: "length (queue_items (pl_queue delayed_plane)) + card (dom (dag_nodes diamond))
      \<le> queue_capacity"
    by (simp add: q queue_capacity_def diamond_def)
  have due: "run_after (pl_heap delayed_plane r) = (if r = 0 then 100 else 0)" for r
    by (simp add: delayed_plane_def new_plane_def jobs0_run_after)
  have f: "(\<lambda>r. run_after (pl_heap delayed_plane r) \<le> 10) = (\<lambda>r. r \<noteq> 0)"
    "(\<lambda>r. 10 < run_after (pl_heap delayed_plane r)) = (\<lambda>r. r = 0)"
    by (auto simp: due)
  from submit_dag_effect [OF diamond_acyclic diamond_orders q(1,2) _ n, of 10] q f
  show ?thesis by fastforce
qed

text \<open>
  \<open>Stop\<close> returns without error and leaves the queue closed, and it does so only after
  the worker and the scheduler loop have exited; from then on a \<open>Submit\<close> is answered by an
  error, never by a panic on the closed channel.
\<close>

theorem stop_clean:
  assumes "reach p" "stop_close p = (Some res, p')"
  shows "res = Inr () \<and> mq_closed (pl_queue p') \<and> pl_worker p = W_Exited \<and> pl_ticker p = T_Exited \<and>
    (\<forall>now r e. fst (submit now r p') = Inl e \<longrightarrow> \<not> is_panic e) \<and>
    (\<forall>now r. run_after (pl_heap p' r) \<le> now \<longrightarrow> (\<exists>e. fst (submit now r p') = Inl e))"
proof -
  have q: "mem_queue_inv (pl_queue p)" using plane_inv_queue reach_inv assms(1) by blast
  from stop_close_cases [OF q assms(2)] have c: "pl_worker p = W_Exited" "pl_ticker p = T_Exited"
    "res = Inr ()" "mem_queue_inv (pl_queue p')" "mq_closed (pl_queue p')" by auto
  have "\<not> is_panic e" if "fst (submit now r p') = Inl e" for now r e
    using that c(4) plane_schedule_cases [of "register_job r p'" now r]
    by (cases "plane_schedule now r (register_job r p')")
      (auto simp: submit_def register_job_def split: sum.splits)
  moreover have "\<exists>e. fst (submit now r p') = Inl e" if "run_after (pl_heap p' r) \<le> now" for now r
    using that c(5) by (auto simp: submit_def register_job_def plane_schedule_def schedule_def
        due_def enqueue_def)
  ultimately show ?thesis using c by blast
qed

definition stopped_plane :: plane where
  "stopped_plane = ticker_quit (worker_top (stop_cancel (plane_start plane0)))"

theorem stop_clean_witness:
  "\<exists>p'. stop_close stopped_plane = (Some (Inr ()), p') \<and> mq_closed (pl_queue p') \<and>
    (\<exists>e. fst (submit 20 1 p') = Inl e)"
proof -
  have eval: "pl_worker (plane_start plane0) = W_Loop" "pl_cancelled (stop_cancel (plane_start plane0))"
    "pl_worker (stop_cancel (plane_start plane0)) = W_Loop"
    "pl_ticker (worker_top (stop_cancel (plane_start plane0))) = T_Flush []"
    "pl_cancelled (worker_top (stop_cancel (plane_start plane0)))"
    "pl_worker stopped_plane = W_Exited" "pl_ticker stopped_plane = T_Exited"
    by (simp_all add: plane_start_def stop_cancel_def worker_top_def ticker_quit_def stopped_plane_def)
  have "reach (plane_start plane0)"
    by (rule reach.step [OF plane0_reach plane_step.start]) (simp_all add: plane0_defs)
  then have "reach (stop_cancel (plane_start plane0))"
    by (rule reach.step [OF _ plane_step.cancel]) (simp_all add: eval)
  then have "reach (worker_top (stop_cancel (plane_start plane0)))"
    by (rule reach.step [OF _ plane_step.top]) (simp_all add: eval)
  then have r: "reach stopped_plane"
    unfolding stopped_plane_def by (rule reach.step [OF _ plane_step.tquit]) (simp_all add: eval)
  obtain res p' where c: "stop_close stopped_plane = (Some res, p')"
    using mq.close_ok [OF plane_inv_queue [OF reach_inv [OF r]]]
    by (fastforce simp: stop_close_def eval)
  have "run_after (pl_heap p' 1) \<le> 20"
    using stop_close_cases [OF plane_inv_queue [OF reach_inv [OF r]] c]
    by (auto simp: stopped_plane_def plane_start_def stop_cancel_def worker_top_def ticker_quit_def
        plane0_def new_plane_def jobs0_run_after)
  with stop_clean [OF r c] c show ?thesis by blast
qed

text \<open>
  \<open>Stop\<close> on a plane that was never started waits for ever: in every run without
  \<open>Start\<close> its wait for the worker is still blocked.
\<close>

theorem stop_without_start_blocks:
  assumes "\<And>r. fresh_job (h r)" "0 < now" "plane_run (new_plane h now) evs p"
    and "Ev_Start \<notin> set evs"
  shows "fst (stop_close (stop_cancel p)) = None"
proof -
  have "pl_worker p = W_NotStarted"
    using run_not_started [OF assms(3) _ reach.init [OF assms(1,2)] assms(4)]
      plane_inv_queue [OF plane_inv_init [OF assms(1,2)]] by (simp add: new_plane_def)
  then show ?thesis by (simp add: stop_cancel_def stop_close_def)
qed

theorem stop_without_start_blocks_witness:
  "plane_run plane0 [Ev_Register [0]] ((register_job 0 plane0)\<lparr>pl_calls := pl_calls plane0 @ [[0]]\<rparr>) \<and>
   fst (stop_close (stop_cancel ((register_job 0 plane0)\<lparr>pl_calls := pl_calls plane0 @ [[0]]\<rparr>))) = None"
proof -
  have run: "plane_run plane0 [Ev_Register [0]]
      ((register_job 0 plane0)\<lparr>pl_calls := pl_calls plane0 @ [[0]]\<rparr>)"
    using plane_run.snoc [OF plane_run.refl plane_step.submit [of plane0 0]]
    by (simp add: jobs0_fresh plane0_defs refs_defs queue_items_def)
  from stop_without_start_blocks [OF jobs0_fresh _ run [unfolded plane0_def]] run show ?thesis
    by (simp add: plane0_def)
qed

end
