(* ===== verification/Hydra_Main.thy ===== *)
theory Hydra_Main
  imports Handlers Tools Config Plane_Props
begin

text \<open>
  The life of the process (\<open>main\<close> in \<open>cmd/hydra/main.go\<close>): choosing the configuration and
  the memory provider, wiring the five heads, the handlers and the tools, starting the heads,
  and shutting them down. What the operating system answers (the outcome of \<open>Listen\<close> and of
  the server's \<open>Shutdown\<close>), the orders of the maps and \<open>waits\<close>, what the goroutines of
  the execution plane do while its \<open>Stop\<close> waits for them, are arguments. Log lines are left out.
\<close>

section \<open>Choices\<close>

definition choose_config :: "config result \<Rightarrow> config" where
  "choose_config loaded = (case loaded of Inr c \<Rightarrow> c | Inl _ \<Rightarrow> default_config)"

definition default_tdb_url :: string where
  "default_tdb_url = ''http://localhost:8765''"

definition tdb_url :: "config \<Rightarrow> string" where
  "tdb_url c = (if mc_tdb_url (cfg_memory c) = [] then default_tdb_url else mc_tdb_url (cfg_memory c))"

datatype provider_choice = Tardigrade string | In_Memory

definition choose_provider :: "config \<Rightarrow> provider_choice" where
  "choose_provider c =
     (if mc_provider (cfg_memory c) = ''tardigrade'' then Tardigrade (tdb_url c) else In_Memory)"

section \<open>Planes and tools over the state of the process\<close>

text \<open>
  The state of memory has room for both providers; the chosen one works on its half. The
  network of the process is the one the TardigradeDB provider holds.
\<close>

type_synonym 'n memory_state = "mem_store \<times> 'n tdb"

definition plane_on :: "('w \<Rightarrow> 's) \<Rightarrow> ('s \<Rightarrow> 'w \<Rightarrow> 'w) \<Rightarrow> 's memory_plane \<Rightarrow> 'w memory_plane" where
  "plane_on get put mp =
     (let pv = mp_provider mp
      in \<lparr>mp_provider = \<lparr>pv_write = \<lambda>r w. case pv_write pv r (get w) of (x, s) \<Rightarrow> (x, put s w),
                        pv_read = \<lambda>now i w. case pv_read pv now i (get w) of (x, s) \<Rightarrow> (x, put s w),
                        pv_search = \<lambda>ks q w. case pv_search pv ks q (get w) of (x, s) \<Rightarrow> (x, put s w),
                        pv_delete = \<lambda>i w. case pv_delete pv i (get w) of (x, s) \<Rightarrow> (x, put s w)\<rparr>,
          mp_alloc = \<lambda>m w. case mp_alloc mp m (get w) of (r, s) \<Rightarrow> (r, put s w),
          mp_load = \<lambda>w. mp_load mp (get w), mp_nil = mp_nil mp\<rparr>)"

definition tool_on :: "('w \<Rightarrow> 's) \<Rightarrow> ('s \<Rightarrow> 'w \<Rightarrow> 'w) \<Rightarrow> 's tool \<Rightarrow> 'w tool" where
  "tool_on get put t =
     \<lparr>tl_name = tl_name t,
      tl_execute = \<lambda>input w. case tl_execute t input (get w) of (x, s) \<Rightarrow> (x, put s w)\<rparr>"

definition put_net :: "'n \<Rightarrow> 'n memory_state \<Rightarrow> 'n memory_state" where
  "put_net n w = (fst w, (snd w)\<lparr>td_net := n\<rparr>)"

text \<open>How numbers and times are printed, the network, and the orders and names that are drawn.\<close>

record 'n host_env =
  he_ff32 :: "rat \<Rightarrow> string"
  he_ff :: "rat \<Rightarrow> string"
  he_ft :: "time \<Rightarrow> string"
  he_net :: "'n net"
  he_header_order :: "(string \<times> string) list \<Rightarrow> (string \<times> string) list"
  he_uuid :: string
  he_now :: time
  he_keys :: "string list"
  he_jobs :: "ref \<Rightarrow> job"
  he_listen :: "string \<Rightarrow> unit result"
  he_shutdown :: "unit result"
  he_waits :: "plane \<Rightarrow> plane"

definition memory_plane_of :: "'n host_env \<Rightarrow> provider_choice \<Rightarrow> 'n memory_state memory_plane" where
  "memory_plane_of he choice =
     (case choice of
        Tardigrade url \<Rightarrow>
          plane_on snd (\<lambda>s w. (fst w, s)) (tdb_plane (he_ff32 he) (he_ff he) (he_ft he) (he_net he) url)
      | In_Memory \<Rightarrow> plane_on fst (\<lambda>s w. (s, snd w)) inmemory_plane)"

definition main_tools :: "'n host_env \<Rightarrow> config \<Rightarrow> 'n memory_state tool list" where
  "main_tools he c =
     (let mp = memory_plane_of he (choose_provider c); net = (\<lambda>w. td_net (snd w))
      in [tool_on net put_net (http_request_tool (he_ff he) (he_header_order he) (he_net he)),
          memory_write_tool (he_ff he) mp (he_uuid he) (he_now he),
          memory_search_tool (he_ff he) mp (he_keys he),
          tool_on net put_net (tdb_search_tool (he_ff32 he) (he_ff he) (he_net he) (tdb_url c))])"

section \<open>Start and stop\<close>

type_synonym 'n world = "('n memory_state, 'n memory_state) core"

record 'n hydra =
  hy_config :: config
  hy_heads :: "'n world registry"
  hy_gateway :: "serve_env \<Rightarrow> 'n world gateway"
  hy_core :: "'n world"

definition register_tools :: "'w tool list \<Rightarrow> 'w runtime \<Rightarrow> 'w runtime result" where
  "register_tools ts rt = put_all (\<lambda>_. register_tool) (map (\<lambda>t. (tl_name t, t)) ts) rt"

text \<open>Everything up to \<open>StartAll\<close>; an error ends the process.\<close>

definition wire :: "'n host_env \<Rightarrow> 'n \<Rightarrow> config \<Rightarrow> 'n hydra result" where
  "wire he n c =
     (let host = gc_host (cfg_gateway c); port = gc_port (cfg_gateway c);
          mp = memory_plane_of he (choose_provider c)
      in case register_heads (main_heads (he_listen he) (he_shutdown he) (he_waits he)) of
           Inl e \<Rightarrow> Inl e
         | Inr reg \<Rightarrow>
     (case register_tools (main_tools he c) new_runtime of
        Inl e \<Rightarrow> Inl e
      | Inr rt \<Rightarrow>
          Inr \<lparr>hy_config = c, hy_heads = reg,
               hy_gateway = \<lambda>se. register_handlers (he_ff he) (he_ft he) mp se reg (new_gateway host port),
               hy_core = \<lparr>co_policy = new_engine, co_runtime = rt, co_exec = new_plane (he_jobs he) (he_now he),
                          co_jobs = 0, co_memory = (new_store [], \<lparr>td_net = n, td_heap = []\<rparr>),
                          co_bus = new_bus,
                          co_gateway = \<lparr>gw_host = host, gw_port = port, gw_server = False, gw_running = False\<rparr>\<rparr>\<rparr>))"

definition hydra_start :: "'n host_env \<Rightarrow> string list \<Rightarrow> 'n \<Rightarrow> config result \<Rightarrow> 'n hydra result" where
  "hydra_start he order n loaded =
     (let c = choose_config loaded
      in case config_validate c of
           Inl e \<Rightarrow> Inl e
         | Inr _ \<Rightarrow>
     (case wire he n c of
        Inl e \<Rightarrow> Inl e
      | Inr hy \<Rightarrow>
     (case start_all order (hy_heads hy) (hy_core hy) of
        (Inl e, _) \<Rightarrow> Inl e
      | (Inr _, w) \<Rightarrow> Inr (hy\<lparr>hy_core := w\<rparr>))))"

text \<open>An error of \<open>StopAll\<close> is only logged; the bus is closed in any case.\<close>

definition hydra_stop :: "string list \<Rightarrow> string list \<Rightarrow> 'n hydra \<Rightarrow> unit result \<times> unit result \<times> 'n hydra" where
  "hydra_stop order tys hy =
     (let (stopped, w) = stop_all order (hy_heads hy) (hy_core hy);
          (bus_res, b) = bus_close tys (co_bus w)
      in (stopped, bus_res, hy\<lparr>hy_core := w\<lparr>co_bus := b\<rparr>\<rparr>))"

section \<open>Heads\<close>

definition head_list :: "string list" where
  "head_list = [''gateway'', ''agent'', ''execution'', ''memory'', ''policy'']"

lemma head_list_distinct: "distinct head_list"
  by (simp add: head_list_def)

lemma hd_name_main [simp]: "hd_name (gateway_head listen shutdown) = ''gateway''" "hd_name (ok_head n start stop d) = n"
  "hd_name (execution_head waits) = ''execution''"
  by (simp_all add: gateway_head_def ok_head_def execution_head_def)

lemma main_heads_names: "map hd_name (main_heads listen shutdown waits) = head_list"
  by (simp add: main_heads_def head_defs head_list_def)

lemma register_main_heads:
  "register_heads (main_heads listen shutdown waits) =
     Inr (map_of (map (\<lambda>h. (hd_name h, h)) (main_heads listen shutdown waits)))"
proof -
  have names: "distinct (map fst (map (\<lambda>h. (hd_name h, h)) (main_heads listen shutdown waits)))"
    using head_list_distinct by (simp add: comp_def main_heads_names)
  have "\<exists>r. put_all (\<lambda>_. register) (map (\<lambda>h. (hd_name h, h)) (main_heads listen shutdown waits)) new_registry = Inr r \<and>
      r = new_registry ++ map_of (map (\<lambda>h. (hd_name h, h)) (main_heads listen shutdown waits))"
    by (rule heads.put_all_ok [OF _ names]) (auto simp: new_registry_def)
  then show ?thesis by (simp add: register_heads_def new_registry_def)
qed

lemma main_registry:
  assumes "register_heads (main_heads listen shutdown waits) = Inr reg"
  shows "dom reg = set head_list" "reg ''gateway'' = Some (gateway_head listen shutdown)"
    "reg ''agent'' = Some (ok_head ''agent'' id (\<lambda>s. s\<lparr>co_runtime := runtime_stop (co_runtime s)\<rparr>) [])"
    "reg ''execution'' = Some (execution_head waits)"
    "reg ''memory'' = Some (ok_head ''memory'' id id [])"
    "reg ''policy'' = Some (ok_head ''policy'' (\<lambda>s. s\<lparr>co_policy := engine_start (co_policy s)\<rparr>) id
        ''policy engine operational'')"
proof -
  have reg: "reg = map_of (map (\<lambda>h. (hd_name h, h)) (main_heads listen shutdown waits))"
    using assms by (simp add: register_main_heads)
  show "dom reg = set head_list"
    using arg_cong [OF main_heads_names [of listen shutdown waits], of set]
    unfolding reg by (simp add: dom_map_of_conv_image_fst image_image)
qed (simp_all add: assms [unfolded register_main_heads, symmetric, simplified] main_heads_def head_defs)

lemma five_cases:
  assumes "n \<in> set [a, b, c, d, e]" obtains "n = a" | "n = b" | "n = c" | "n = d" | "n = e"
  using assms by auto

lemmas head_name_cases [consumes 1, case_names gateway agent execution memory policy] =
  five_cases [of _ "''gateway''" "''agent''" "''execution''" "''memory''" "''policy''", folded head_list_def]

text \<open>The state after the heads named \<open>ns\<close> have been started, or stopped.\<close>

definition started :: "string list \<Rightarrow> ('w, 's) core \<Rightarrow> ('w, 's) core" where
  "started ns s = s
     \<lparr>co_gateway := (if ''gateway'' \<in> set ns then (co_gateway s)\<lparr>gw_server := True, gw_running := True\<rparr>
                     else co_gateway s),
      co_exec := (if ''execution'' \<in> set ns then plane_start (co_exec s) else co_exec s),
      co_policy := (if ''policy'' \<in> set ns then engine_start (co_policy s) else co_policy s)\<rparr>"

definition halted :: "(plane \<Rightarrow> plane) \<Rightarrow> string list \<Rightarrow> ('w, 's) core \<Rightarrow> ('w, 's) core" where
  "halted waits ns s = s
     \<lparr>co_gateway := (if ''gateway'' \<in> set ns then (co_gateway s)\<lparr>gw_running := False\<rparr> else co_gateway s),
      co_runtime := (if ''agent'' \<in> set ns then runtime_stop (co_runtime s) else co_runtime s),
      co_exec := (if ''execution'' \<in> set ns then snd (plane_stop waits (co_exec s)) else co_exec s)\<rparr>"

lemma engine_start_idem [simp]: "engine_start (engine_start e) = engine_start e"
  by (simp add: engine_start_def default_roles_def fun_upd_twist)

lemma plane_start_idem [simp]: "plane_start (plane_start p) = plane_start p"
  by (simp add: plane_start_def)

lemma runtime_stop_idem [simp]: "runtime_stop (runtime_stop r) = runtime_stop r"
  by (simp add: runtime_stop_def)

lemma started_Cons: "started ns (started [n] s) = started (n # ns) s"
  by (simp add: started_def)

lemma listen_addr_started: "listen_addr (co_gateway (started ns s)) = listen_addr (co_gateway s)"
  by (simp add: started_def listen_addr_def)

lemma halted_Cons: "n \<notin> set ns \<Longrightarrow> halted waits ns (halted waits [n] s) = halted waits (n # ns) s"
  by (auto simp: halted_def)

lemma gw_server_halted [simp]: "gw_server (co_gateway (halted waits ns s)) = gw_server (co_gateway s)"
  by (simp add: halted_def)

lemma start_one:
  assumes "register_heads (main_heads listen shutdown waits) = Inr reg" "n \<in> set head_list"
    and "n = ''gateway'' \<Longrightarrow> listen (listen_addr (co_gateway s)) = Inr ()"
  shows "hd_start (the (reg n)) s = (Inr (), started [n] s)"
proof -
  note reg = main_registry [OF assms(1)]
  from assms(2) show ?thesis
  proof (cases rule: head_name_cases)
    case gateway
    with assms(3) show ?thesis by (simp add: reg gateway_head_def gateway_start_def started_def)
  qed (simp_all add: reg execution_head_def ok_head_def started_def)
qed

lemma stop_one:
  assumes "register_heads (main_heads listen shutdown waits) = Inr reg" "n \<in> set head_list"
    and "n = ''execution'' \<Longrightarrow> fst (plane_stop waits (co_exec s)) = Inr ()"
  shows "hd_stop (the (reg n)) s =
    (if n = ''gateway'' \<and> gw_server (co_gateway s) then shutdown else Inr (), halted waits [n] s)"
proof -
  note reg = main_registry [OF assms(1)]
  from assms(2) show ?thesis
  proof (cases rule: head_name_cases)
    case gateway
    then show ?thesis by (simp add: reg gateway_head_def gateway_stop_def halted_def)
  next
    case execution
    with assms(3) show ?thesis by (cases "plane_stop waits (co_exec s)") (simp add: reg execution_head_def halted_def)
  qed (simp_all add: reg ok_head_def halted_def)
qed

lemma health_one:
  assumes "register_heads (main_heads listen shutdown waits) = Inr reg" "n \<in> set head_list"
  shows "hr_status (hd_health (the (reg n)) s) =
    (if n = ''gateway'' \<and> \<not> gw_running (co_gateway s) then Unhealthy else Healthy)"
proof -
  note reg = main_registry [OF assms(1)]
  from assms(2) show ?thesis
  proof (cases rule: head_name_cases)
    case gateway
    then show ?thesis by (simp add: reg gateway_head_def gateway_health_def)
  qed (simp_all add: reg execution_head_def ok_head_def)
qed

lemma start_heads_ok:
  assumes "register_heads (main_heads listen shutdown waits) = Inr reg" "set ns \<subseteq> set head_list"
    and "listen (listen_addr (co_gateway s)) = Inr ()"
  shows "start_all ns reg s = (Inr (), started ns s)"
  using assms(2,3)
proof (induction ns arbitrary: s)
  case (Cons n ns)
  then have "hd_start (the (reg n)) s = (Inr (), started [n] s)" using start_one [OF assms(1)] by simp
  moreover have "start_all ns reg (started [n] s) = (Inr (), started (n # ns) s)"
    using Cons.IH [of "started [n] s"] Cons.prems by (simp add: listen_addr_started started_Cons)
  ultimately show ?case by (simp add: start_all_def list_heads_def)
qed (simp add: start_all_def list_heads_def started_def)

lemma start_heads_fail:
  assumes "register_heads (main_heads listen shutdown waits) = Inr reg"
    and "set ns \<subseteq> set head_list" "''gateway'' \<in> set ns"
    and "listen (listen_addr (co_gateway s)) = Inl e"
  shows "fst (start_all ns reg s) = Inl (Wrapf ''gateway listen: %w'' [] e)"
  using assms(2-)
proof (induction ns arbitrary: s)
  case (Cons n ns)
  show ?case
  proof (cases "n = ''gateway''")
    case True
    with Cons.prems(3) show ?thesis
      by (simp add: start_all_def list_heads_def main_registry [OF assms(1)] gateway_head_def gateway_start_def)
  next
    case False
    then have "hd_start (the (reg n)) s = (Inr (), started [n] s)"
      using start_one [OF assms(1)] Cons.prems(1) by simp
    moreover have "fst (start_all ns reg (started [n] s)) = Inl (Wrapf ''gateway listen: %w'' [] e)"
      using Cons.IH [of "started [n] s"] Cons.prems False by (simp add: listen_addr_started)
    ultimately show ?thesis by (simp add: start_all_def list_heads_def)
  qed
qed simp

lemma halted_exec: "''execution'' \<notin> set ns \<Longrightarrow> co_exec (halted waits ns s) = co_exec s"
  by (simp add: halted_def)

lemma stop_heads_all:
  assumes "register_heads (main_heads listen shutdown waits) = Inr reg"
    and "distinct ns" "set ns \<subseteq> set head_list"
    and "''execution'' \<in> set ns \<Longrightarrow> fst (plane_stop waits (co_exec s)) = Inr ()"
  shows "stop_heads (list_heads ns reg) s errs =
    (errs @ (if ''gateway'' \<in> set ns \<and> gw_server (co_gateway s)
             then (case shutdown of Inl e \<Rightarrow> [e] | Inr _ \<Rightarrow> []) else []), halted waits ns s)"
  using assms(2-)
proof (induction ns arbitrary: s errs)
  case (Cons n ns)
  define fails where "fails = (case shutdown of Inl e \<Rightarrow> [e] | Inr _ \<Rightarrow> [])"
  have one: "hd_stop (the (reg n)) s =
      (if n = ''gateway'' \<and> gw_server (co_gateway s) then shutdown else Inr (), halted waits [n] s)"
    using stop_one [OF assms(1)] Cons.prems by simp
  have n: "n \<notin> set ns" using Cons.prems by simp
  have exec: "fst (plane_stop waits (co_exec (halted waits [n] s))) = Inr ()" if "''execution'' \<in> set ns"
  proof -
    have "co_exec (halted waits [n] s) = co_exec s" by (rule halted_exec) (use n that in auto)
    with Cons.prems(3) that show ?thesis by simp
  qed
  have IH: "stop_heads (list_heads ns reg) (halted waits [n] s) es =
      (es @ (if ''gateway'' \<in> set ns \<and> gw_server (co_gateway s) then fails else []), halted waits (n # ns) s)" for es
    using Cons.IH [of "halted waits [n] s" es] Cons.prems exec by (simp add: halted_Cons fails_def)
  show ?case
  proof (cases "n = ''gateway'' \<and> gw_server (co_gateway s)")
    case True
    with one IH n show ?thesis by (cases shutdown) (simp_all add: list_heads_def fails_def)
  next
    case False
    with one IH show ?thesis by (auto simp: list_heads_def fails_def)
  qed
qed (simp add: list_heads_def halted_def)

section \<open>Wiring\<close>

definition actions :: "string list" where
  "actions = [''health'', ''memory.search'', ''memory.store'', ''task'', ''chat'']"

definition tool_names :: "string list" where
  "tool_names = [''http_request'', ''memory_write'', ''memory_search'', ''tdb_search'']"

lemma distinct_tool_names: "distinct tool_names"
  by (simp add: tool_names_def)

lemma main_tools_names:
  "map tl_name (main_tools he c) = tool_names"
  by (simp add: main_tools_def tool_on_def http_request_tool_def memory_write_tool_def memory_search_tool_def
      tdb_search_tool_def tool_names_def Let_def)

lemma register_main_tools:
  "\<exists>rt. register_tools (main_tools he c) new_runtime = Inr rt \<and>
     rt_tools rt = map_of (map (\<lambda>t. (tl_name t, t)) (main_tools he c)) \<and>
     dom (rt_tools rt) = set tool_names"
proof -
  let ?kvs = "map (\<lambda>t. (tl_name t, t)) (main_tools he c)"
  have fst: "map fst ?kvs = tool_names"
    by (simp add: comp_def main_tools_names)
  then have dist: "distinct (map fst ?kvs)" by (simp only: distinct_tool_names)
  have "\<exists>rt. put_all (\<lambda>_. register_tool) ?kvs new_runtime = Inr rt \<and> rt_tools rt = rt_tools new_runtime ++ map_of ?kvs"
    by (rule rt_tools.put_all_ok [OF _ dist]) (auto simp: new_runtime_def new_tool_registry_def)
  then obtain rt where rt: "register_tools (main_tools he c) new_runtime = Inr rt" "rt_tools rt = map_of ?kvs"
    by (auto simp: register_tools_def new_runtime_def new_tool_registry_def)
  moreover have "dom (map_of ?kvs) = set (map fst ?kvs)" by (simp add: dom_map_of_conv_image_fst image_image)
  ultimately show ?thesis unfolding fst by auto
qed

definition config_addr :: "config \<Rightarrow> string" where
  "config_addr c = sprintf ''%s:%d'' [FStr (gc_host (cfg_gateway c)), FInt (sint (gc_port (cfg_gateway c)))]"

lemma register_handlers_dom:
  "dom (gw_routes (register_handlers ff ft mp se reg (new_gateway host port))) =
     set actions"
  by (simp add: register_handlers_def register_handler_def new_gateway_def actions_def)

lemma wire_ok:
  "\<exists>hy. wire he n c = Inr hy \<and> hy_config hy = c \<and>
     register_heads (main_heads (he_listen he) (he_shutdown he) (he_waits he)) = Inr (hy_heads hy) \<and>
     (\<forall>se. dom (gw_routes (hy_gateway hy se)) = set actions) \<and>
     dom (rt_tools (co_runtime (hy_core hy))) = set tool_names \<and>
     listen_addr (co_gateway (hy_core hy)) = config_addr c \<and> co_policy (hy_core hy) = new_engine \<and>
     co_bus (hy_core hy) = new_bus \<and> co_exec (hy_core hy) = new_plane (he_jobs he) (he_now he)"
proof -
  obtain rt where "register_tools (main_tools he c) new_runtime = Inr rt"
    "dom (rt_tools rt) = set tool_names"
    using register_main_tools by blast
  then show ?thesis
    by (simp only: wire_def register_main_heads Let_def sum.case hydra.simps core.simps register_handlers_dom)
      (simp add: listen_addr_def config_addr_def register_handlers_dom)
qed

lemma healthy_main:
  assumes "register_heads (main_heads listen shutdown waits) = Inr reg" "set order = set head_list"
  shows "is_healthy order reg s \<longleftrightarrow> gw_running (co_gateway s)"
proof -
  have "is_healthy order reg s \<longleftrightarrow> (\<forall>n \<in> set order. hr_status (hd_health (the (reg n)) s) = Healthy)"
    by (simp add: is_healthy_def all_healthy_iff health_all_def list_heads_def)
  also have "\<dots> \<longleftrightarrow> (\<forall>n \<in> set head_list. n = ''gateway'' \<longrightarrow> gw_running (co_gateway s))"
    using health_one [OF assms(1)] by (auto simp: assms(2))
  also have "\<dots> \<longleftrightarrow> gw_running (co_gateway s)" by (simp add: head_list_def)
  finally show ?thesis .
qed

text \<open>
  A process that is ready to serve: the five heads are registered and healthy, the five
  actions have a handler, the four tools are registered, the default roles are in force and
  the job worker runs.
\<close>

definition ready :: "string list \<Rightarrow> 'n hydra \<Rightarrow> bool" where
  "ready order hy \<longleftrightarrow>
     dom (hy_heads hy) = set head_list \<and> is_healthy order (hy_heads hy) (hy_core hy) \<and>
     (\<forall>se. dom (gw_routes (hy_gateway hy se)) = set actions) \<and>
     dom (rt_tools (co_runtime (hy_core hy))) = set tool_names \<and>
     co_policy (hy_core hy) = engine_start new_engine \<and> pl_worker (co_exec (hy_core hy)) = W_Loop"

lemma start_cases:
  fixes he :: "'n host_env"
  assumes "set order = set head_list" and c: "c = choose_config loaded"
  shows "hydra_start he order n loaded =
      (case config_validate c of Inl e \<Rightarrow> Inl e
       | Inr _ \<Rightarrow> (case he_listen he (config_addr c) of
           Inl e \<Rightarrow> Inl (Wrapf ''gateway listen: %w'' [] e)
         | Inr _ \<Rightarrow> Inr ((projr (wire he n c))\<lparr>hy_core := started order (hy_core (projr (wire he n c)))\<rparr>)))"
    and "hy_config (projr (wire he n c)) = c"
    and "ready order ((projr (wire he n c))\<lparr>hy_core := started order (hy_core (projr (wire he n c)))\<rparr>)"
proof -
  from wire_ok [of he n c] obtain hy where hy: "wire he n c = Inr hy" "hy_config hy = c"
    "register_heads (main_heads (he_listen he) (he_shutdown he) (he_waits he)) = Inr (hy_heads hy)"
    "\<forall>se. dom (gw_routes (hy_gateway hy se)) = set actions"
    "dom (rt_tools (co_runtime (hy_core hy))) = set tool_names"
    "listen_addr (co_gateway (hy_core hy)) = config_addr c" "co_policy (hy_core hy) = new_engine" by blast
  have sub: "set order \<subseteq> set head_list" and gw: "''gateway'' \<in> set order"
    and ex: "''execution'' \<in> set order" and po: "''policy'' \<in> set order"
    using assms(1) by (simp_all add: head_list_def)
  show "hy_config (projr (wire he n c)) = c" using hy(1,2) by simp
  show "hydra_start he order n loaded =
      (case config_validate c of Inl e \<Rightarrow> Inl e
       | Inr _ \<Rightarrow> (case he_listen he (config_addr c) of
           Inl e \<Rightarrow> Inl (Wrapf ''gateway listen: %w'' [] e)
         | Inr _ \<Rightarrow> Inr ((projr (wire he n c))\<lparr>hy_core := started order (hy_core (projr (wire he n c)))\<rparr>)))"
  proof (cases "he_listen he (config_addr c)")
    case (Inl e)
    with start_heads_fail [OF hy(3) sub gw, of "hy_core hy" e] hy(1,6) show ?thesis
      by (cases "start_all order (hy_heads hy) (hy_core hy)") (simp add: hydra_start_def split: sum.split flip: c)
  next
    case (Inr u)
    with start_heads_ok [OF hy(3) sub, of "hy_core hy"] hy(1,6) show ?thesis
      by (simp add: hydra_start_def split: sum.split flip: c)
  qed
  have "is_healthy order (hy_heads hy) (started order (hy_core hy))"
    unfolding healthy_main [OF hy(3) assms(1)] by (simp add: started_def gw)
  with hy(4,5,7) main_registry(1) [OF hy(3)]
  show "ready order ((projr (wire he n c))\<lparr>hy_core := started order (hy_core (projr (wire he n c)))\<rparr>)"
    unfolding ready_def hy(1) sum.sel started_def plane_start_def by (simp add: ex po)
qed

text \<open>
  C16. Starting succeeds exactly when the configuration in use, the defaults when loading
  failed, is a legal one and its address can be bound, in whatever order the heads are
  started. Then the process is ready to serve; otherwise it ends with the error of the
  validation or of the listener.
\<close>

theorem hydra_start_iff:
  assumes "set order = set head_list" "c = choose_config loaded"
  shows "((\<exists>hy. hydra_start he order n loaded = Inr hy) \<longleftrightarrow>
       legal_config c \<and> he_listen he (config_addr c) = Inr ()) \<and>
    (case hydra_start he order n loaded of
       Inr hy \<Rightarrow> hy_config hy = c \<and> ready order hy
     | Inl e \<Rightarrow> config_validate c = Inl e \<or>
         (\<exists>e'. he_listen he (config_addr c) = Inl e' \<and> e = Wrapf ''gateway listen: %w'' [] e')) \<and>
    (case loaded of Inl _ \<Rightarrow> c = default_config \<and> legal_config c | Inr _ \<Rightarrow> True)"
proof (intro conjI)
  show "case loaded of Inl _ \<Rightarrow> c = default_config \<and> legal_config c | Inr _ \<Rightarrow> True"
    using assms(2) by (simp add: choose_config_def legal_default split: sum.split)
  note start = start_cases [OF assms, of he n]
  show "(\<exists>hy. hydra_start he order n loaded = Inr hy) \<longleftrightarrow> legal_config c \<and> he_listen he (config_addr c) = Inr ()"
    unfolding start(1) validate_legal [symmetric] by (auto split: sum.split)
  show "case hydra_start he order n loaded of
       Inr hy \<Rightarrow> hy_config hy = c \<and> ready order hy
     | Inl e \<Rightarrow> config_validate c = Inl e \<or>
         (\<exists>e'. he_listen he (config_addr c) = Inl e' \<and> e = Wrapf ''gateway listen: %w'' [] e')"
    unfolding start(1) using start(2,3) by (simp split: sum.split)
qed

text \<open>An idle plane whose goroutines see the cancellation.\<close>

definition idle_waits :: "plane \<Rightarrow> plane" where
  "idle_waits p = ticker_quit (worker_top p)"

definition demo_host :: "unit result \<Rightarrow> nat host_env" where
  "demo_host r = \<lparr>he_ff32 = \<lambda>_. [], he_ff = \<lambda>_. [], he_ft = \<lambda>_. [],
     he_net = \<lparr>nt_request = \<lambda>_ _. Inr (), nt_do = \<lambda>_ n. (Inl CtxDeadline, Suc n)\<rparr>,
     he_header_order = id, he_uuid = [], he_now = 1, he_keys = [], he_jobs = \<lambda>_. new_job [] 1 [] [] [],
     he_listen = \<lambda>_. r, he_shutdown = Inr (), he_waits = idle_waits\<rparr>"

theorem hydra_start_iff_witness:
  "(\<exists>hy. hydra_start (demo_host (Inr ())) head_list 0 (Inl CtxDeadline) = Inr hy \<and>
      hy_config hy = default_config \<and> ready head_list hy) \<and>
   hydra_start (demo_host (Inl CtxCanceled)) head_list 0 (Inl CtxDeadline) =
     Inl (Wrapf ''gateway listen: %w'' [] CtxCanceled)"
proof -
  have c: "default_config = choose_config (Inl CtxDeadline)" by (simp add: choose_config_def)
  note up = hydra_start_iff [OF HOL.refl c, of "demo_host (Inr ())" 0]
    and down = hydra_start_iff [OF HOL.refl c, of "demo_host (Inl CtxCanceled)" 0]
  have listen: "he_listen (demo_host r) = (\<lambda>_. r)" for r by (simp add: demo_host_def)
  have legal: "config_validate default_config = Inr ()" using validate_legal legal_default by blast
  from up legal_default listen obtain hy where hy: "hydra_start (demo_host (Inr ())) head_list 0 (Inl CtxDeadline) = Inr hy"
    by auto
  from down listen obtain e where e: "hydra_start (demo_host (Inl CtxCanceled)) head_list 0 (Inl CtxDeadline) = Inl e"
    by (cases "hydra_start (demo_host (Inl CtxCanceled)) head_list 0 (Inl CtxDeadline)") auto
  from up hy down e listen legal show ?thesis by auto
qed

text \<open>
  C38. Shutting a ready process down, whatever the handlers have done to its state in the
  meantime, stops every head in any order and closes the bus without a panic, provided the
  goroutines of the execution plane end after the cancellation. Afterwards the process is
  unhealthy and nothing can be published; the context of every agent whose cancel function was
  registered is cancelled; worker and scheduler have ended, the queue is closed and no job was
  lost but by a drop of its own. The only error is that of the HTTP server's shutdown.
\<close>

theorem hydra_stop_effect:
  assumes "hydra_start he order0 n loaded = Inr hy0" "set order0 = set head_list"
    and "gw_server (co_gateway w)" "bus_reach (co_bus w)" "key_order (bus_subs (co_bus w)) tys"
    and "distinct order" "set order = set head_list"
    and "reach (co_exec w)" "loops_end (stop_cancel (co_exec w)) evs (he_waits he (stop_cancel (co_exec w)))"
    and "hydra_stop order tys (hy0\<lparr>hy_core := w\<rparr>) = (res, bus_res, hy)"
  shows "bus_res = Inr () \<and> (\<forall>ev. publish ev (co_bus (hy_core hy)) = (Inl err_bus_closed, co_bus (hy_core hy))) \<and>
    res = (case he_shutdown he of Inl e \<Rightarrow> Inl (Manyf ''stop errors: %v'' [e]) | Inr _ \<Rightarrow> Inr ()) \<and>
    \<not> is_healthy order (hy_heads hy) (hy_core hy) \<and>
    rt_contexts (co_runtime (hy_core hy)) = rt_contexts (co_runtime w) - rt_cancels (co_runtime w) \<and>
    rt_cancels (co_runtime (hy_core hy)) = {} \<and>
    pl_worker (co_exec (hy_core hy)) = W_Exited \<and> pl_ticker (co_exec (hy_core hy)) = T_Exited \<and>
    mq_closed (pl_queue (co_exec (hy_core hy))) \<and>
    mset (tracked (co_exec (hy_core hy))) + mset (concat (map departures evs)) = mset (tracked (co_exec w))"
proof -
  from wire_ok [of he n "choose_config loaded"] obtain hy1 where hy1: "wire he n (choose_config loaded) = Inr hy1"
    "register_heads (main_heads (he_listen he) (he_shutdown he) (he_waits he)) = Inr (hy_heads hy1)" by blast
  have "hy_heads hy0 = hy_heads hy1"
    using assms(1) hy1(1) by (auto simp: hydra_start_def Let_def split: sum.splits prod.splits)
  with hy1(2) have reg: "register_heads (main_heads (he_listen he) (he_shutdown he) (he_waits he)) = Inr (hy_heads hy0)"
    by simp
  have mem: "''gateway'' \<in> set order" "''agent'' \<in> set order" "''execution'' \<in> set order"
    using assms(7) by (simp_all add: head_list_def)
  obtain pres p where ps: "plane_stop (he_waits he) (co_exec w) = (pres, p)" by force
  note ends = plane_stop_ends [OF assms(8,9) ps]
  let ?w = "halted (he_waits he) order w"
  have stop: "stop_all order (hy_heads hy0) w =
      (case he_shutdown he of Inl e \<Rightarrow> Inl (Manyf ''stop errors: %v'' [e]) | Inr _ \<Rightarrow> Inr (), ?w)"
    using stop_heads_all [OF reg assms(6), of w "[]"] assms(3,7) mem(1) ps ends
    by (simp add: stop_all_def split: sum.split)
  have "co_bus ?w = co_bus w" by (simp add: halted_def)
  moreover from bus_close_ok [OF bus_reach_inv [OF assms(4)] assms(5)] obtain b where
    b: "bus_close tys (co_bus w) = (Inr (), b)" "bus_closed b" by blast
  ultimately have out: "res = (case he_shutdown he of Inl e \<Rightarrow> Inl (Manyf ''stop errors: %v'' [e]) | Inr _ \<Rightarrow> Inr ())"
    "bus_res = Inr ()" "hy = hy0\<lparr>hy_core := ?w\<lparr>co_bus := b\<rparr>\<rparr>"
    using assms(10) stop by (simp_all add: hydra_stop_def)
  have "\<not> is_healthy order (hy_heads hy0) (?w\<lparr>co_bus := b\<rparr>)"
    unfolding healthy_main [OF reg assms(7)] by (simp add: halted_def mem)
  with out b(2) ends show ?thesis
    by (simp add: publish_def halted_def mem runtime_stop_def ps)
qed

lemma idle_waits:
  assumes "reach p" "pl_worker p = W_Loop" "pl_ticker p = T_Flush []"
  shows "loops_end (stop_cancel p) [Ev_Tau, Ev_Tau] (idle_waits (stop_cancel p))"
proof -
  let ?q = "stop_cancel p"
  have top: "worker_top ?q = ?q\<lparr>pl_worker := W_Exited\<rparr>" using assms(2) by (simp add: worker_top_def stop_cancel_def)
  have "plane_step ?q Ev_Tau (worker_top ?q)"
    by (rule plane_step.top) (simp add: stop_cancel_def assms(2))
  moreover have "plane_step (worker_top ?q) Ev_Tau (idle_waits ?q)"
    unfolding idle_waits_def by (rule plane_step.tquit) (simp_all add: top, simp_all add: stop_cancel_def assms(2,3))
  ultimately have "plane_run ?q [Ev_Tau, Ev_Tau] (idle_waits ?q)"
    using plane_run.snoc [OF plane_run.snoc [OF plane_run.refl]] by fastforce
  then show ?thesis by (simp add: loops_end_def idle_waits_def ticker_quit_def top)
qed

theorem hydra_stop_effect_witness:
  "\<exists>hy0 hy. hydra_start (demo_host (Inr ())) head_list 0 (Inl CtxDeadline) = Inr hy0 \<and>
     hydra_stop head_list [] hy0 = (Inr (), Inr (), hy) \<and> \<not> is_healthy head_list (hy_heads hy) (hy_core hy) \<and>
     pl_worker (co_exec (hy_core hy)) = W_Exited"
proof -
  let ?h = "demo_host (Inr ())"
  have c: "default_config = choose_config (Inl CtxDeadline)" by (simp add: choose_config_def)
  note start = start_cases [OF HOL.refl c, of ?h 0]
  let ?hy1 = "projr (wire ?h 0 default_config)"
  let ?w = "started head_list (hy_core ?hy1)"
  have "config_validate default_config = Inr ()" using validate_legal legal_default by blast
  then have run: "hydra_start ?h head_list 0 (Inl CtxDeadline) = Inr (?hy1\<lparr>hy_core := ?w\<rparr>)"
    using start(1) by (simp add: demo_host_def)
  have w: "co_bus ?w = new_bus" "co_exec ?w = plane_start (new_plane (\<lambda>_. new_job [] 1 [] [] []) 1)"
    using wire_ok [of ?h 0 default_config] by (auto simp: started_def head_list_def demo_host_def)
  then have "bus_reach (co_bus ?w)" "key_order (bus_subs (co_bus ?w)) []"
    by (simp_all add: bus_reach.init, simp add: new_bus_def)
  moreover have env: "he_waits ?h = idle_waits" "he_shutdown ?h = Inr ()" by (simp_all add: demo_host_def)
  moreover have "gw_server (co_gateway ?w)" by (simp add: started_def head_list_def)
  moreover have reach: "reach (co_exec ?w)" unfolding w(2)
    by (rule reach.step [OF reach.init plane_step.start]) (simp_all add: new_plane_def)
  moreover have "loops_end (stop_cancel (co_exec ?w)) [Ev_Tau, Ev_Tau] (he_waits ?h (stop_cancel (co_exec ?w)))"
    unfolding env by (rule idle_waits [OF reach]) (simp_all add: w(2) plane_start_def new_plane_def)
  moreover obtain res bus_res hy where out: "hydra_stop head_list [] (?hy1\<lparr>hy_core := ?w\<rparr>) = (res, bus_res, hy)"
    by (metis surj_pair)
  ultimately have "bus_res = Inr ()" "res = Inr ()" "\<not> is_healthy head_list (hy_heads hy) (hy_core hy)"
    "pl_worker (co_exec (hy_core hy)) = W_Exited"
    using hydra_stop_effect [OF run HOL.refl, where w = ?w and order = head_list and tys = "[]" and evs = "[Ev_Tau, Ev_Tau]"]
      head_list_distinct by simp_all
  with run out show ?thesis by blast
qed

end
