(* ===== verification/Json_Reparse.thy ===== *)
theory Json_Reparse
  imports Json
begin

text \<open>
  What the JSON parser accepts is a value that can be printed: a text that was decoded once
  can be encoded again, and decodes to the same value.
\<close>

section \<open>Numbers\<close>

text \<open>Each part of a number ends where it did, whatever follows it that cannot extend it.\<close>

definition stops :: "string \<Rightarrow> bool" where
  "stops r \<longleftrightarrow> r = [] \<or> \<not> digit (hd r)"

lemma digits_stop: "digits s = Some (d, t) \<Longrightarrow> stops r \<Longrightarrow> digits (d @ r) = Some (d, r)"
proof -
  assume d: "digits s = Some (d, t)" and r: "stops r"
  have all: "\<forall>c \<in> set d. digit c" "d \<noteq> []"
    using d by (auto simp: digits_def split: if_splits dest: set_takeWhileD)
  have "takeWhile digit r = []" "dropWhile digit r = r"
    using r by (cases r; simp add: stops_def)+
  then have "takeWhile digit (d @ r) = d" "dropWhile digit (d @ r) = r"
    using all by (simp_all add: takeWhile_append dropWhile_append takeWhile_eq_all_conv dropWhile_eq_Nil_conv)
  with all show "digits (d @ r) = Some (d, r)" by (simp add: digits_def)
qed

lemma digits_head: "digits s = Some (d, t) \<Longrightarrow> d \<noteq> [] \<and> digit (hd d)"
  by (cases s) (auto simp: digits_def split: if_splits)

lemma p_sign_stop: "p_sign s = (g, t) \<Longrightarrow> p_int t = Some (i, u) \<Longrightarrow> p_sign (g @ i @ r) = (g, i @ r)"
proof (cases s)
  case (Cons c s')
  assume "p_sign s = (g, t)" "p_int t = Some (i, u)"
  with Cons show ?thesis
    by (cases i) (auto simp: digits_def digit_def split: if_splits elim: p_int.elims)
qed simp

lemma p_int_stop: "p_int s = Some (i, t) \<Longrightarrow> stops r \<Longrightarrow> p_int (i @ r) = Some (i, r)"
proof (cases s)
  case (Cons c s')
  assume i: "p_int s = Some (i, t)" and r: "stops r"
  show ?thesis
  proof (cases "c = CHR ''0''")
    case True
    with i Cons have "i = [c]" by simp
    with True show ?thesis by simp
  next
    case False
    with i Cons have d: "digits (c # s') = Some (i, t)" by simp
    then obtain i' where "i = c # i'" by (auto simp: digits_def split: if_splits)
    with digits_stop [OF d r] False show ?thesis by simp
  qed
qed simp

text \<open>What may follow a fraction, and an exponent.\<close>

definition exp_start :: "string \<Rightarrow> bool" where
  "exp_start r \<longleftrightarrow> r = [] \<or> hd r \<in> {CHR ''e'', CHR ''E''}"

lemma exp_start_stops: "exp_start r \<Longrightarrow> stops r" "exp_start r \<Longrightarrow> r = [] \<or> hd r \<noteq> CHR ''.''"
  by (auto simp: exp_start_def stops_def digit_def)

lemma p_exp_start: "p_exp s = Some (e, t) \<Longrightarrow> exp_start e"
  by (cases s) (auto simp: exp_start_def split: if_splits prod.splits)

lemma p_frac_start: "p_frac s = Some (f, t) \<Longrightarrow> f = [] \<or> hd f = CHR ''.''"
  by (cases s) (auto split: if_splits)

lemma p_frac_stop: "p_frac s = Some (f, t) \<Longrightarrow> exp_start r \<Longrightarrow> p_frac (f @ r) = Some (f, r)"
proof (cases s)
  case Nil
  assume "p_frac s = Some (f, t)" "exp_start r"
  with Nil exp_start_stops(2) [of r] show ?thesis by (cases r) auto
next
  case (Cons c s')
  assume f: "p_frac s = Some (f, t)" and r: "exp_start r"
  show ?thesis
  proof (cases "c = CHR ''.''")
    case True
    with f Cons obtain d where d: "digits s' = Some (d, t)" "f = c # d" by auto
    with True digits_stop [OF d(1) exp_start_stops(1) [OF r]] show ?thesis by simp
  next
    case False
    with f Cons exp_start_stops(2) [OF r] show ?thesis by (cases r) auto
  qed
qed

lemma p_exp_sign_stop: "p_exp_sign s = (g, t) \<Longrightarrow> digits t = Some (d, u) \<Longrightarrow> p_exp_sign (g @ d) = (g, d)"
proof (cases s)
  case (Cons c s')
  assume "p_exp_sign s = (g, t)" "digits t = Some (d, u)"
  with Cons digits_head [of t d u] show ?thesis by (cases d) (auto simp: digit_def split: if_splits)
qed (simp add: digits_def)

lemma p_exp_stop: "p_exp s = Some (e, t) \<Longrightarrow> p_exp e = Some (e, [])"
proof (cases s)
  case (Cons c s')
  assume e: "p_exp s = Some (e, t)"
  show ?thesis
  proof (cases "c \<in> {CHR ''e'', CHR ''E''}")
    case True
    obtain g u where g: "p_exp_sign s' = (g, u)" by force
    with e True Cons obtain d where d: "digits u = Some (d, t)" "e = c # g @ d" by auto
    have "digits d = Some (d, [])" using digits_stop [OF d(1), of "[]"] by (simp add: stops_def)
    with p_exp_sign_stop [OF g d(1)] d(2) True show ?thesis by auto
  next
    case False
    with e Cons show ?thesis by simp
  qed
qed simp

lemma p_number_ok:
  assumes "p_number s = Some (t, r)" shows "num_ok t"
proof -
  obtain g s1 where g: "p_sign s = (g, s1)" by force
  with assms obtain i s2 where i: "p_int s1 = Some (i, s2)" by (auto simp: p_number_def split: option.splits)
  with assms g obtain f s3 where f: "p_frac s2 = Some (f, s3)" by (auto simp: p_number_def split: option.splits)
  with assms g i obtain e s4 where e: "p_exp s3 = Some (e, s4)" by (auto simp: p_number_def split: option.splits)
  have t: "t = g @ i @ f @ e" using assms g i f e by (simp add: p_number_def)
  have "stops (f @ e)"
    using p_frac_start [OF f] exp_start_stops(1) [OF p_exp_start [OF e]]
    by (cases f) (auto simp: stops_def digit_def)
  then show ?thesis
    using p_sign_stop [OF g i, of "f @ e"] p_int_stop [OF i, of "f @ e"] p_frac_stop [OF f p_exp_start [OF e]]
      p_exp_stop [OF e]
    by (simp add: t num_ok_def p_number_def)
qed

section \<open>Values\<close>

lemma p_lit_value: "p_lit cs v s = Some (w, r) \<Longrightarrow> w = v"
  by (induction cs v s rule: p_lit.induct) (auto split: if_splits)

lemma p_val_ok:
  "p_val n s = Some (v, r) \<Longrightarrow> json_ok v"
  "p_elems n s = Some (vs, r) \<Longrightarrow> \<forall>v \<in> set vs. json_ok v"
  "p_members n s = Some (kvs, r) \<Longrightarrow> \<forall>kv \<in> set kvs. json_ok (snd kv)"
proof (induction n s and n s and n s arbitrary: v r and vs r and kvs r rule: p_val_p_elems_p_members.induct)
  case (2 n s)
  then show ?case
    by (auto split: list.splits if_splits simp: p_number_ok dest!: p_lit_value)
next
  case (4 n s)
  then show ?case by (fastforce split: option.splits list.splits if_splits)
next
  case (6 n s)
  then show ?case by (fastforce split: option.splits list.splits if_splits)
qed simp_all

lemma parse_ok: "parse s = Some v \<Longrightarrow> json_ok v"
  by (auto simp: parse_def simp del: p_val.simps dest: p_val_ok(1) split: option.splits if_splits)

theorem reparse: "parse s = Some v \<Longrightarrow> parse (print v) = Some v"
  by (intro parse_print parse_ok)

end
