(* ===== verification/Wire.thy ===== *)
theory Wire
  imports Handlers Json_Reparse
begin

text \<open>
  An envelope on the wire: how the JSON that the gateway writes is read back into a struct
  with the field tags of \<open>Envelope\<close>, \<open>Identity\<close> and \<open>Tenant\<close> (\<open>internal/body/envelope.go\<close>),
  as \<open>decodeEnvelope\<close> in \<open>tests/integration/helpers.go\<close> does. \<open>rt\<close> reads a time stamp.
\<close>

section \<open>Valid UTF-8\<close>

text \<open>
  Go's encoder and decoder write U+FFFD for bytes that are not UTF-8, where \<open>print\<close> and
  \<open>parse\<close> pass every byte from 128 on through. They agree on valid strings: those that are the
  encoding of the runes they are read as.
\<close>

definition utf8_ok :: "string \<Rightarrow> bool" where
  "utf8_ok s \<longleftrightarrow> concat (map utf8 (runes s)) = s"

lemma utf8_ok_ascii: "ascii s \<Longrightarrow> utf8_ok s"
  unfolding utf8_ok_def ascii_def by (induction s) (simp_all add: runes_def utf8_def)

text \<open>The strings of an envelope that are written as JSON strings; the payload is copied.\<close>

definition env_strings :: "(time \<Rightarrow> string) \<Rightarrow> meta_heap \<Rightarrow> string list \<Rightarrow> envelope \<Rightarrow> string list" where
  "env_strings ft h ks e =
     [env_id e, env_trace e, actor_id (env_actor e), actor_kind (env_actor e), actor_tenant (env_actor e),
      tenant_id (env_tenant e), tenant_name (env_tenant e), env_type e, env_action e, ft (env_time e)] @
     actor_roles (env_actor e) @ ks @ map (map_get [] (meta_read h (env_meta e))) ks"

section \<open>Decoding\<close>

definition dec_time :: "(string \<Rightarrow> time option) \<Rightarrow> time decoder" where
  "dec_time rt v x =
     (case parse v of
        Some (JStr s) \<Rightarrow> (case rt s of Some t \<Rightarrow> Inr t | None \<Rightarrow> Inl err_json)
      | Some JNull \<Rightarrow> Inr x
      | _ \<Rightarrow> Inl err_json)"

text \<open>A map field: \<open>null\<close> is the nil map, an object adds its entries to the map that is there.\<close>

definition dec_meta :: "meta_map option decoder" where
  "dec_meta v x =
     (case parse v of
        Some JNull \<Rightarrow> Inr None
      | Some (JObj kvs) \<Rightarrow>
          map_sum id (\<lambda>fs. Some ((case x of Some m \<Rightarrow> m | None \<Rightarrow> Map.empty) ++ map_of (rev fs)))
            (string_fields kvs)
      | _ \<Rightarrow> Inl err_json)"

definition place_meta :: "meta_map option \<Rightarrow> meta_heap \<Rightarrow> ref option \<times> meta_heap" where
  "place_meta m h =
     (case m of None \<Rightarrow> (None, h) | Some mm \<Rightarrow> map_prod Some id (meta_alloc mm h))"

definition decode_envelope :: "(string \<Rightarrow> time option) \<Rightarrow> raw \<Rightarrow> meta_heap \<Rightarrow> (envelope \<times> meta_heap) result" where
  "decode_envelope rt p h =
     bind (obj_fields p) (\<lambda>fs.
     bind (dec_field ''id'' dec_string fs []) (\<lambda>i.
     bind (dec_field ''trace_id'' dec_string fs []) (\<lambda>tr.
     bind (dec_field ''actor'' dec_identity fs no_actor) (\<lambda>a.
     bind (dec_field ''tenant'' dec_tenant fs no_tenant) (\<lambda>te.
     bind (dec_field ''type'' dec_string fs []) (\<lambda>ty.
     bind (dec_field ''action'' dec_string fs []) (\<lambda>ac.
     bind (dec_field ''payload'' dec_raw fs []) (\<lambda>pl.
     bind (dec_field ''metadata'' dec_meta fs None) (\<lambda>m.
     bind (dec_field ''timestamp'' (dec_time rt) fs zero_time) (\<lambda>t.
       let (r, h') = place_meta m h
       in Inr (\<lparr>env_id = i, env_trace = tr, env_actor = a, env_tenant = te, env_type = ty, env_action = ac,
                env_payload = pl, env_meta = r, env_time = t\<rparr>, h')))))))))))"

section \<open>Lemmas\<close>

lemma obj_fields_line:
  assumes "\<forall>kv \<in> set kvs. json_ok (snd kv)"
  shows "obj_fields (print (JObj kvs) @ [CHR 0x0A]) = Inr (map (\<lambda>(k, v). (k, print v)) kvs)"
proof (cases kvs)
  case Nil
  with parse_line [of "JObj []"] show ?thesis by (simp add: obj_fields_def)
next
  case (Cons kv kvs')
  have ok: "json_ok (JObj kvs)" using assms by simp
  have "needf kvs \<le> 2 * length (print (JObj kvs) @ [CHR 0x0A]) + 1" using need_le(1) [OF ok] by simp
  with p_slices_print [OF _ assms this, of "[CHR 0x0A]"] Cons parse_line [OF ok]
  show ?thesis by (simp add: obj_fields_def)
qed

declare print.simps [simp del]

lemma payload_json_ok: "payload_json p = Inr j \<Longrightarrow> json_ok j \<and> parse (print j) = (if p = [] then Some JNull else parse p)"
  using parse_ok [of p j] reparse [of p j] parse_print [of JNull]
  by (auto simp: payload_json_def simp del: print.simps split: if_splits option.splits)

lemma identity_json_ok [simp]: "json_ok (identity_json a)"
  by (simp add: identity_json_def)

lemma tenant_json_ok [simp]: "json_ok (tenant_json t)"
  by (simp add: tenant_json_def)

lemma map_json_ok [simp]: "json_ok (map_json m ks)"
  by (simp add: map_json_def)

lemma dec_identity_json [simp]: "dec_identity (print (identity_json a)) no_actor = Inr a"
  unfolding dec_identity_def identity_json_def
  by (subst obj_fields_print) (simp_all add: field_names no_actor_def)

lemma dec_tenant_json [simp]: "dec_tenant (print (tenant_json t)) no_tenant = Inr t"
  unfolding dec_tenant_def tenant_json_def
  by (subst obj_fields_print) (simp_all add: field_names no_tenant_def)

lemma string_fields_strings: "string_fields (map (\<lambda>k. (k, JStr (f k))) ks) = Inr (map (\<lambda>k. (k, f k)) ks)"
  by (induction ks) simp_all

lemma map_of_key_order:
  assumes "key_order m ks"
  shows "map_of (rev (map (\<lambda>k. (k, map_get [] m k)) (sort ks))) = m"
proof -
  have rev: "rev (map (\<lambda>k. (k, map_get [] m k)) (sort ks)) = map (\<lambda>k. (k, map_get [] m k)) (rev (sort ks))"
    by (simp add: rev_map)
  show ?thesis unfolding rev
    using assms by (auto simp: key_order_def map_of_map_restrict restrict_map_def map_get_def
        fun_eq_iff split: option.splits)
qed

lemma dec_meta_json: "key_order m ks \<Longrightarrow> dec_meta (print (map_json m ks)) None = Inr (Some m)"
  using parse_print [OF map_json_ok, of m ks]
  by (simp add: dec_meta_def map_json_def string_fields_strings map_of_key_order)

lemma dec_time_print: "rt s = Some t \<Longrightarrow> dec_time rt (print (JStr s)) x = Inr t"
  using parse_print [of "JStr s"] by (simp add: dec_time_def)

lemma empty_order: "key_order m [] \<longleftrightarrow> m = Map.empty"
  by (auto simp: key_order_def)

text \<open>Fields whose names are different and in lower case are found by their names.\<close>

definition plain_keys :: "string list \<Rightarrow> bool" where
  "plain_keys ks \<longleftrightarrow> distinct ks \<and> list_all (\<lambda>k. to_lower k = k) ks"

lemma dec_field_plain:
  assumes "plain_keys (map fst fs)" "to_lower name = name"
  shows "dec_field name dec fs x = (case map_of fs name of None \<Rightarrow> Inr x | Some v \<Rightarrow> dec v x)"
  using assms
proof (induction fs arbitrary: x)
  case (Cons kv fs)
  obtain k v where kv: "kv = (k, v)" by force
  have fold: "same_fold k name \<longleftrightarrow> k = name"
    using Cons.prems kv by (auto simp: plain_keys_def same_fold_def to_lower_def)
  have "map_of fs k = None" using Cons.prems(1) kv by (auto simp: plain_keys_def map_of_eq_None_iff)
  with Cons fold kv show ?case by (auto simp: plain_keys_def split: sum.split)
qed simp

lemma decode_printed:
  assumes "envelope_json ft h ks e = Inr j" "key_order (meta_read h (env_meta e)) ks"
    and "rt (ft (env_time e)) = Some (env_time e)" "payload_json (env_payload e) = Inr p"
    and "place_meta (if ks = [] then None else Some (meta_read h (env_meta e))) h1 = (r, h2)"
  shows "decode_envelope rt (print j @ [CHR 0x0A]) h1 = Inr (e\<lparr>env_payload := print p, env_meta := r\<rparr>, h2)"
proof -
  have j: "j = JObj ([(''id'', JStr (env_id e)), (''trace_id'', JStr (env_trace e)),
         (''actor'', identity_json (env_actor e)), (''tenant'', tenant_json (env_tenant e)),
         (''type'', JStr (env_type e)), (''action'', JStr (env_action e)), (''payload'', p)] @
        (if ks = [] then [] else [(''metadata'', map_json (meta_read h (env_meta e)) ks)]) @
        [(''timestamp'', JStr (ft (env_time e)))])"
    using assms(1,4) by (simp add: envelope_json_def)
  let ?kvs = "[(''id'', JStr (env_id e)), (''trace_id'', JStr (env_trace e)),
         (''actor'', identity_json (env_actor e)), (''tenant'', tenant_json (env_tenant e)),
         (''type'', JStr (env_type e)), (''action'', JStr (env_action e)), (''payload'', p)] @
        (if ks = [] then [] else [(''metadata'', map_json (meta_read h (env_meta e)) ks)]) @
        [(''timestamp'', JStr (ft (env_time e)))]"
  define fs where "fs = map (\<lambda>(k, v). (k, print v)) ?kvs"
  have fields: "obj_fields (print j @ [CHR 0x0A]) = Inr fs"
    unfolding j fs_def by (rule obj_fields_line) (use payload_json_ok [OF assms(4)] in simp)
  have keys: "plain_keys (map fst fs)" by (simp add: fs_def plain_keys_def to_lower_def lower_char_def)
  have vals: "map_of fs ''id'' = Some (print (JStr (env_id e)))"
    "map_of fs ''trace_id'' = Some (print (JStr (env_trace e)))"
    "map_of fs ''actor'' = Some (print (identity_json (env_actor e)))"
    "map_of fs ''tenant'' = Some (print (tenant_json (env_tenant e)))"
    "map_of fs ''type'' = Some (print (JStr (env_type e)))"
    "map_of fs ''action'' = Some (print (JStr (env_action e)))"
    "map_of fs ''payload'' = Some (print p)"
    "map_of fs ''metadata'' = (if ks = [] then None else Some (print (map_json (meta_read h (env_meta e)) ks)))"
    "map_of fs ''timestamp'' = Some (print (JStr (ft (env_time e))))"
    by (simp_all add: fs_def)
  have names: "to_lower n = n" if "n \<in> set [''id'', ''trace_id'', ''actor'', ''tenant'', ''type'', ''action'',
      ''payload'', ''metadata'', ''timestamp'']" for n
    using that by (auto simp: to_lower_def lower_char_def)
  show ?thesis
    using assms(5)
    by (cases "ks = []") (simp_all add: decode_envelope_def fields dec_field_plain [OF keys] names vals
        dec_meta_json [OF assms(2)] dec_time_print [where rt = rt, OF assms(3)])
qed

text \<open>A response has no metadata, and its payload was marshalled.\<close>

lemma decode_response:
  assumes "env_meta e = None" "env_payload e = print j" "json_ok j" "rt (ft (env_time e)) = Some (env_time e)"
  shows "\<exists>v. envelope_json ft h [] e = Inr v \<and> decode_envelope rt (print v @ [CHR 0x0A]) h1 = Inr (e, h1)"
proof -
  obtain c u where "print j = c # u" using first_char [OF assms(3)] by blast
  with parse_print [OF assms(3)] assms(2) have p: "payload_json (env_payload e) = Inr j"
    by (simp add: payload_json_def)
  then obtain v where v: "envelope_json ft h [] e = Inr v" by (simp add: envelope_json_def)
  have "key_order (meta_read h (env_meta e)) []" by (simp add: assms(1) meta_read_def key_order_def)
  moreover have "e\<lparr>env_payload := print j, env_meta := None\<rparr> = e"
    by (rule envelope.equality) (simp_all add: assms(1,2))
  ultimately show ?thesis
    using decode_printed [where rt = rt and r = None and ?h1.0 = h1 and ?h2.0 = h1, OF v _ assms(4) p] v by (simp add: place_meta_def)
qed

section \<open>Properties\<close>

text \<open>
  C20. An envelope whose strings are valid UTF-8, written as JSON and read back, is the same
  envelope but for its payload and its map: every field is kept; the payload holds the same
  JSON value, perhaps in another layout, and an empty payload comes back as \<open>null\<close>; the metadata
  is a fresh map with the same entries, or nil when there were none.
\<close>

theorem envelope_round_trips:
  assumes "envelope_json ft h ks e = Inr j" "key_order (meta_read h (env_meta e)) ks"
    and "rt (ft (env_time e)) = Some (env_time e)" "list_all utf8_ok (env_strings ft h ks e)"
  shows "\<exists>e' h'. decode_envelope rt (print j @ [CHR 0x0A]) h = Inr (e', h') \<and>
    e'\<lparr>env_payload := env_payload e, env_meta := env_meta e\<rparr> = e \<and>
    parse (env_payload e') = (if env_payload e = [] then Some JNull else parse (env_payload e)) \<and>
    meta_read h' (env_meta e') = meta_read h (env_meta e) \<and>
    (env_meta e' = None \<longleftrightarrow> ks = []) \<and> take (length h) h' = h"
proof -
  from assms(1) obtain p where p: "payload_json (env_payload e) = Inr p"
    by (cases "payload_json (env_payload e)") (auto simp: envelope_json_def)
  obtain r h' where place: "place_meta (if ks = [] then None else Some (meta_read h (env_meta e))) h = (r, h')" by force
  have "meta_read h' r = meta_read h (env_meta e) \<and> (r = None \<longleftrightarrow> ks = []) \<and> take (length h) h' = h"
    using place assms(2) by (auto simp: place_meta_def meta_alloc_def meta_read_def empty_order split: if_splits)
  with decode_printed [where rt = rt, OF assms(1-3) p place] payload_json_ok [OF p] show ?thesis by auto
qed

theorem envelope_round_trips_witness:
  "\<exists>e' h'. decode_envelope read_int
      (print (projr (envelope_json show_int [[''a'' \<mapsto> ''1'']] [''a''] sample_env)) @ [CHR 0x0A]) [[''a'' \<mapsto> ''1'']] = Inr (e', h') \<and>
     env_action e' = ''chat'' \<and> env_time e' = 7 \<and> meta_read h' (env_meta e') = [''a'' \<mapsto> ''1'']"
proof -
  let ?h = "[[''a'' \<mapsto> ''1'']]"
  have m: "meta_read ?h (env_meta sample_env) = [''a'' \<mapsto> ''1'']"
    by (simp add: sample_env_def meta_read_def)
  have "envelope_json show_int ?h [''a''] sample_env = Inr (projr (envelope_json show_int ?h [''a''] sample_env))"
    by (simp add: envelope_json_def payload_json_def sample_env_def new_envelope_def)
  moreover have "key_order (meta_read ?h (env_meta sample_env)) [''a'']" by (simp add: m key_order_def)
  moreover have "list_all utf8_ok (env_strings show_int ?h [''a''] sample_env)"
    by (simp add: env_strings_def sample_env_def new_envelope_def utf8_ok_ascii ascii_def
        show_int_def show_nat.simps [of 7] meta_read_def map_get_def no_actor_def no_tenant_def)
  ultimately obtain e' h' where e': "decode_envelope read_int
      (print (projr (envelope_json show_int ?h [''a''] sample_env)) @ [CHR 0x0A]) ?h = Inr (e', h')"
    and same: "e'\<lparr>env_payload := env_payload sample_env, env_meta := env_meta sample_env\<rparr> = sample_env"
    and meta: "meta_read h' (env_meta e') = meta_read ?h (env_meta sample_env)"
    using envelope_round_trips [where ft = show_int and rt = read_int] read_show_int by meson
  have "env_action e' = ''chat''" "env_time e' = 7"
    using arg_cong [OF same, of env_action] arg_cong [OF same, of env_time]
    by (simp_all add: sample_env_def new_envelope_def)
  with e' meta m show ?thesis by (intro exI [of _ e'] exI [of _ h']) simp
qed

end
