(* ===== verification/Json_Slices.thy ===== *)
theory Json_Slices
  imports Json_Reparse Json_Decode
begin

text \<open>
  The JSON parser reads no further than the value it returns, and the length of a text is
  fuel enough for it. So the bytes that a \<open>RawMessage\<close> field is given are JSON of their own.
\<close>

section \<open>Strings\<close>

lemma hex4_append: "hex4 s = Some (m, r) \<Longrightarrow> hex4 (s @ t) = Some (m, r @ t)"
  by (cases s rule: hex4.cases) (auto split: option.splits)

lemma hex4_prefix: "hex4 s = Some (m, r) \<Longrightarrow> \<exists>u. s = u @ r \<and> u \<noteq> [] \<and> (\<forall>t. hex4 (u @ t) = Some (m, t))"
  by (cases s rule: hex4.cases) (auto split: option.splits)

text \<open>A reader is local on a text when it keeps its answer whatever follows the part it read.\<close>

definition local :: "(string \<Rightarrow> ('a \<times> string) option) \<Rightarrow> (string \<Rightarrow> bool) \<Rightarrow> string \<Rightarrow> 'a \<Rightarrow> string \<Rightarrow> bool" where
  "local f ok s v r \<longleftrightarrow> (\<exists>u. s = u @ r \<and> (\<forall>t. ok t \<longrightarrow> f (u @ t) = Some (v, t)))"

lemma localI: "s = u @ r \<Longrightarrow> (\<And>t. ok t \<Longrightarrow> f (u @ t) = Some (v, t)) \<Longrightarrow> local f ok s v r"
  by (auto simp: local_def)

lemma localE:
  assumes "local f ok s v r"
  obtains u where "s = u @ r" "\<And>t. ok t \<Longrightarrow> f (u @ t) = Some (v, t)"
  using assms by (auto simp: local_def)

lemma p_chars_head:
  assumes "p_chars n u = Some (w, [])"
  shows "u \<noteq> [] \<and> (u = [c] \<longrightarrow> c \<noteq> backslash) \<and>
    (\<forall>v. u = backslash # CHR ''u'' # v \<longrightarrow> hex4 v \<noteq> None)"
  using assms by (cases n) (auto split: option.splits)

lemma unescape_stays:
  assumes "unescape_u m (u @ r) = (t, u @ r)" "p_chars n u = Some (w, [])"
  shows "unescape_u m (u @ x) = (t, u @ x)"
proof -
  obtain c v where u: "u = c # v" using p_chars_head [OF assms(2)] by (cases u) auto
  show ?thesis
  proof (cases "c = backslash \<and> take 1 v = ''u''")
    case True
    then obtain v' where v': "u = backslash # CHR ''u'' # v'" using u by (cases v) auto
    with p_chars_head [OF assms(2)] obtain m' y where h: "hex4 v' = Some (m', y)" by auto
    have "length y < length v'" using hex4_prefix [OF h] by auto
    with assms(1) show ?thesis by (auto simp: unescape_u_def v' hex4_append [OF h] split: if_splits)
  next
    case False
    with u p_chars_head [OF assms(2), of c] have "take 2 (u @ y) \<noteq> [backslash, CHR ''u'']" for y
      by (cases v) auto
    with assms(1) show ?thesis by (auto simp: unescape_u_def split: if_splits)
  qed
qed

lemma unescape_moves:
  assumes "unescape_u m s = (t, q)" "s \<noteq> q"
  obtains u where "s = u @ q" "u \<noteq> []" "\<And>x. unescape_u m (u @ x) = (t, x)"
proof -
  from assms obtain m' where p: "take 2 s = [backslash, CHR ''u'']" "hex4 (drop 2 s) = Some (m', q)"
      "0xD800 \<le> m" "m < 0xDC00" "0xDC00 \<le> m'" "m' < 0xE000"
      "t = utf8 (0x10000 + (m - 0xD800) * 1024 + (m' - 0xDC00))"
    by (auto simp: unescape_u_def split: if_splits option.splits)
  obtain u where u: "drop 2 s = u @ q" "\<And>x. hex4 (u @ x) = Some (m', x)" using hex4_prefix [OF p(2)] by auto
  have "s = (backslash # CHR ''u'' # u) @ q" using append_take_drop_id [of 2 s] p(1) u(1) by simp
  then show ?thesis using that [of "backslash # CHR ''u'' # u"] p u(2) by (simp add: unescape_u_def)
qed

lemma unescape_le: "unescape_u m s = (t, q) \<Longrightarrow> length q \<le> length s"
  by (cases "s = q") (auto elim!: unescape_moves)

lemma p_chars_cases [consumes 1, case_names quote simple unicode plain]:
  assumes "p_chars n s = Some (w, r)"
  obtains k where "n = Suc k" "s = quote # r" "w = []"
  | k e z d w' where "n = Suc k" "s = backslash # e # z" "e \<noteq> CHR ''u''" "simple_escape e = Some d"
      "p_chars k z = Some (w', r)" "w = d # w'"
  | k q m p t z w' where "n = Suc k" "s = backslash # CHR ''u'' # q" "hex4 q = Some (m, p)"
      "unescape_u m p = (t, z)" "p_chars k z = Some (w', r)" "w = t @ w'"
  | k c z w' where "n = Suc k" "s = c # z" "c \<noteq> quote" "c \<noteq> backslash" "\<not> (of_char c :: nat) < 32"
      "p_chars k z = Some (w', r)" "w = c # w'"
proof -
  obtain k c z where n: "n = Suc k" "s = c # z" using assms by (cases n; cases s) auto
  consider "c = quote" | "c = backslash" | "c \<noteq> quote" "c \<noteq> backslash" by blast
  then show ?thesis
  proof cases
    case 1
    with assms n that(1) show ?thesis by simp
  next
    case 2
    with assms n obtain e z' where z: "z = e # z'" by (cases z) auto
    show ?thesis
    proof (cases "e = CHR ''u''")
      case True
      with assms n 2 z that(3) show ?thesis by (auto split: option.splits prod.splits)
    next
      case False
      with assms n 2 z that(2) show ?thesis by (auto split: option.splits)
    qed
  next
    case 3
    with assms n that(4) show ?thesis by (auto split: if_splits)
  qed
qed

lemma p_chars_local: "p_chars n s = Some (w, r) \<Longrightarrow> local (p_chars n) (\<lambda>_. True) s w r"
proof (induction n arbitrary: s w)
  case (Suc n)
  from Suc.prems show ?case
  proof (cases rule: p_chars_cases)
    case quote
    then show ?thesis by (intro localI [of _ "[quote]"]) auto
  next
    case (simple k e z d w')
    then obtain u where "z = u @ r" "\<And>x. p_chars n (u @ x) = Some (w', x)"
      using Suc.IH [of z w'] by (auto elim: localE)
    with simple show ?thesis by (intro localI [of _ "backslash # e # u"]) auto
  next
    case (unicode k q m p t z w')
    then obtain u where u: "z = u @ r" "\<And>x. p_chars n (u @ x) = Some (w', x)"
      using Suc.IH [of z w'] by (auto elim: localE)
    obtain u0 where u0: "q = u0 @ p" "\<And>x. hex4 (u0 @ x) = Some (m, x)" using hex4_prefix [OF unicode(3)] by auto
    show ?thesis
    proof (cases "p = z")
      case True
      have "unescape_u m (u @ x) = (t, u @ x)" for x
        by (rule unescape_stays [of _ _ r]) (use unicode(4) True u u(2) [of "[]"] in auto)
      with unicode u u0 True show ?thesis by (intro localI [of _ "backslash # CHR ''u'' # u0 @ u"]) auto
    next
      case False
      obtain v where "p = v @ z" "\<And>x. unescape_u m (v @ x) = (t, x)" using unescape_moves [OF unicode(4) False] by blast
      with unicode u u0 show ?thesis by (intro localI [of _ "backslash # CHR ''u'' # u0 @ v @ u"]) auto
    qed
  next
    case (plain k c z w')
    then obtain u where "z = u @ r" "\<And>x. p_chars n (u @ x) = Some (w', x)"
      using Suc.IH [of z w'] by (auto elim: localE)
    with plain show ?thesis by (intro localI [of _ "c # u"]) auto
  qed
qed simp

lemma p_chars_fuel: "p_chars n s = Some (w, r) \<Longrightarrow> length s < k \<Longrightarrow> p_chars k s = Some (w, r)"
proof (induction n arbitrary: s k w)
  case (Suc n)
  then obtain j where k: "k = Suc j" "length s \<le> j" by (cases k) auto
  have IH: "p_chars j z = Some (w', r)" if "n = k'" "p_chars k' z = Some (w', r)" "length z < length s" for k' z w'
    by (rule Suc.IH) (use that k(2) in simp_all)
  from Suc.prems(1) show ?case
  proof (cases rule: p_chars_cases)
    case quote
    with k(1) show ?thesis by simp
  next
    case (simple k' e z d w')
    with IH [of k' z w'] k(1) show ?thesis by simp
  next
    case (unicode k' q m p t z w')
    have "length p < length q" using hex4_prefix [OF unicode(3)] by auto
    with unescape_le [OF unicode(4)] IH [of k' z w'] unicode k(1) show ?thesis by simp
  next
    case (plain k' c z w')
    with IH [of k' z w'] k(1) show ?thesis by simp
  qed
qed simp

lemma p_string_local:
  assumes "p_string s = Some (w, r)" shows "local p_string (\<lambda>_. True) s w r"
proof -
  obtain u where u: "s = u @ r" "\<And>x. p_chars (Suc (length s)) (u @ x) = Some (w, x)"
    using localE [OF p_chars_local [OF assms [unfolded p_string_def]]] by metis
  have "p_string (u @ x) = Some (w, x)" for x
    unfolding p_string_def by (rule p_chars_fuel [OF u(2)]) simp
  with u(1) show ?thesis by (rule localI)
qed

section \<open>Numbers\<close>

lemma digits_split: "digits s = Some (d, t) \<Longrightarrow> s = d @ t"
  by (auto simp: digits_def split: if_splits)

lemma p_number_split: "p_number s = Some (t, r) \<Longrightarrow> s = t @ r"
proof -
  have sign: "p_sign s = (g, u) \<Longrightarrow> s = g @ u" for g u by (cases s) (auto split: if_splits)
  have int: "p_int u = Some (i, v) \<Longrightarrow> u = i @ v" for u i v by (cases u) (auto dest: digits_split split: if_splits)
  have frac: "p_frac u = Some (f, v) \<Longrightarrow> u = f @ v" for u f v by (cases u) (auto dest: digits_split split: if_splits)
  have esign: "p_exp_sign u = (g, v) \<Longrightarrow> u = g @ v" for u g v by (cases u) (auto split: if_splits)
  have ex: "p_exp u = Some (e, v) \<Longrightarrow> u = e @ v" for u e v
    by (cases u) (auto dest!: digits_split esign split: if_splits prod.splits)
  show "p_number s = Some (t, r) \<Longrightarrow> s = t @ r"
    by (auto simp: p_number_def dest!: sign int frac ex split: prod.splits option.splits)
qed

lemma p_number_local:
  assumes "p_number s = Some (t, r)" shows "local p_number delim s t r"
  using p_number_split [OF assms] p_number_ext [OF _ p_number_ok [OF assms]] by (rule localI)

section \<open>Values\<close>

lemma skip_split: "skip s = c # z \<Longrightarrow> \<exists>w. s = w @ c # z \<and> (\<forall>x. skip (w @ c # x) = c # x)"
proof (induction s)
  case (Cons d s)
  show ?case
  proof (cases "ws d")
    case True
    with Cons obtain w where "s = w @ c # z" "\<forall>x. skip (w @ c # x) = c # x" by auto
    with True show ?thesis by (intro exI [of _ "d # w"]) simp
  next
    case False
    with Cons.prems show ?thesis by (intro exI [of _ "[]"]) simp
  qed
qed simp

lemma skip_append: "skip u \<noteq> [] \<Longrightarrow> skip (u @ t) = skip u @ t"
  by (induction u) auto

lemma skip_delim: "skip q = c # z \<Longrightarrow> c \<in> {CHR '','', CHR '']'', CHR ''}''} \<Longrightarrow> delim q"
  by (cases q) (auto simp: delim_def split: if_splits)

lemma p_lit_local: "p_lit cs v s = Some (w, r) \<Longrightarrow> s = cs @ r \<and> w = v"
  by (induction cs v s rule: p_lit.induct) (auto split: if_splits)

lemma p_lit_same [simp]: "p_lit cs v (cs @ t) = Some (v, t)"
  by (induction cs) auto

definition literals :: "(string \<times> json) list" where
  "literals = [(''null'', JNull), (''true'', JBool True), (''false'', JBool False)]"

definition plain_start :: "char \<Rightarrow> bool" where
  "plain_start c \<longleftrightarrow> c \<notin> {CHR ''n'', CHR ''t'', CHR ''f'', quote, CHR ''['', CHR ''{''}"

lemma p_val_cases [consumes 1, case_names lit str arr0 arr obj0 obj num]:
  assumes "p_val n s = Some (v, r)"
  obtains k cs where "n = Suc k" "(cs, v) \<in> set literals" "skip s = cs @ r"
  | k z t where "n = Suc k" "skip s = quote # z" "p_string z = Some (t, r)" "v = JStr t"
  | k z where "n = Suc k" "skip s = CHR ''['' # z" "skip z = CHR '']'' # r" "v = JArr []"
  | k z vs where "n = Suc k" "skip s = CHR ''['' # z" "take 1 (skip z) \<noteq> '']''" "Json.p_elems k z = Some (vs, r)" "v = JArr vs"
  | k z where "n = Suc k" "skip s = CHR ''{'' # z" "skip z = CHR ''}'' # r" "v = JObj []"
  | k z kvs where "n = Suc k" "skip s = CHR ''{'' # z" "take 1 (skip z) \<noteq> ''}''" "p_members k z = Some (kvs, r)" "v = JObj kvs"
  | k c z t where "n = Suc k" "skip s = c # z" "plain_start c" "p_number (c # z) = Some (t, r)" "v = JNum t"
proof -
  obtain k c z where n: "n = Suc k" "skip s = c # z" using assms by (cases n; cases "skip s") auto
  consider "c = CHR ''n''" | "c = CHR ''t''" | "c = CHR ''f''" | "c = quote" | "c = CHR ''[''" | "c = CHR ''{''"
    | "plain_start c" by (auto simp: plain_start_def)
  then show ?thesis
  proof cases
    case 1
    with assms n have "p_lit ''null'' JNull (skip s) = Some (v, r)" by simp
    from p_lit_local [OF this] n(1) that(1) [of k "''null''"] show ?thesis by (simp add: literals_def)
  next
    case 2
    with assms n have "p_lit ''true'' (JBool True) (skip s) = Some (v, r)" by simp
    from p_lit_local [OF this] n(1) that(1) [of k "''true''"] show ?thesis by (simp add: literals_def)
  next
    case 3
    with assms n have "p_lit ''false'' (JBool False) (skip s) = Some (v, r)" by simp
    from p_lit_local [OF this] n(1) that(1) [of k "''false''"] show ?thesis by (simp add: literals_def)
  next
    case 4
    with assms n that(2) show ?thesis by auto
  next
    case 5
    show ?thesis
    proof (cases "take 1 (skip z) = '']''")
      case True
      then have "skip z = CHR '']'' # tl (skip z)" by (cases "skip z") auto
      with assms n 5 True that(3) show ?thesis by auto
    next
      case False
      with assms n 5 that(4) show ?thesis by auto
    qed
  next
    case 6
    show ?thesis
    proof (cases "take 1 (skip z) = ''}''")
      case True
      then have "skip z = CHR ''}'' # tl (skip z)" by (cases "skip z") auto
      with assms n 6 True that(5) show ?thesis by auto
    next
      case False
      with assms n 6 that(6) show ?thesis by auto
    qed
  next
    case 7
    with assms n that(7) show ?thesis by (auto simp: plain_start_def)
  qed
qed

lemma p_elems_cases [consumes 1, case_names more last]:
  assumes "Json.p_elems n s = Some (vs, r)"
  obtains k v q z vs' where "n = Suc k" "p_val k s = Some (v, q)" "skip q = CHR '','' # z"
      "Json.p_elems k z = Some (vs', r)" "vs = v # vs'"
  | k v q where "n = Suc k" "p_val k s = Some (v, q)" "skip q = CHR '']'' # r" "vs = [v]"
proof -
  obtain k v q where n: "n = Suc k" "p_val k s = Some (v, q)"
    using assms by (cases n) (auto split: option.splits)
  with assms that show ?thesis by (auto split: list.splits if_splits)
qed

lemma p_members_cases [consumes 1, case_names more last]:
  assumes "p_members n s = Some (kvs, r)"
  obtains k s1 key s2 s3 v q z kvs' where "n = Suc k" "skip s = quote # s1" "p_string s1 = Some (key, s2)"
      "skip s2 = CHR '':'' # s3" "p_val k s3 = Some (v, q)" "skip q = CHR '','' # z"
      "p_members k z = Some (kvs', r)" "kvs = (key, v) # kvs'"
  | k s1 key s2 s3 v q where "n = Suc k" "skip s = quote # s1" "p_string s1 = Some (key, s2)"
      "skip s2 = CHR '':'' # s3" "p_val k s3 = Some (v, q)" "skip q = CHR ''}'' # r" "kvs = [(key, v)]"
proof -
  obtain k s1 key s2 s3 v q where n: "n = Suc k" "skip s = quote # s1" "p_string s1 = Some (key, s2)"
      "skip s2 = CHR '':'' # s3" "p_val k s3 = Some (v, q)"
    using assms by (cases n) (auto split: option.splits list.splits if_splits)
  with assms that show ?thesis by (auto split: list.splits if_splits)
qed

subsection \<open>Locality\<close>

lemma literal_head: "(cs, v) \<in> set literals \<Longrightarrow> skip s = cs @ r \<Longrightarrow> \<exists>c z. skip s = c # z \<and> cs = c # take (length cs - 1) z"
  by (auto simp: literals_def)

lemma p_val_literal: "(cs, v) \<in> set literals \<Longrightarrow> skip s = cs @ r \<Longrightarrow> p_val (Suc k) s = Some (v, r)"
  using p_lit_same [of cs v r] by (auto simp: literals_def simp del: p_lit_same)

lemma skip_prefix:
  assumes "skip s = c # u @ r"
  obtains w where "s = w @ c # u @ r" "\<And>x. skip (w @ c # x) = c # x"
  using skip_split [OF assms] by blast

lemma p_val_start: "p_val n s = Some (v, r) \<Longrightarrow> skip s \<noteq> []"
  by (cases n; cases "skip s") auto

lemma p_elems_start: "Json.p_elems k u = Some (vs, []) \<Longrightarrow> skip u \<noteq> []"
  by (cases rule: p_elems_cases [of k u vs "[]"]) (auto dest!: p_val_start)

lemma p_members_start: "p_members k u = Some (kvs, []) \<Longrightarrow> skip u \<noteq> []"
  by (cases rule: p_members_cases [of k u kvs "[]"]) auto

lemma take_skip:
  assumes "skip u \<noteq> []" shows "take 1 (skip (u @ x)) = take 1 (skip u)"
  using assms skip_append [OF assms, of x] by (cases "skip u") auto

lemma p_val_local_step:
  assumes el: "\<And>s vs r. Json.p_elems k s = Some (vs, r) \<Longrightarrow> local (Json.p_elems k) (\<lambda>_. True) s vs r"
    and me: "\<And>s kvs r. p_members k s = Some (kvs, r) \<Longrightarrow> local (p_members k) (\<lambda>_. True) s kvs r"
    and v: "p_val (Suc k) s = Some (v, r)"
  shows "local (p_val (Suc k)) delim s v r"
  using v
proof (cases rule: p_val_cases)
  case (lit k' cs)
  then obtain w where "s = w @ cs @ r" "\<And>x. skip (w @ cs @ x) = cs @ x"
    using skip_split [of s "hd cs" "tl cs @ r"] by (auto simp: literals_def)
  with lit(2) p_val_literal show ?thesis by (intro localI [of _ "w @ cs"]) (auto simp del: p_val.simps)
next
  case (str k' z t)
  obtain u where u: "z = u @ r" "\<And>x. p_string (u @ x) = Some (t, x)"
    using localE [OF p_string_local [OF str(3)]] by metis
  obtain w where "s = w @ quote # u @ r" "\<And>x. skip (w @ quote # x) = quote # x"
    using skip_prefix str(2) u(1) by blast
  with str u show ?thesis by (intro localI [of _ "w @ quote # u"]) auto
next
  case (arr0 k' z)
  obtain y where y: "z = y @ CHR '']'' # r" "\<And>x. skip (y @ CHR '']'' # x) = CHR '']'' # x"
    using skip_split [OF arr0(3)] by blast
  obtain w where "s = w @ CHR ''['' # z" "\<And>x. skip (w @ CHR ''['' # x) = CHR ''['' # x"
    using skip_split [OF arr0(2)] by blast
  with arr0 y show ?thesis by (intro localI [of _ "w @ CHR ''['' # y @ '']''"]) auto
next
  case (arr k' z vs)
  obtain u where u: "z = u @ r" "\<And>x. Json.p_elems k (u @ x) = Some (vs, x)"
    using localE [OF el] arr(1,4) by (metis nat.inject)
  note start = take_skip [OF p_elems_start, of k u vs]
  obtain w where "s = w @ CHR ''['' # u @ r" "\<And>x. skip (w @ CHR ''['' # x) = CHR ''['' # x"
    using skip_prefix arr(2) u(1) by blast
  with arr u start u(2) [of "[]"] show ?thesis by (intro localI [of _ "w @ CHR ''['' # u"]) auto
next
  case (obj0 k' z)
  obtain y where y: "z = y @ CHR ''}'' # r" "\<And>x. skip (y @ CHR ''}'' # x) = CHR ''}'' # x"
    using skip_split [OF obj0(3)] by blast
  obtain w where "s = w @ CHR ''{'' # z" "\<And>x. skip (w @ CHR ''{'' # x) = CHR ''{'' # x"
    using skip_split [OF obj0(2)] by blast
  with obj0 y show ?thesis by (intro localI [of _ "w @ CHR ''{'' # y @ ''}''"]) auto
next
  case (obj k' z kvs)
  obtain u where u: "z = u @ r" "\<And>x. p_members k (u @ x) = Some (kvs, x)"
    using localE [OF me] obj(1,4) by (metis nat.inject)
  note start = take_skip [OF p_members_start, of k u kvs]
  obtain w where "s = w @ CHR ''{'' # u @ r" "\<And>x. skip (w @ CHR ''{'' # x) = CHR ''{'' # x"
    using skip_prefix obj(2) u(1) by blast
  with obj u start u(2) [of "[]"] show ?thesis by (intro localI [of _ "w @ CHR ''{'' # u"]) auto
next
  case (num k' c z t)
  obtain u where u: "c # z = u @ r" "\<And>x. delim x \<Longrightarrow> p_number (u @ x) = Some (t, x)"
    using localE [OF p_number_local [OF num(4)]] by metis
  have "u \<noteq> []" using u(2) [of "[]"] by (auto simp: p_number_def)
  then obtain u' where u': "u = c # u'" "z = u' @ r" using u(1) by (cases u) auto
  obtain w where "s = w @ c # u' @ r" "\<And>x. skip (w @ c # x) = c # x"
    using skip_prefix num(2) u'(2) by blast
  with num(3,5) u u' show ?thesis by (intro localI [of _ "w @ c # u'"]) (auto simp: plain_start_def)
qed

lemma p_elems_local_step:
  assumes va: "\<And>s v r. p_val k s = Some (v, r) \<Longrightarrow> local (p_val k) delim s v r"
    and el: "\<And>s vs r. Json.p_elems k s = Some (vs, r) \<Longrightarrow> local (Json.p_elems k) (\<lambda>_. True) s vs r"
    and v: "Json.p_elems (Suc k) s = Some (vs, r)"
  shows "local (Json.p_elems (Suc k)) (\<lambda>_. True) s vs r"
  using v
proof (cases rule: p_elems_cases)
  case (more k' v q z vs')
  obtain u where u: "s = u @ q" "\<And>x. delim x \<Longrightarrow> p_val k (u @ x) = Some (v, x)"
    using localE [OF va] more(1,2) by (metis nat.inject)
  obtain u' where u': "z = u' @ r" "\<And>x. Json.p_elems k (u' @ x) = Some (vs', x)"
    using localE [OF el] more(1,4) by (metis nat.inject)
  obtain w where w: "q = w @ CHR '','' # z" "\<And>x. skip (w @ CHR '','' # x) = CHR '','' # x"
    using skip_split [OF more(3)] by blast
  have "delim (w @ CHR '','' # x)" for x by (rule skip_delim [OF w(2)]) simp
  with more u u' w show ?thesis by (intro localI [of _ "u @ w @ CHR '','' # u'"]) auto
next
  case (last k' v q)
  obtain u where u: "s = u @ q" "\<And>x. delim x \<Longrightarrow> p_val k (u @ x) = Some (v, x)"
    using localE [OF va] last(1,2) by (metis nat.inject)
  obtain w where w: "q = w @ CHR '']'' # r" "\<And>x. skip (w @ CHR '']'' # x) = CHR '']'' # x"
    using skip_split [OF last(3)] by blast
  have "delim (w @ CHR '']'' # x)" for x by (rule skip_delim [OF w(2)]) simp
  with last u w show ?thesis by (intro localI [of _ "u @ w @ '']''"]) auto
qed

lemma p_members_local_step:
  assumes va: "\<And>s v r. p_val k s = Some (v, r) \<Longrightarrow> local (p_val k) delim s v r"
    and me: "\<And>s kvs r. p_members k s = Some (kvs, r) \<Longrightarrow> local (p_members k) (\<lambda>_. True) s kvs r"
    and v: "p_members (Suc k) s = Some (kvs, r)"
  shows "local (p_members (Suc k)) (\<lambda>_. True) s kvs r"
proof -
  have key: "\<exists>y. s = y @ q \<and> (\<forall>x. delim x \<longrightarrow> (\<exists>s1 s2 s3. skip (y @ x) = quote # s1 \<and>
      p_string s1 = Some (key, s2) \<and> skip s2 = CHR '':'' # s3 \<and> p_val k s3 = Some (v, x)))"
    if m: "skip s = quote # s1" "p_string s1 = Some (key, s2)" "skip s2 = CHR '':'' # s3"
      "p_val k s3 = Some (v, q)" for s1 key s2 s3 v q
  proof -
    obtain u where u: "s3 = u @ q" "\<And>x. delim x \<Longrightarrow> p_val k (u @ x) = Some (v, x)"
      using localE [OF va [OF m(4)]] by metis
    obtain w where w: "s2 = w @ CHR '':'' # s3" "\<And>x. skip (w @ CHR '':'' # x) = CHR '':'' # x"
      using skip_split [OF m(3)] by blast
    obtain t where t: "s1 = t @ s2" "\<And>x. p_string (t @ x) = Some (key, x)"
      using localE [OF p_string_local [OF m(2)]] by metis
    obtain y where y: "s = y @ quote # s1" "\<And>x. skip (y @ quote # x) = quote # x"
      using skip_split [OF m(1)] by blast
    show ?thesis
      by (rule exI [of _ "y @ quote # t @ w @ CHR '':'' # u"]) (use u w t y in auto)
  qed
  from v show ?thesis
  proof (cases rule: p_members_cases)
    case (more k' s1 key s2 s3 v q z kvs')
    obtain y where y: "s = y @ q" "\<And>x. delim x \<Longrightarrow> \<exists>s1 s2 s3. skip (y @ x) = quote # s1 \<and>
        p_string s1 = Some (key, s2) \<and> skip s2 = CHR '':'' # s3 \<and> p_val k s3 = Some (v, x)"
      using key [OF more(2-4)] more(1,5) by blast
    obtain u where u: "z = u @ r" "\<And>x. p_members k (u @ x) = Some (kvs', x)"
      using localE [OF me] more(1,7) by (metis nat.inject)
    obtain w where w: "q = w @ CHR '','' # z" "\<And>x. skip (w @ CHR '','' # x) = CHR '','' # x"
      using skip_split [OF more(6)] by blast
    have "p_members (Suc k) ((y @ w @ CHR '','' # u) @ x) = Some (kvs, x)" for x
      using y(2) [OF skip_delim [OF w(2)], of "u @ x"] w(2) u(2) more(8) by auto
    with y(1) u(1) w(1) show ?thesis by (intro localI [of _ "y @ w @ CHR '','' # u"]) auto
  next
    case (last k' s1 key s2 s3 v q)
    obtain y where y: "s = y @ q" "\<And>x. delim x \<Longrightarrow> \<exists>s1 s2 s3. skip (y @ x) = quote # s1 \<and>
        p_string s1 = Some (key, s2) \<and> skip s2 = CHR '':'' # s3 \<and> p_val k s3 = Some (v, x)"
      using key [OF last(2-4)] last(1,5) by blast
    obtain w where w: "q = w @ CHR ''}'' # r" "\<And>x. skip (w @ CHR ''}'' # x) = CHR ''}'' # x"
      using skip_split [OF last(6)] by blast
    have "p_members (Suc k) ((y @ w @ ''}'') @ x) = Some (kvs, x)" for x
      using y(2) [OF skip_delim [OF w(2)], of x] w(2) last(7) by auto
    with y(1) w(1) show ?thesis by (intro localI [of _ "y @ w @ ''}''"]) auto
  qed
qed

lemma p_val_local:
  "p_val n s = Some (v, r) \<Longrightarrow> local (p_val n) delim s v r"
  "Json.p_elems n s = Some (vs, r) \<Longrightarrow> local (Json.p_elems n) (\<lambda>_. True) s vs r"
  "p_members n s = Some (kvs, r) \<Longrightarrow> local (p_members n) (\<lambda>_. True) s kvs r"
proof (induction n arbitrary: s v r vs kvs)
  case (Suc n)
  {
    case 1
    with Suc.IH show ?case by (intro p_val_local_step) blast+
  next
    case 2
    with Suc.IH show ?case by (intro p_elems_local_step) blast+
  next
    case 3
    with Suc.IH show ?case by (intro p_members_local_step) blast+
  }
qed simp_all

subsection \<open>Fuel\<close>

lemma local_le: "local f ok s v r \<Longrightarrow> length r \<le> length s"
  by (auto simp: local_def)

lemma skip_le: "skip s = c # z \<Longrightarrow> length z < length s"
  using skip_split [of s c z] by auto

lemma p_val_fuel:
  "p_val n s = Some (v, r) \<Longrightarrow> 2 * length s + 1 \<le> k \<Longrightarrow> p_val k s = Some (v, r)"
  "Json.p_elems n s = Some (vs, r) \<Longrightarrow> 2 * length s + 2 \<le> k \<Longrightarrow> Json.p_elems k s = Some (vs, r)"
  "p_members n s = Some (kvs, r) \<Longrightarrow> 2 * length s + 2 \<le> k \<Longrightarrow> p_members k s = Some (kvs, r)"
proof (induction n arbitrary: s v r vs kvs k)
  case (Suc n)
  {
    case 1
    then obtain j where k: "k = Suc j" "2 * length s \<le> j" by (cases k) auto
    from 1(1) show ?case
    proof (cases rule: p_val_cases)
      case (lit k' cs)
      then show ?thesis unfolding k by (intro p_val_literal)
    next
      case (arr k' z vs)
      have "Json.p_elems j z = Some (vs, r)"
        by (rule Suc.IH(2)) (use k(2) arr(1,4) skip_le [OF arr(2)] in simp_all)
      with arr(2,3,5) show ?thesis by (simp add: k)
    next
      case (obj k' z kvs)
      have "p_members j z = Some (kvs, r)"
        by (rule Suc.IH(3)) (use k(2) obj(1,4) skip_le [OF obj(2)] in simp_all)
      with obj(2,3,5) show ?thesis by (simp add: k)
    qed (simp_all add: k plain_start_def)
  next
    case 2
    then obtain j where k: "k = Suc j" "2 * length s + 1 \<le> j" by (cases k) auto
    from 2(1) show ?case
    proof (cases rule: p_elems_cases)
      case (more k' v q z vs')
      have v: "p_val j s = Some (v, q)" by (rule Suc.IH(1)) (use k(2) more(1,2) in simp_all)
      have "length z < length s" using skip_le [OF more(3)] local_le [OF p_val_local(1) [OF more(2)]] by simp
      have "Json.p_elems j z = Some (vs', r)"
        by (rule Suc.IH(2)) (use k(2) \<open>length z < length s\<close> more(1,4) in simp_all)
      with v more(3,5) show ?thesis by (simp add: k)
    next
      case (last k' v q)
      have "p_val j s = Some (v, q)" by (rule Suc.IH(1)) (use k(2) last(1,2) in simp_all)
      with last(3,4) show ?thesis by (simp add: k)
    qed
  next
    case 3
    then obtain j where k: "k = Suc j" "2 * length s + 1 \<le> j" by (cases k) auto
    have len: "length s3 < length s"
      if "skip s = quote # s1" "p_string s1 = Some (key, s2)" "skip s2 = CHR '':'' # s3" for s1 key s2 s3
      using skip_le [OF that(1)] local_le [OF p_string_local [OF that(2)]] skip_le [OF that(3)] by simp
    from 3(1) show ?case
    proof (cases rule: p_members_cases)
      case (more k' s1 key s2 s3 v q z kvs')
      have v: "p_val j s3 = Some (v, q)" by (rule Suc.IH(1)) (use k(2) len [OF more(2-4)] more(1,5) in simp_all)
      have "length z < length s"
        using len [OF more(2-4)] skip_le [OF more(6)] local_le [OF p_val_local(1) [OF more(5)]] by simp
      have "p_members j z = Some (kvs', r)"
        by (rule Suc.IH(3)) (use k(2) \<open>length z < length s\<close> more(1,7) in simp_all)
      with v more(2-4,6,8) show ?thesis by (simp add: k)
    next
      case (last k' s1 key s2 s3 v q)
      have "p_val j s3 = Some (v, q)" by (rule Suc.IH(1)) (use k(2) len [OF last(2-4)] last(1,5) in simp_all)
      with last(2-4,6,7) show ?thesis by (simp add: k)
    qed
  }
qed simp_all

section \<open>Raw fields\<close>

lemma p_val_slice:
  assumes "p_val n s = Some (v, r)" shows "parse (take (length s - length r) s) = Some v"
proof -
  obtain u where u: "s = u @ r" "p_val n (u @ []) = Some (v, [])"
    using localE [OF p_val_local(1) [OF assms]] by (metis delim_simps(4))
  have "p_val (2 * length u + 1) u = Some (v, [])" by (rule p_val_fuel(1)) (use u(2) in simp_all)
  with u(1) show ?thesis by (simp add: parse_def del: p_val.simps)
qed

lemma p_slices_parse: "p_slices n s = Some kvs \<Longrightarrow> (k, v) \<in> set kvs \<Longrightarrow> parse v \<noteq> None"
proof (induction n s arbitrary: kvs rule: p_slices.induct)
  case (2 n s)
  obtain k' s2 x s4 where s: "p_string (tl (skip s)) = Some (k', s2)" "p_val n (skip (tl (skip s2))) = Some (x, s4)"
    using "2.prems"(1) by (auto simp: Let_def split: option.splits)
  let ?v = "take (length (skip (tl (skip s2))) - length s4) (skip (tl (skip s2)))"
  have v: "parse ?v \<noteq> None" using p_val_slice [OF s(2)] by simp
  show ?case
  proof (cases "take 1 (skip s4) = '',''")
    case True
    with "2.prems" s obtain kvs' where "p_slices n (tl (skip s4)) = Some kvs'" "kvs = (k', ?v) # kvs'"
      by (auto simp: Let_def)
    with "2.prems"(2) v "2.IH" s True show ?thesis by (auto simp: Let_def)
  next
    case False
    with "2.prems" s v show ?thesis by (auto simp: Let_def)
  qed
qed simp

text \<open>The bytes of every field of an object are JSON.\<close>

theorem obj_fields_parse: "obj_fields p = Inr kvs \<Longrightarrow> (k, v) \<in> set kvs \<Longrightarrow> parse v \<noteq> None"
  using p_slices_parse [of "2 * length p + 1" "tl (skip p)" kvs k v]
  by (auto simp: obj_fields_def simp del: p_slices.simps split: option.splits json.splits list.splits)

lemma dec_field_raw_in: "dec_field name dec_raw kvs x = Inr c \<Longrightarrow> c = x \<or> (\<exists>k. (k, c) \<in> set kvs)"
  by (induction name "dec_raw" kvs x rule: dec_field.induct) (auto simp: dec_raw_def split: if_splits)

text \<open>A \<open>RawMessage\<close> field that was decoded can be marshalled again.\<close>

lemma raw_field_marshals:
  assumes "obj_fields p = Inr kvs" "dec_field name dec_raw kvs [] = Inr c"
  shows "\<exists>j. payload_json c = Inr j"
  using dec_field_raw_in [OF assms(2)] obj_fields_parse [OF assms(1)]
  by (fastforce simp: payload_json_def)

end
