(* ===== verification/Api.thy ===== *)
theory Api
  imports Hydra_Main Wire Json_Slices Plane_Props
begin

text \<open>
  The API of a running process from end to end: an HTTP request goes through the gateway and
  a handler of \<open>cmd/hydra/main.go\<close> to the planes and back to the bytes of the response. The
  process keeps its memories in memory.
\<close>

declare print.simps [simp del]

section \<open>Requests to a wired process\<close>

definition api_call :: "'n host_env \<Rightarrow> 'n hydra \<Rightarrow> request_env \<times> serve_env \<Rightarrow> http_request \<Rightarrow>
    meta_heap \<times> 'n world \<Rightarrow> writer \<times> (meta_heap \<times> 'n world)" where
  "api_call he hy env rq = serve_http (he_ft he) (fst env) (hy_gateway hy (snd env)) rq"

fun api_traffic :: "'n host_env \<Rightarrow> 'n hydra \<Rightarrow> ((request_env \<times> serve_env) \<times> http_request) list \<Rightarrow>
    meta_heap \<times> 'n world \<Rightarrow> writer list \<times> (meta_heap \<times> 'n world)" where
  "api_traffic he hy [] s = ([], s)"
| "api_traffic he hy ((env, rq) # rqs) s =
     (let (w, s1) = api_call he hy env rq s; (ws, s2) = api_traffic he hy rqs s1 in (w # ws, s2))"

text \<open>A client's call: a POST with a trace ID and a body.\<close>

definition api_post :: "string \<Rightarrow> string \<Rightarrow> raw \<Rightarrow> http_request" where
  "api_post action trace b =
     \<lparr>rq_method = ''POST'', rq_path = ''/api/v1/'' @ action,
      rq_header = (\<lambda>k. if k = ''X-Trace-ID'' then trace else []), rq_body = Inr b\<rparr>"

section \<open>What each handler does to the state\<close>

abbreviation memories :: "'n world \<Rightarrow> mem_store" where
  "memories s \<equiv> fst (co_memory s)"

definition local_plane :: "'n memory_state memory_plane" where
  "local_plane = plane_on fst (\<lambda>s w. (s, snd w)) inmemory_plane"

lemma local_plane_simps:
  "mp_alloc local_plane m w = (length (ms_heap (fst w)), ((fst w)\<lparr>ms_heap := ms_heap (fst w) @ [m]\<rparr>, snd w))"
  "mp_load local_plane w = (\<lambda>r. ms_heap (fst w) ! r)" "mp_nil local_plane"
  "plane_store (mp_provider local_plane) r w =
     (case mem_write r (fst w) of Inl e \<Rightarrow> (Inl e, w) | Inr s \<Rightarrow> (Inr (), (s, snd w)))"
  "plane_search (mp_provider local_plane) ks q w = (fst (mem_search ks q (fst w)), w)"
  by (simp_all add: local_plane_def plane_on_def inmemory_plane_def inmemory_def plane_store_def plane_search_def
      mem_search_def Let_def split: sum.split)

definition store_record :: "serve_env \<Rightarrow> store_request \<Rightarrow> memory" where
  "store_record se sr =
     (new_memory (se_uuid se 0) (se_now se) (if st_type sr = [] then semantic else st_type sr) (st_content sr)
        (if st_actor sr = [] then ''anonymous'' else st_actor sr)
        (if st_tenant sr = [] then ''default'' else st_tenant sr))\<lparr>mem_tags := st_tags sr\<rparr>"

text \<open>The engine with nothing but entries added to its audit log.\<close>

definition audited :: "engine \<Rightarrow> engine \<Rightarrow> bool" where
  "audited e e' \<longleftrightarrow> (\<exists>log. e' = e\<lparr>eng_audit := eng_audit e @ log\<rparr>)"

lemma audited_simps [simp]: "audited e e" "audited e (audit now t a act ok why e)"
  by (auto simp: audited_def audit_def intro: exI [of _ "[]"])

lemma audited_trans: "audited e e' \<Longrightarrow> audited e' e'' \<Longrightarrow> audited e e''"
  by (auto simp: audited_def)

lemma spawn_frame:
  "spawn i now n opts env fin rt = (res, rt') \<Longrightarrow> rt_executor rt' = rt_executor rt \<and> rt_tools rt' = rt_tools rt"
  by (auto simp: spawn_def spawn_begin_def spawn_end_def Let_def split: prod.splits)

lemma chat_effect:
  assumes "chat_handler se req (h, s) = (out, (h', s'))"
  shows "h' = h \<and> audited (co_policy s) (co_policy s') \<and>
    (co_bus s' = co_bus s \<or> co_bus s' = bus_notify ''agent.completed'' req (co_bus s)) \<and>
    co_memory s' = co_memory s \<and> co_exec s' = co_exec s \<and> co_jobs s' = co_jobs s \<and> co_gateway s' = co_gateway s \<and>
    rt_executor (co_runtime s') = rt_executor (co_runtime s) \<and> rt_tools (co_runtime s') = rt_tools (co_runtime s)"
proof (cases "dec_chat (env_payload req)")
  case (Inl e)
  with assms show ?thesis by (simp add: chat_handler_def)
next
  case (Inr cr)
  define actor where "actor = (if actor_id (cr_actor cr) = [] then anonymous_chat else cr_actor cr)"
  define ten where "ten = (if tenant_id (cr_tenant cr) = [] then default_tenant else cr_tenant cr)"
  obtain a err rt where sp: "spawn (se_uuid se 0) (se_now se) ''echo-agent'' [WithContext (new_context (se_uuid se 3) actor ten)]
      (echo_env (se_now se) (cr_message cr)) (se_now se) (co_runtime s) = ((a, err), rt)" by (metis surj_pair)
  from assms Inr sp spawn_frame [OF sp] show ?thesis
    by (cases err) (auto simp: chat_handler_def authorize_cases Let_def actor_def [symmetric] ten_def [symmetric] split: if_splits)
qed

lemma submit_frame: "submit now r p = (res, p') \<Longrightarrow> pl_heap p' = pl_heap p \<and> pl_handler p' = pl_handler p \<and>
    pl_jobs p' = (pl_jobs p)(job_id (pl_heap p r) \<mapsto> r)"
  using plane_schedule_frame(1-3) [of now r "register_job r p"] by (simp add: submit_def register_job_def)

lemma task_effect:
  assumes "task_handler se req (h, s) = (out, (h', s'))"
  shows "h' = h \<and> audited (co_policy s) (co_policy s') \<and>
    co_bus s' = co_bus s \<and> co_memory s' = co_memory s \<and> co_gateway s' = co_gateway s \<and>
    co_runtime s' = co_runtime s \<and> co_jobs s \<le> co_jobs s' \<and> (\<forall>r < co_jobs s. pl_heap (co_exec s') r = pl_heap (co_exec s) r) \<and>
    pl_handler (co_exec s') = pl_handler (co_exec s)"
  using assms
  by (auto simp: task_handler_def authorize_cases Let_def dest!: submit_frame
      split: sum.splits prod.splits option.splits if_splits)

lemma store_effect:
  assumes "store_handler local_plane se req (h, s) = (out, (h', s'))"
  shows "h' = h \<and>
    (case dec_store (env_payload req) of
       Inl e \<Rightarrow> out = Failure (invalid_payload e) \<and> s' = s
     | Inr sr \<Rightarrow>
         let m = store_record se sr; ms = memories s; r = length (ms_heap ms);
             ms' = ms\<lparr>ms_heap := ms_heap ms @ [m]\<rparr>
         in if ms_index ms (mem_id m) = None
            then s' = s\<lparr>co_memory := (ms'\<lparr>ms_index := (ms_index ms)(mem_id m \<mapsto> r)\<rparr>, snd (co_memory s)),
                        co_bus := bus_notify ''memory.stored'' req (co_bus s)\<rparr> \<and>
                 out = respond se ''memory.store'' (no_actor\<lparr>actor_id := mem_actor m\<rparr>) (no_tenant\<lparr>tenant_id := mem_tenant m\<rparr>) req
                   (Inr (print (JObj [(''memory_id'', JStr (mem_id m)), (''type'', JStr (mem_type m))])))
            else s' = s\<lparr>co_memory := (ms', snd (co_memory s))\<rparr> \<and> (\<exists>e. out = Failure e))"
proof -
  have spec: "mem_id (store_record se sr) = se_uuid se 0"
    "mem_actor (store_record se sr) = (if st_actor sr = [] then ''anonymous'' else st_actor sr)"
    "mem_tenant (store_record se sr) = (if st_tenant sr = [] then ''default'' else st_tenant sr)" for sr
    by (simp_all add: store_record_def new_memory_def)
  show ?thesis
  proof (cases "dec_store (env_payload req)")
    case (Inl e)
    with assms show ?thesis by (simp add: store_handler_def)
  next
    case (Inr sr)
    define m where "m = store_record se sr"
    have run: "store_handler local_plane se req (h, s) =
        (let (r, ms) = mp_alloc local_plane m (co_memory s);
             (res, ms) = plane_store (mp_provider local_plane) r ms;
             s = s\<lparr>co_memory := ms\<rparr>
         in case res of
              Inl e \<Rightarrow> (Failure e, (h, s))
            | Inr _ \<Rightarrow>
                (respond se ''memory.store'' (no_actor\<lparr>actor_id := mem_actor m\<rparr>) (no_tenant\<lparr>tenant_id := mem_tenant m\<rparr>) req
                   (Inr (print (JObj [(''memory_id'', JStr (mem_id (mp_load local_plane ms r))),
                                      (''type'', JStr (mem_type (mp_load local_plane ms r)))]))),
                 (h, s\<lparr>co_bus := bus_notify ''memory.stored'' req (co_bus s)\<rparr>)))"
      unfolding m_def spec by (simp only: store_handler_def store_record_def Inr sum.case Let_def prod.case)
    have w: "mem_write (length (ms_heap ms)) (ms\<lparr>ms_heap := ms_heap ms @ [m]\<rparr>) =
        (if ms_index ms (mem_id m) = None
         then Inr (ms\<lparr>ms_heap := ms_heap ms @ [m], ms_index := (ms_index ms)(mem_id m \<mapsto> length (ms_heap ms))\<rparr>)
         else Inl (Errf ''memory %q already exists'' [FStr (mem_id m)]))" for ms
      by (simp add: mem_write_def split: option.split)
    show ?thesis
      using assms unfolding run Inr sum.case m_def [symmetric]
      by (auto simp: Let_def local_plane_simps w split: if_splits)
  qed
qed

lemma search_effect:
  assumes "search_handler ff ft local_plane se req (h, s) = (out, (h', s'))"
  shows "h' = h \<and> s' = s \<and>
    (case dec_search (env_payload req) of
       Inl e \<Rightarrow> out = Failure (invalid_payload e)
     | Inr q \<Rightarrow> \<exists>rs. mem_search (se_keys se) q (memories s) = (Inr rs, memories s) \<and>
         out = respond se ''memory.search'' no_actor no_tenant req
           (map_sum id (\<lambda>v. print (JObj [(''count'', JNum (show_int (int (length rs)))), (''results'', v)]))
             (results_json ff ft True (map (\<lambda>r. ms_heap (memories s) ! r) rs))))"
proof (cases "dec_search (env_payload req)")
  case (Inl e)
  with assms show ?thesis by (simp add: search_handler_def)
next
  case (Inr q)
  obtain rs where rs: "mem_search (se_keys se) q (memories s) = (Inr rs, memories s)"
    by (simp add: mem_search_def Let_def)
  have "s\<lparr>co_memory := co_memory s\<rparr> = s" by simp
  with assms Inr rs show ?thesis by (auto simp: search_handler_def local_plane_simps Let_def)
qed

lemma health_effect: "health_handler se reg req (h, s) = (out, (h', s')) \<Longrightarrow> h' = h \<and> s' = s"
  by (simp add: health_handler_def Let_def)

section \<open>What every call keeps\<close>

text \<open>Stored records are filed under their IDs and can be marshalled; the bus is in order.\<close>

definition api_inv :: "'n world \<Rightarrow> bool" where
  "api_inv s \<longleftrightarrow> mem_store_inv (memories s) \<and> bus_inv (co_bus s) \<and>
     (\<forall>i m. stored (memories s) i = Some m \<longrightarrow> (\<exists>j. payload_json (mem_content m) = Inr j))"

text \<open>A later state: the audit log has grown, records and jobs are still what they were.\<close>

definition api_later :: "'n world \<Rightarrow> 'n world \<Rightarrow> bool" where
  "api_later s s' \<longleftrightarrow> audited (co_policy s) (co_policy s') \<and>
     stored (memories s) \<subseteq>\<^sub>m stored (memories s') \<and> co_jobs s \<le> co_jobs s' \<and>
     (\<forall>r < co_jobs s. pl_heap (co_exec s') r = pl_heap (co_exec s) r) \<and>
     pl_handler (co_exec s') = pl_handler (co_exec s) \<and> co_gateway s' = co_gateway s \<and>
     rt_executor (co_runtime s') = rt_executor (co_runtime s) \<and> rt_tools (co_runtime s') = rt_tools (co_runtime s)"

lemma api_later_refl [simp]: "api_later s s"
  by (simp add: api_later_def)

lemma api_later_trans: "api_later s s' \<Longrightarrow> api_later s' s'' \<Longrightarrow> api_later s s''"
  by (auto simp: api_later_def intro: audited_trans map_le_trans)

lemma bus_notify_inv: "bus_inv b \<Longrightarrow> bus_inv (bus_notify ty req b)"
  by (cases "publish \<lparr>ev_type = ty, ev_payload = env_payload req, ev_trace = env_trace req,
        ev_time = zero_time\<rparr> b")
    (use bus_exec_inv [of b "Op_Publish _"] in \<open>fastforce simp: bus_notify_def\<close>)

text \<open>Allocating a record, and filing it under an ID that is free.\<close>

lemma stored_alloc:
  assumes "mem_store_inv ms"
  shows "mem_store_inv (ms\<lparr>ms_heap := ms_heap ms @ [m]\<rparr>)" "stored (ms\<lparr>ms_heap := ms_heap ms @ [m]\<rparr>) = stored ms"
proof -
  have r: "r < length (ms_heap ms)" if "ms_index ms i = Some r" for i r
    using assms that by (auto simp: mem_store_inv_def)
  with assms show "mem_store_inv (ms\<lparr>ms_heap := ms_heap ms @ [m]\<rparr>)"
    by (auto simp: mem_store_inv_def nth_append intro: less_SucI)
  show "stored (ms\<lparr>ms_heap := ms_heap ms @ [m]\<rparr>) = stored ms"
  proof
    fix i
    show "stored (ms\<lparr>ms_heap := ms_heap ms @ [m]\<rparr>) i = stored ms i"
      using r [of i] by (cases "ms_index ms i") (auto simp: stored_def nth_append)
  qed
qed

lemma stored_file:
  assumes "mem_store_inv ms" "ms_index ms (mem_id m) = None"
  defines "ms' \<equiv> ms\<lparr>ms_heap := ms_heap ms @ [m], ms_index := (ms_index ms)(mem_id m \<mapsto> length (ms_heap ms))\<rparr>"
  shows "mem_store_inv ms'" "stored ms' = (stored ms)(mem_id m \<mapsto> m)"
proof -
  have r: "r < length (ms_heap ms)" if "ms_index ms i = Some r" for i r
    using assms(1) that by (auto simp: mem_store_inv_def)
  with assms(1,2) show "mem_store_inv ms'"
    by (auto simp: ms'_def mem_store_inv_def nth_append less_Suc_eq split: if_splits)
  show "stored ms' = (stored ms)(mem_id m \<mapsto> m)"
  proof
    fix i
    show "stored ms' i = ((stored ms)(mem_id m \<mapsto> m)) i"
      using r [of i] by (cases "ms_index ms i") (auto simp: ms'_def stored_def nth_append)
  qed
qed

lemma dec_store_content: "dec_store p = Inr sr \<Longrightarrow> \<exists>j. payload_json (st_content sr) = Inr j"
  by (auto simp: dec_store_def bind_Inr dest: raw_field_marshals)

lemma store_keeps:
  assumes "store_handler local_plane se req (h, s) = (out, (h', s'))" "api_inv s"
  shows "h' = h \<and> api_inv s' \<and> api_later s s'"
proof (cases "dec_store (env_payload req)")
  case (Inl e)
  with store_effect [OF assms(1)] assms(2) show ?thesis by simp
next
  case (Inr sr)
  have inv: "mem_store_inv (memories s)" using assms(2) by (simp add: api_inv_def)
  define m where "m = store_record se sr"
  have c: "\<exists>j. payload_json (mem_content m) = Inr j"
    using dec_store_content [OF Inr] by (simp add: m_def store_record_def new_memory_def)
  note effect = store_effect [OF assms(1), unfolded Inr sum.case, folded m_def, unfolded Let_def]
  show ?thesis
  proof (cases "ms_index (memories s) (mem_id m) = None")
    case True
    have free: "stored (memories s) (mem_id m) = None" using True by (simp add: stored_def)
    from effect True stored_file [OF inv True] c free assms(2) show ?thesis
      by (auto simp: api_inv_def api_later_def bus_notify_inv map_le_def)
  next
    case False
    with effect stored_alloc [OF inv, of m] assms(2) show ?thesis
      by (auto simp: api_inv_def api_later_def)
  qed
qed

lemma chat_keeps:
  "chat_handler se req (h, s) = (out, (h', s')) \<Longrightarrow> api_inv s \<Longrightarrow> h' = h \<and> api_inv s' \<and> api_later s s'"
  using chat_effect [of se req h s out h' s'] by (auto simp: api_inv_def api_later_def bus_notify_inv)

lemma task_keeps:
  "task_handler se req (h, s) = (out, (h', s')) \<Longrightarrow> api_inv s \<Longrightarrow> h' = h \<and> api_inv s' \<and> api_later s s'"
  using task_effect [of se req h s out h' s'] by (auto simp: api_inv_def api_later_def)

section \<open>One call\<close>

text \<open>The routes of a process that keeps its memories in memory.\<close>

definition in_memory_api :: "'n host_env \<Rightarrow> 'n hydra \<Rightarrow> bool" where
  "in_memory_api he hy \<longleftrightarrow> (\<exists>host port. hy_gateway hy = (\<lambda>se.
     register_handlers (he_ff he) (he_ft he) local_plane se (hy_heads hy) (new_gateway host port)))"

lemma wire_api: "wire he n c = Inr hy \<Longrightarrow> choose_provider c = In_Memory \<Longrightarrow> in_memory_api he hy"
  by (auto simp: wire_def in_memory_api_def memory_plane_of_def local_plane_def Let_def split: sum.splits intro!: exI)

lemma started_api:
  assumes "hydra_start he order n loaded = Inr hy" "choose_provider (hy_config hy) = In_Memory"
  shows "in_memory_api he hy"
proof -
  obtain hy0 w where hy: "wire he n (choose_config loaded) = Inr hy0" "hy = hy0\<lparr>hy_core := w\<rparr>"
    using assms(1) by (auto simp: hydra_start_def Let_def split: sum.splits prod.splits)
  have "hy_config hy0 = choose_config loaded"
    using wire_ok [of he n "choose_config loaded"] hy(1) by auto
  with wire_api [OF hy(1)] assms(2) hy(2) show ?thesis by (simp add: in_memory_api_def)
qed

lemma routes_split:
  assumes "gw_routes (register_handlers ff ft mp se reg (new_gateway host port)) action = Some f"
    and "P ''chat'' (chat_handler se)" "P ''task'' (task_handler se)" "P ''memory.store'' (store_handler mp se)"
    and "P ''memory.search'' (search_handler ff ft mp se)" "P ''health'' (health_handler se reg)"
  shows "P action f"
  using register_handlers_cases [OF assms(1)] assms(2-) unfolding insert_iff empty_iff prod.inject by metis

lemma route_keeps:
  assumes "gw_routes (register_handlers ff ft local_plane se reg (new_gateway host port)) action = Some f"
    and "f req (h, s) = (out, (h', s'))" "api_inv s"
  shows "h' = h \<and> api_inv s' \<and> api_later s s' \<and> answers action req out"
proof -
  let ?P = "\<lambda>action f. \<forall>out h' s'. f req (h, s) = (out, (h', s')) \<longrightarrow>
      h' = h \<and> api_inv s' \<and> api_later s s' \<and> answers action req out"
  have "?P action f"
  proof (rule routes_split [OF assms(1), where P = ?P])
    show "?P ''chat'' (chat_handler se)"
      using handlers_answer(1) [of req se "(h, s)"] chat_keeps [OF _ assms(3)] by fastforce
    show "?P ''task'' (task_handler se)"
      using handlers_answer(2) [of req se "(h, s)"] task_keeps [OF _ assms(3)] by fastforce
    show "?P ''memory.store'' (store_handler local_plane se)"
      using handlers_answer(3) [of req local_plane se "(h, s)"] store_keeps [OF _ assms(3)] by fastforce
    show "?P ''memory.search'' (search_handler ff ft local_plane se)"
      using handlers_answer(4) [of req ff ft local_plane se "(h, s)"] search_effect [of ff ft se req h s] assms(3)
      by fastforce
    show "?P ''health'' (health_handler se reg)"
      using handlers_answer(5) [of req se reg "(h, s)"] health_effect [of se reg req h s] assms(3) by fastforce
  qed
  with assms(2) show ?thesis by blast
qed

text \<open>
  A proper response: the redirect to the clean path, or one of the statuses of the gateway and
  no recovered panic, since a 500 carries a handler's error and the trace ID of its request.
\<close>

definition api_response :: "request_env \<times> serve_env \<Rightarrow> http_request \<Rightarrow> writer \<Rightarrow> bool" where
  "api_response env rq w \<longleftrightarrow>
     (case mux_target (rq_method rq) (rq_path rq) of
        M_Redirect p \<Rightarrow> wr_status w = Some (re_moved (fst env)) \<and> wr_headers w ''Location'' = Some (path_escape p)
      | _ \<Rightarrow> (\<exists>st \<in> {200, 204, 400, 404, 405, 500}. wr_status w = Some st) \<and>
          (wr_status w = Some 500 \<longrightarrow>
            (\<exists>err. wr_body w = print (error_json (req_trace (fst env) rq) (err_text err)) @ [CHR 0x0A])))"

text \<open>The strings of a request that a response can repeat.\<close>

definition rq_utf8 :: "http_request \<Rightarrow> bool" where
  "rq_utf8 rq \<longleftrightarrow> list_all utf8_ok (map segment (split_path (rq_path rq)) @ [rq_header rq ''X-Trace-ID''] @
     (case rq_body rq of Inr b \<Rightarrow> [b] | Inl _ \<Rightarrow> []))"

text \<open>A call is refused by the gateway or runs the handler of its action.\<close>

lemma api_call_cases [consumes 2, case_names refused ran]:
  assumes "hy_gateway hy (snd env) = register_handlers ff ft mp (snd env) reg (new_gateway host port)"
    and "api_call he hy env rq (h, s) = (w, (h', s'))"
  obtains "s' = s" "api_response env rq w"
  | action f e h1 out where
    "gw_routes (register_handlers ff ft mp (snd env) reg (new_gateway host port)) action = Some f"
    "mux_target (rq_method rq) (rq_path rq) = M_Action action"
    "f e (h1, s) = (out, (h', s'))" "w = answer_writer (he_ft he) (re_keys (fst env)) (req_trace (fst env) rq) h' out"
proof -
  let ?g = "hy_gateway hy (snd env)"
  have serve: "serve_http (he_ft he) (fst env) ?g rq (h, s) = (w, (h', s'))"
    using assms(2) by (simp add: api_call_def)
  show thesis
  proof (cases "mux_target (rq_method rq) (rq_path rq)")
    case (M_Action action)
    show thesis
    proof (cases "judge ?g action rq = V_Run")
      case False
      with serve_refused [OF M_Action False, of "he_ft he" "fst env" "(h, s)"] refusal_status [OF False] serve that(1) M_Action
      show thesis by (auto simp: api_response_def)
    next
      case True
      then obtain f b where f: "rq_method rq = ''POST''" "gw_routes ?g action = Some f" "rq_body rq = Inr b" "body_ok b"
        using judge_run [OF True] by auto
      obtain e h1 where eh: "request_envelope (re_uuid2 (fst env)) (re_now (fst env)) (req_trace (fst env) rq) action b
          (rq_header rq ''Authorization'') (fst (h, s)) = (e, h1)" by force
      obtain out h2 s2 where out: "f e (h1, snd (h, s)) = (out, (h2, s2))" by (metis surj_pair)
      have "w = answer_writer (he_ft he) (re_keys (fst env)) (req_trace (fst env) rq) h2 out \<and> h' = h2 \<and> s' = s2"
        using serve_run [OF M_Action f eh out, of "he_ft he"] serve by auto
      with f(2) out that(2) M_Action show thesis unfolding assms(1) by simp
    qed
  qed (use serve that(1) in \<open>auto simp: serve_http_def own_writers api_response_def\<close>)
qed

lemma api_call_keeps:
  assumes "in_memory_api he hy" "api_inv s" "api_call he hy env rq (h, s) = (w, (h', s'))"
  shows "api_inv s' \<and> api_later s s' \<and> api_response env rq w"
proof -
  obtain host port where gw: "hy_gateway hy (snd env) =
      register_handlers (he_ff he) (he_ft he) local_plane (snd env) (hy_heads hy) (new_gateway host port)"
    using assms(1) by (auto simp: in_memory_api_def)
  from gw assms(3) show ?thesis
  proof (cases rule: api_call_cases)
    case refused
    with assms(2) show ?thesis by simp
  next
    case (ran action f e h1 out)
    from route_keeps [OF ran(1,3) assms(2)] ran(2,4) show ?thesis
      by (cases "(action, e, out)" rule: answers.cases) (auto simp: write_json_ok write_error_cors api_response_def)
  qed
qed

section \<open>Traffic\<close>

lemma api_traffic_keeps:
  assumes "in_memory_api he hy" "api_inv s" "api_traffic he hy rqs (h, s) = (wrs, (h', s'))"
  shows "api_inv s' \<and> api_later s s' \<and> list_all2 (\<lambda>(env, rq). api_response env rq) rqs wrs"
  using assms(2-)
proof (induction rqs arbitrary: h s wrs)
  case (Cons erq rqs)
  obtain env rq where erq: "erq = (env, rq)" by (cases erq)
  obtain w h1 s1 where one: "api_call he hy env rq (h, s) = (w, (h1, s1))" by (metis surj_pair)
  obtain wrs1 where rest: "api_traffic he hy rqs (h1, s1) = (wrs1, (h', s'))" "wrs = w # wrs1"
    using Cons.prems(2) erq one by (auto split: prod.splits)
  note c = api_call_keeps [OF assms(1) Cons.prems(1) one]
  with Cons.IH [OF _ rest(1)] rest(2) erq show ?case by (auto intro: api_later_trans)
qed simp

lemma start_inv:
  assumes "hydra_start he order n loaded = Inr hy" "set order = set head_list"
  shows "api_inv (hy_core hy) \<and> memories (hy_core hy) = new_store []"
proof -
  obtain hy0 where hy0: "wire he n (choose_config loaded) = Inr hy0"
    using wire_ok [of he n "choose_config loaded"] by blast
  have hy: "hy = hy0\<lparr>hy_core := started order (hy_core hy0)\<rparr>"
    using assms(1) hy0 start_cases(1) [OF assms(2) HOL.refl, of he n loaded] by (simp split: sum.splits)
  have "memories (hy_core hy0) = new_store []" "co_bus (hy_core hy0) = new_bus"
    using hy0 by (auto simp: wire_def Let_def split: sum.splits)
  then show ?thesis unfolding hy by (simp add: started_def api_inv_def stored_def new_store_def mem_store_inv_def)
qed

section \<open>A call that reaches its handler\<close>

lemma obj_fields_body_ok: "obj_fields b = Inr fs \<Longrightarrow> body_ok b"
  by (auto simp: obj_fields_def body_ok_def split: option.splits json.splits)

lemma api_post_run:
  assumes "in_memory_api he hy" "plain_segment a" "trace \<noteq> []" "body_ok b"
    and "\<And>host port. gw_routes (register_handlers (he_ff he) (he_ft he) local_plane se (hy_heads hy) (new_gateway host port)) a = Some f"
    and "api_call he hy (re, se) (api_post a trace b) (h, s) = (w, (h', s'))"
  shows "\<exists>e h1 out. env_trace e = trace \<and> env_payload e = b \<and> f e (h1, s) = (out, (h', s')) \<and>
    w = answer_writer (he_ft he) (re_keys re) trace h' out"
proof -
  obtain host port where gw: "hy_gateway hy se =
      register_handlers (he_ff he) (he_ft he) local_plane se (hy_heads hy) (new_gateway host port)"
    using assms(1) by (auto simp: in_memory_api_def)
  let ?rq = "api_post a trace b"
  have rq: "mux_target (rq_method ?rq) (rq_path ?rq) = M_Action a" "rq_method ?rq = ''POST''" "rq_body ?rq = Inr b" "req_trace re ?rq = trace"
    using assms(2,3) mux_api [OF assms(2)] by (simp_all add: api_post_def req_trace_def)
  obtain e h1 where eh: "request_envelope (re_uuid2 re) (re_now re) (req_trace re ?rq) a b
      (rq_header ?rq ''Authorization'') (fst (h, s)) = (e, h1)" by force
  obtain out h2 s2 where out: "f e (h1, snd (h, s)) = (out, (h2, s2))" by (metis surj_pair)
  from serve_run [where ft = "he_ft he", OF rq(1,2) assms(5) [of host port] rq(3) assms(4) eh out] assms(6) rq(4)
  have "w = answer_writer (he_ft he) (re_keys re) trace h2 out" "h' = h2" "s' = s2"
    by (auto simp: api_call_def gw)
  with request_envelope_fields [OF eh] out rq(4) show ?thesis by auto
qed

text \<open>What a client reads from the response of a handler that answered with a value.\<close>

lemma answer_decodes:
  assumes "json_ok v" "rt (ft (se_now se)) = Some (se_now se)"
  shows "wr_status (answer_writer ft [] trace h (respond se a actor ten req (Inr (print v)))) = Some 200 \<and>
    (\<exists>e. decode_envelope rt (wr_body (answer_writer ft [] trace h (respond se a actor ten req (Inr (print v))))) h = Inr (e, h) \<and>
      env_trace e = env_trace req \<and> env_type e = env_response \<and> env_action e = a \<and> env_actor e = actor \<and>
      env_tenant e = ten \<and> parse (env_payload e) = Some v)"
proof -
  let ?e = "(new_envelope (se_uuid se 1) (se_uuid se 2) (se_now se) env_response a actor ten)
      \<lparr>env_trace := env_trace req, env_payload := print v\<rparr>"
  obtain j where j: "envelope_json ft h [] ?e = Inr j" "decode_envelope rt (print j @ [CHR 0x0A]) h = Inr (?e, h)"
    using decode_response [of ?e v rt ft h h] assms by (auto simp: new_envelope_def)
  have body: "wr_body (write_json 200 (Inr j) (set_cors new_writer)) = print j @ [CHR 0x0A]"
    by (simp add: writer_defs)
  from j parse_print [OF assms(1)] show ?thesis
    by (simp add: respond_Inr write_json_ok body) (simp add: new_envelope_def)
qed

section \<open>Storing and searching\<close>

lemma all_results_total:
  assumes "\<forall>x \<in> set xs. \<exists>y. f x = Inr y \<and> P y"
  shows "\<exists>ys. all_results (map f xs) = Inr ys \<and> length ys = length xs \<and> (\<forall>y \<in> set ys. P y) \<and>
    (\<forall>x \<in> set xs. \<exists>y \<in> set ys. f x = Inr y)"
  using assms
proof (induction xs)
  case (Cons x xs)
  then obtain ys where "all_results (map f xs) = Inr ys" "length ys = length xs" "\<forall>y \<in> set ys. P y"
    "\<forall>x \<in> set xs. \<exists>y \<in> set ys. f x = Inr y" by auto
  moreover obtain y where "f x = Inr y" "P y" using Cons.prems by auto
  ultimately show ?case by (intro exI [of _ "y # ys"]) auto
qed simp

lemma memory_json_total:
  assumes "\<And>q. num_ok (ff q)" "payload_json (mem_content m) = Inr c"
  shows "\<exists>v. memory_json ff ft m = Inr v \<and> json_ok v"
  using assms payload_json_ok [OF assms(2)] by (simp add: memory_json_def)

text \<open>A search whose limit is not reached answers with all records wanted.\<close>

lemma search_answer:
  assumes "api_inv s" "key_order (ms_index (memories s)) ks" "\<And>q. num_ok (ff q)"
    and "mem_search ks q (memories s) = (Inr rs, memories s)"
    and "card {i. \<exists>m. stored (memories s) i = Some m \<and> wanted q m} \<le> nat (search_limit q)"
    and "stored (memories s) i = Some m" "wanted q m"
  shows "\<exists>vs v. results_json ff ft True (map (\<lambda>r. ms_heap (memories s) ! r) rs) = Inr (JArr vs) \<and>
    length vs = length rs \<and> (\<forall>v \<in> set vs. json_ok v) \<and> memory_json ff ft m = Inr v \<and> v \<in> set vs"
proof -
  let ?ms = "memories s"
  have inv: "mem_store_inv ?ms" and content: "\<And>i m. stored ?ms i = Some m \<Longrightarrow> \<exists>j. payload_json (mem_content m) = Inr j"
    using assms(1) by (auto simp: api_inv_def)
  let ?W = "{i. \<exists>m. stored ?ms i = Some m \<and> wanted q m}"
  obtain hits where hits: "distinct hits" "set hits = {r. \<exists>i. ms_index ?ms i = Some r \<and> wanted q (ms_heap ?ms ! r)}"
    "rs = take (nat (search_limit q)) (sort_key (\<lambda>r. - mem_created (ms_heap ?ms ! r)) hits)"
    using mem_search_hits [OF inv assms(2,4)] by blast
  have "finite ?W" using inv by (auto simp: mem_store_inv_def stored_def intro: rev_finite_subset)
  moreover have "set hits = (\<lambda>i. the (ms_index ?ms i)) ` ?W"
    unfolding hits(2) by (force simp: stored_def)
  ultimately have "card (set hits) \<le> card ?W" by (simp add: card_image_le)
  then have rs: "set rs = set hits" using hits(1,3) assms(5) by (simp add: distinct_card)
  have "\<forall>r \<in> set rs. \<exists>v. memory_json ff ft (ms_heap ?ms ! r) = Inr v \<and> json_ok v"
  proof
    fix r assume "r \<in> set rs"
    then obtain j where "ms_index ?ms j = Some r" using rs hits(2) by auto
    then obtain c where "payload_json (mem_content (ms_heap ?ms ! r)) = Inr c"
      using content [of j "ms_heap ?ms ! r"] by (auto simp: stored_def)
    from memory_json_total [OF assms(3) this]
    show "\<exists>v. memory_json ff ft (ms_heap ?ms ! r) = Inr v \<and> json_ok v" .
  qed
  from all_results_total [OF this] obtain vs where
    vs: "all_results (map (\<lambda>r. memory_json ff ft (ms_heap ?ms ! r)) rs) = Inr vs" "length vs = length rs"
      "\<forall>v \<in> set vs. json_ok v" "\<forall>r \<in> set rs. \<exists>v \<in> set vs. memory_json ff ft (ms_heap ?ms ! r) = Inr v" by blast
  obtain r where r: "ms_index ?ms i = Some r" "m = ms_heap ?ms ! r" using assms(6) by (auto simp: stored_def)
  then have "r \<in> set rs" using rs hits(2) assms(7) by auto
  with vs(4) r(2) obtain v where "memory_json ff ft m = Inr v" "v \<in> set vs" by auto
  moreover have "rs \<noteq> []" using \<open>r \<in> set rs\<close> by auto
  ultimately show ?thesis using vs(1-3) by (auto simp: results_json_def comp_def)
qed

lemma register_handlers_routes:
  "gw_routes (register_handlers ff ft mp se reg g) ''memory.store'' = Some (store_handler mp se)"
  "gw_routes (register_handlers ff ft mp se reg g) ''memory.search'' = Some (search_handler ff ft mp se)"
  "gw_routes (register_handlers ff ft mp se reg g) ''task'' = Some (task_handler se)"
  "gw_routes (register_handlers ff ft mp se reg g) ''chat'' = Some (chat_handler se)"
  "gw_routes (register_handlers ff ft mp se reg g) ''health'' = Some (health_handler se reg)"
  by (simp_all add: register_handlers_def register_handler_def)

lemma plain_actions [simp]:
  "plain_segment ''memory.store''" "plain_segment ''memory.search''" "plain_segment ''task''" "plain_segment ''chat''"
  by (simp_all add: plain_segment_def)

lemma call_store:
  assumes "in_memory_api he hy" "api_inv s" "t \<noteq> []" "dec_store b = Inr sr" "re_keys re = []"
    and "ms_index (memories s) (se_uuid se 0) = None" "rt (he_ft he (se_now se)) = Some (se_now se)"
    and "api_call he hy (re, se) (api_post ''memory.store'' t b) (h, s) = (w, (h', s'))"
  shows "api_inv s' \<and> stored (memories s') = (stored (memories s))(se_uuid se 0 \<mapsto> store_record se sr) \<and>
    wr_status w = Some 200 \<and> (\<exists>e. decode_envelope rt (wr_body w) h' = Inr (e, h') \<and> env_trace e = t \<and>
      env_type e = env_response \<and> env_action e = ''memory.store'' \<and>
      parse (env_payload e) = Some (JObj [(''memory_id'', JStr (se_uuid se 0)), (''type'', JStr (mem_type (store_record se sr)))]))"
proof -
  have ok: "body_ok b" using assms(4) by (auto simp: dec_store_def bind_Inr intro: obj_fields_body_ok)
  obtain e h1 out where e: "env_trace e = t" "env_payload e = b"
    "store_handler local_plane se e (h1, s) = (out, (h', s'))" "w = answer_writer (he_ft he) (re_keys re) t h' out"
    using api_post_run [OF assms(1) _ assms(3) ok register_handlers_routes(1) assms(8)] by auto
  let ?m = "store_record se sr"
  have id: "mem_id ?m = se_uuid se 0" by (simp add: store_record_def new_memory_def)
  have keeps: "api_inv s'" using store_keeps [OF e(3) assms(2)] by simp
  from store_effect [OF e(3)] assms(4,6) e(2) id have
    s': "memories s' = (memories s)\<lparr>ms_heap := ms_heap (memories s) @ [?m],
        ms_index := (ms_index (memories s))(mem_id ?m \<mapsto> length (ms_heap (memories s)))\<rparr>" and
    out: "out = respond se ''memory.store'' (no_actor\<lparr>actor_id := mem_actor ?m\<rparr>) (no_tenant\<lparr>tenant_id := mem_tenant ?m\<rparr>) e
        (Inr (print (JObj [(''memory_id'', JStr (mem_id ?m)), (''type'', JStr (mem_type ?m))])))"
    by (auto simp: Let_def)
  have stored': "stored (memories s') = (stored (memories s))(mem_id ?m \<mapsto> ?m)"
    unfolding s' by (rule stored_file(2)) (use assms(2,6) id in \<open>simp_all add: api_inv_def\<close>)
  have "json_ok (JObj [(''memory_id'', JStr (mem_id ?m)), (''type'', JStr (mem_type ?m))])" by simp
  from answer_decodes [where rt = rt and ft = "he_ft he" and trace = t and h = h' and req = e and a = "''memory.store''"
      and actor = "no_actor\<lparr>actor_id := mem_actor ?m\<rparr>" and ten = "no_tenant\<lparr>tenant_id := mem_tenant ?m\<rparr>", OF this assms(7)]
    keeps stored' e(1,4) assms(5) id
  show ?thesis unfolding out by auto
qed

lemma call_search:
  assumes "in_memory_api he hy" "api_inv s" "t \<noteq> []" "dec_search b = Inr q" "re_keys re = []"
    and "key_order (ms_index (memories s)) (se_keys se)" "\<And>x. num_ok (he_ff he x)"
    and "rt (he_ft he (se_now se)) = Some (se_now se)"
    and "card {i. \<exists>m. stored (memories s) i = Some m \<and> wanted q m} \<le> nat (search_limit q)"
    and "stored (memories s) i = Some m" "wanted q m"
    and "api_call he hy (re, se) (api_post ''memory.search'' t b) (h, s) = (w, (h', s'))"
  shows "s' = s \<and> wr_status w = Some 200 \<and>
    (\<exists>e vs v. decode_envelope rt (wr_body w) h' = Inr (e, h') \<and> env_trace e = t \<and>
      env_type e = env_response \<and> env_action e = ''memory.search'' \<and>
      parse (env_payload e) = Some (JObj [(''count'', JNum (show_int (int (length vs)))), (''results'', JArr vs)]) \<and>
      memory_json (he_ff he) (he_ft he) m = Inr v \<and> v \<in> set vs)"
proof -
  have ok: "body_ok b" using assms(4) by (auto simp: dec_search_def bind_Inr intro: obj_fields_body_ok)
  obtain e h1 out where e: "env_trace e = t" "env_payload e = b"
    "search_handler (he_ff he) (he_ft he) local_plane se e (h1, s) = (out, (h', s'))"
    "w = answer_writer (he_ft he) (re_keys re) t h' out"
    using api_post_run [OF assms(1) _ assms(3) ok register_handlers_routes(2) assms(12)] by auto
  from search_effect [OF e(3)] assms(4) e(2) obtain rs where
    rs: "mem_search (se_keys se) q (memories s) = (Inr rs, memories s)" and s': "s' = s" and
    out: "out = respond se ''memory.search'' no_actor no_tenant e
      (map_sum id (\<lambda>v. print (JObj [(''count'', JNum (show_int (int (length rs)))), (''results'', v)]))
        (results_json (he_ff he) (he_ft he) True (map (\<lambda>r. ms_heap (memories s) ! r) rs)))"
    by auto
  from search_answer [where ff = "he_ff he" and ft = "he_ft he", OF assms(2,6,7) rs assms(9-11)] obtain vs v where
    vs: "results_json (he_ff he) (he_ft he) True (map (\<lambda>r. ms_heap (memories s) ! r) rs) = Inr (JArr vs)"
      "length vs = length rs" "\<forall>v \<in> set vs. json_ok v" "memory_json (he_ff he) (he_ft he) m = Inr v" "v \<in> set vs" by blast
  have "json_ok (JObj [(''count'', JNum (show_int (int (length vs)))), (''results'', JArr vs)])" using vs(3) by simp
  from answer_decodes [where rt = rt and ft = "he_ft he" and trace = t and h = h' and req = e and a = "''memory.search''"
      and actor = no_actor and ten = no_tenant, OF this assms(8)] vs(1,2,4,5) e(1,4) assms(5) s'
  show ?thesis unfolding out by auto
qed

section \<open>Chat and tasks\<close>

lemma chat_outcome:
  assumes "dec_chat (env_payload req) = Inr cr" "0 \<le> sint (ex_retries (rt_executor (co_runtime s)))"
    and "chat_handler se req (h, s) = (out, (h', s'))"
  defines "actor \<equiv> if actor_id (cr_actor cr) = [] then anonymous_chat else cr_actor cr"
  defines "ten \<equiv> if tenant_id (cr_tenant cr) = [] then default_tenant else cr_tenant cr"
  defines "ok \<equiv> check_roles (eng_roles (co_policy s)) (actor_roles actor) perm_create_agent"
  shows "co_policy s' = audit (se_now se) (env_trace req) (actor_id actor) ''chat'' ok
      (if ok then ''allowed'' else ''permission denied'') (co_policy s) \<and>
    (if ok
     then out = respond se ''chat'' actor ten req (Inr (print (echo_json (cr_message cr) (se_uuid se 0)))) \<and>
       co_bus s' = bus_notify ''agent.completed'' req (co_bus s) \<and>
       (\<exists>a. get_agent (se_uuid se 0) (co_runtime s') = Inr a \<and> ag_state a = StateDone \<and>
         ag_result a = Some (echo_json (cr_message cr) (se_uuid se 0)))
     else out = Failure (Errf ''permission denied: %s'' [FStr perm_create_agent]) \<and> s' = s\<lparr>co_policy := co_policy s'\<rparr>)"
proof (cases ok)
  case False
  with assms(1,3) show ?thesis
    by (auto simp: chat_handler_def authorize_cases Let_def actor_def [symmetric] ok_def [symmetric])
next
  case True
  obtain a err rt where sp: "spawn (se_uuid se 0) (se_now se) ''echo-agent'' [WithContext (new_context (se_uuid se 3) actor ten)]
      (echo_env (se_now se) (cr_message cr)) (se_now se) (co_runtime s) = ((a, err), rt)" by (metis surj_pair)
  note agent = echo_spawn [OF assms(2) sp]
  from assms(1,3) True sp agent show ?thesis
    by (auto simp: chat_handler_def authorize_cases Let_def actor_def [symmetric] ten_def [symmetric] ok_def [symmetric])
qed

text \<open>What the roles of a started process allow, whatever its traffic has been.\<close>

lemma tools_frame: "put_all (\<lambda>_. register_tool) kvs rt = Inr rt' \<Longrightarrow> rt_executor rt' = rt_executor rt"
  by (induction kvs arbitrary: rt) (auto simp: register_tool_def split: sum.splits)

section \<open>From a posted task to a finished job\<close>

text \<open>The plane runs and has nothing to do.\<close>

definition idle :: "plane \<Rightarrow> bool" where
  "idle p \<longleftrightarrow> mem_queue_inv (pl_queue p) \<and> \<not> mq_closed (pl_queue p) \<and> \<not> pl_cancelled p \<and> pl_worker p = W_Loop \<and>
     queue_items (pl_queue p) = [] \<and> sch_pending (pl_sched p) = []"

lemma submit_solo:
  assumes "idle p" "run_after (pl_heap p r) = zero_time" "submit now r p = (res, p')"
  shows "res = Inr () \<and> solo r p'"
proof -
  have p: "mem_queue_inv (pl_queue (register_job r p))" and run: "plane_schedule now r (register_job r p) = (res, p')"
    using assms by (simp_all add: idle_def register_job_def submit_def)
  from plane_schedule_cases [OF p run] assms(1,2) have "res = Inr ()"
    by (cases res) (auto simp: idle_def register_job_def queue_capacity_def)
  moreover have "pl_cancelled p' = pl_cancelled p" "pl_worker p' = pl_worker p" "pl_heap p' = pl_heap p"
    using plane_schedule_frame [of now r "register_job r p", unfolded run] by (simp_all add: register_job_def)
  ultimately show ?thesis using plane_schedule_cases [OF p run] assms(1,2)
    by (auto simp: idle_def register_job_def solo_def)
qed

lemma cycle_jobs [simp]: "pl_jobs (cycle now p) = pl_jobs p"
proof -
  have top: "pl_jobs (worker_top q) = pl_jobs q" for q
    by (simp add: worker_top_def split: prod.split sum.split option.split)
  have "pl_jobs (worker_round now q) = pl_jobs q" for q
    by (simp add: worker_round_def Let_def worker_resched_def worker_call_def worker_mark_def worker_handler_def top
        split: worker.split prod.split)
  then show ?thesis by (simp add: cycle_def plane_flush_def)
qed

lemma solo_completes:
  assumes "solo r p" "run_after (pl_heap p r) \<le> now" "pl_handler p = (\<lambda>t j. (j, None))"
  shows "pl_heap (cycle now p) r = finish_ok now ((pl_heap p r)\<lparr>job_state := JobRunning,
    attempts := attempts (pl_heap p r) + 1, started_at := now\<rparr>)"
  using cycle_solo [OF assms(1,2)] assms(3) by simp

lemma started_core:
  assumes "hydra_start he order n loaded = Inr hy" "set order = set head_list"
  shows "co_policy (hy_core hy) = engine_start new_engine \<and> gw_running (co_gateway (hy_core hy)) \<and>
    rt_executor (co_runtime (hy_core hy)) = new_executor [] \<and> pl_handler (co_exec (hy_core hy)) = (\<lambda>t j. (j, None)) \<and>
    register_heads (main_heads (he_listen he) (he_shutdown he) (he_waits he)) = Inr (hy_heads hy) \<and>
    idle (co_exec (hy_core hy)) \<and> co_exec (hy_core hy) = plane_start (new_plane (he_jobs he) (he_now he))"
proof -
  obtain hy0 where hy0: "wire he n (choose_config loaded) = Inr hy0" "co_policy (hy_core hy0) = new_engine"
    "register_heads (main_heads (he_listen he) (he_shutdown he) (he_waits he)) = Inr (hy_heads hy0)"
    using wire_ok [of he n "choose_config loaded"] by blast
  have hy: "hy = hy0\<lparr>hy_core := started order (hy_core hy0)\<rparr>"
    using assms(1) hy0(1) start_cases(1) [OF assms(2) HOL.refl, of he n loaded] by (simp split: sum.splits)
  obtain rt where rt: "register_tools (main_tools he (choose_config loaded)) new_runtime = Inr rt" "co_runtime (hy_core hy0) = rt"
    "co_exec (hy_core hy0) = new_plane (he_jobs he) (he_now he)"
    using hy0(1) by (auto simp: wire_def Let_def split: sum.splits)
  have "rt_executor rt = new_executor []"
    using tools_frame [OF rt(1) [unfolded register_tools_def]] by (simp add: new_runtime_def)
  with hy0(2,3) rt(2,3) show ?thesis unfolding hy
    by (simp add: started_def assms(2) head_list_def plane_start_def new_plane_def idle_def new_scheduler_def)
qed

lemma start_grants:
  "check_roles (eng_roles (engine_start new_engine)) ns perm_create_agent \<longleftrightarrow> ''admin'' \<in> set ns \<or> ''agent'' \<in> set ns"
  "check_roles (eng_roles (engine_start new_engine)) ns perm_execute_task \<longleftrightarrow>
     ''admin'' \<in> set ns \<or> ''agent'' \<in> set ns \<or> ''human'' \<in> set ns"
  by (auto simp: check_roles_iff engine_start_def default_roles_def new_engine_def split: if_splits)

text \<open>The policy and the executor at any point of the traffic of a started process.\<close>

lemma traffic_state:
  assumes "hydra_start he order n loaded = Inr hy" "set order = set head_list"
    and "choose_provider (hy_config hy) = In_Memory" "api_traffic he hy rqs (h0, hy_core hy) = (wrs, (h, s))"
  shows "in_memory_api he hy \<and> api_inv s \<and> eng_roles (co_policy s) = eng_roles (engine_start new_engine) \<and>
    0 \<le> sint (ex_retries (rt_executor (co_runtime s))) \<and> gw_running (co_gateway s) \<and>
    pl_handler (co_exec s) = (\<lambda>t j. (j, None)) \<and>
    register_heads (main_heads (he_listen he) (he_shutdown he) (he_waits he)) = Inr (hy_heads hy)"
proof -
  note api = started_api [OF assms(1,3)] and core = started_core [OF assms(1,2)]
  have "api_inv s" "api_later (hy_core hy) s"
    using api_traffic_keeps [OF api conjunct1 [OF start_inv [OF assms(1,2)]] assms(4)] by blast+
  with core api show ?thesis
    by (auto simp: api_later_def audited_def new_executor_def)
qed

text \<open>A permitted task on an idle plane is accepted and is then alone there.\<close>

lemma task_accepted:
  assumes "hydra_start he order n loaded = Inr hy" "set order = set head_list"
    and "choose_provider (hy_config hy) = In_Memory" "api_traffic he hy rqs (h0, hy_core hy) = (wrs, (h, s))"
    and "t \<noteq> []" "dec_task b = Inr tr"
    and "set (actor_roles (if actor_id (tr_actor tr) = [] then anonymous_task else tr_actor tr)) \<inter>
      {''admin'', ''agent'', ''human''} \<noteq> {}"
    and "idle (co_exec s)" "api_call he hy (re, se) (api_post ''task'' t b) (h, s) = (w, (h', s'))"
  defines "actor \<equiv> if actor_id (tr_actor tr) = [] then anonymous_task else tr_actor tr"
  defines "ten \<equiv> if tenant_id (tr_tenant tr) = [] then default_tenant else tr_tenant tr"
  defines "job \<equiv> new_job (se_uuid se 0) (se_now se) (tr_type tr) (tr_data tr) []"
  obtains e where "env_trace e = t" "solo (co_jobs s) (co_exec s')" "pl_heap (co_exec s') (co_jobs s) = job"
    "get_job (se_uuid se 0) (co_exec s') = Inr job" "pl_jobs (co_exec s') (se_uuid se 0) = Some (co_jobs s)"
    "pl_handler (co_exec s') = (\<lambda>t j. (j, None))"
    "w = answer_writer (he_ft he) (re_keys re) t h' (respond se ''task'' actor ten e
        (Inr (print (JObj [(''job_id'', JStr (se_uuid se 0)), (''state'', JStr ''pending'')]))))"
proof -
  have j: "job_id job = se_uuid se 0" "run_after job = zero_time" by (simp_all add: job_def new_job_def)
  note st = traffic_state [OF assms(1-4)]
  have body: "body_ok b" using assms(6) by (auto simp: dec_task_def bind_Inr intro: obj_fields_body_ok)
  obtain e h1 out where e: "env_trace e = t" "env_payload e = b"
    "task_handler se e (h1, s) = (out, (h', s'))" "w = answer_writer (he_ft he) (re_keys re) t h' out"
    using api_post_run [OF _ _ assms(5) body register_handlers_routes(3) assms(9)] st by auto
  have ok: "check_roles (eng_roles (co_policy s)) (actor_roles actor) perm_execute_task"
    using st start_grants(2) assms(7) by (auto simp: actor_def)
  have dec: "dec_task (env_payload e) = Inr tr" using assms(6) e(2) by simp
  let ?p = "(co_exec s)\<lparr>pl_heap := (pl_heap (co_exec s))(co_jobs s := job)\<rparr>"
  obtain res where sub: "submit (se_now se) (co_jobs s) ?p = (res, co_exec s')" and
    out: "out = (case res of Inl e \<Rightarrow> Failure e | Inr _ \<Rightarrow> respond se ''task'' actor ten e
        (Inr (print (JObj [(''job_id'', JStr (job_id job)), (''state'', JStr ''pending'')]))))"
    using task_outcome [OF dec e(3), folded actor_def ten_def job_def] ok by auto
  have "idle ?p" "run_after (pl_heap ?p (co_jobs s)) = zero_time" using assms(8) j(2) by (simp_all add: idle_def)
  from submit_solo [OF this sub] have solo: "res = Inr ()" "solo (co_jobs s) (co_exec s')" by simp_all
  note frame = submit_frame [OF sub]
  show thesis
    by (rule that [OF e(1) solo(2)]) (use frame j(1) st e(4) out solo(1) in \<open>simp_all add: get_job_def\<close>)
qed

end
