(* ===== verification/Api_Props.thy ===== *)
theory Api_Props
  imports Api
begin

text \<open>
  What a client of the API can rely on: properties of whole exchanges with a started process,
  at any point of any traffic.
\<close>

section \<open>A process for the witnesses\<close>

definition api_host :: "nat host_env" where
  "api_host = (demo_host (Inr ()))\<lparr>he_ff := \<lambda>_. ''1'', he_ft := show_int\<rparr>"

text \<open>A process with the default configuration.\<close>

definition api_hydra :: "nat hydra" where
  "api_hydra = projr (hydra_start api_host head_list 0 (Inl CtxDeadline))"

lemma api_hydra: "hydra_start api_host head_list 0 (Inl CtxDeadline) = Inr api_hydra"
  "choose_provider (hy_config api_hydra) = In_Memory"
proof -
  have c: "default_config = choose_config (Inl CtxDeadline)" by (simp add: choose_config_def)
  note up = start_cases [OF HOL.refl c, of api_host 0]
  have "config_validate default_config = Inr ()" using validate_legal legal_default by blast
  moreover have "he_listen api_host = (\<lambda>_. Inr ())" by (simp add: api_host_def demo_host_def)
  ultimately have eq: "hydra_start api_host head_list 0 (Inl CtxDeadline) = Inr
      ((projr (wire api_host 0 default_config))\<lparr>hy_core := started head_list (hy_core (projr (wire api_host 0 default_config)))\<rparr>)"
    using up(1) by simp
  then show "hydra_start api_host head_list 0 (Inl CtxDeadline) = Inr api_hydra"
    by (simp add: api_hydra_def)
  show "choose_provider (hy_config api_hydra) = In_Memory"
    unfolding api_hydra_def eq by (simp add: up(2) choose_provider_def) (simp add: default_config_def zero_config_def)
qed

lemma api_host_formats: "num_ok (he_ff api_host q)" "read_int (he_ft api_host t) = Some t"
  by (simp_all add: api_host_def read_show_int num_ok_def p_number_def digits_def digit_def)

definition store_body :: raw where
  "store_body = print (JObj [(''type'', JStr ''episodic''), (''content'', JStr ''hello''), (''actor_id'', JStr ''a1'')])"



section \<open>Properties\<close>



text \<open>
  C6. Whatever requests in valid UTF-8 a started process with the in-memory provider is sent, in
  any order: a path that is not clean is redirected to its clean form, every other response has one of the
  six statuses of the gateway, and a 500 is always a handler's error under the trace ID of its
  request, so no request makes a handler panic. Between any two points of the traffic the
  audit log only grows and the rest of the policy engine stays, every stored memory is kept as
  it was, jobs already submitted are not touched by the API, and the gateway keeps running.
\<close>

theorem api_traffic_safe:
  assumes "hydra_start he order n loaded = Inr hy" "set order = set head_list"
    and "choose_provider (hy_config hy) = In_Memory"
    and "api_traffic he hy rqs (h, hy_core hy) = (wrs, (h1, s1))"
    and "api_traffic he hy rqs' (h1, s1) = (wrs', (h2, s2))"
    and "list_all (\<lambda>(env, rq). rq_utf8 rq) (rqs @ rqs')"
  shows "api_later s1 s2 \<and> list_all2 (\<lambda>(env, rq). api_response env rq) (rqs @ rqs') (wrs @ wrs')"
proof -
  note api = started_api [OF assms(1,3)]
  note first = api_traffic_keeps [OF api conjunct1 [OF start_inv [OF assms(1,2)]] assms(4)]
  then have "api_inv s1" by blast
  from api_traffic_keeps [OF api this assms(5)] first show ?thesis by (blast intro: list_all2_appendI)
qed

text \<open>The request that the other theories send is one of these, and so is a plain POST.\<close>

lemma rq_utf8_samples: "rq_utf8 get_request" "rq_utf8 (api_post ''memory.store'' ''t'' store_body)"
proof -
  show "rq_utf8 get_request"
    by (simp add: rq_utf8_def get_request_def utf8_ok_ascii ascii_def)
  have "ascii store_body"
    by (auto simp: store_body_def print.simps print_string_def escape_char_def ascii_def)
  then show "rq_utf8 (api_post ''memory.store'' ''t'' store_body)"
    by (simp add: rq_utf8_def api_post_def utf8_ok_ascii) (simp add: utf8_ok_ascii ascii_def)
qed

theorem api_traffic_safe_witness:
  "\<exists>wrs h1 s1 wrs' h2 s2.
     api_traffic api_host api_hydra [((plain_env, demo_env), get_request)] ([], hy_core api_hydra) = (wrs, (h1, s1)) \<and>
     api_traffic api_host api_hydra [((plain_env, demo_env), api_post ''memory.store'' ''t'' store_body)] (h1, s1) = (wrs', (h2, s2)) \<and>
     api_later s1 s2 \<and> (\<exists>w w'. wrs = [w] \<and> wrs' = [w'] \<and> api_response (plain_env, demo_env) get_request w)"
proof -
  obtain wrs h1 s1 where one: "api_traffic api_host api_hydra [((plain_env, demo_env), get_request)] ([], hy_core api_hydra) =
      (wrs, (h1, s1))" by (metis surj_pair)
  obtain wrs' h2 s2 where two: "api_traffic api_host api_hydra [((plain_env, demo_env), api_post ''memory.store'' ''t'' store_body)]
      (h1, s1) = (wrs', (h2, s2))" by (metis surj_pair)
  obtain w w' where w: "wrs = [w]" "wrs' = [w']" using one two by (auto split: prod.splits)
  from api_traffic_safe [OF api_hydra(1) HOL.refl api_hydra(2) one two] one two w rq_utf8_samples show ?thesis by auto
qed

text \<open>
  C10. Policy enforcement end to end, with the in-memory provider. At any point of any traffic, a
  POST to \<open>chat\<close> in valid UTF-8 whose body decodes leaves exactly one audit record under its
  trace ID. With the \<open>admin\<close> or the \<open>agent\<close> role the agent runs and finishes, the event
  \<open>agent.completed\<close> with the body and the trace ID of the request is published on the bus, and the
  client reads the echo of its message in an envelope under its trace ID. Without them it gets
  a 500 that names the permission, and nothing but the audit log has changed.
\<close>

theorem chat_enforced:
  assumes "hydra_start he order n loaded = Inr hy" "set order = set head_list"
    and "choose_provider (hy_config hy) = In_Memory" "api_traffic he hy rqs (h0, hy_core hy) = (wrs, (h, s))"
    and "\<And>t. rt (he_ft he t) = Some t" "re_keys re = []" "t \<noteq> []" "dec_chat b = Inr cr"
    and "utf8_ok t" "utf8_ok b"
    and "api_call he hy (re, se) (api_post ''chat'' t b) (h, s) = (w, (h', s'))"
  defines "actor \<equiv> if actor_id (cr_actor cr) = [] then anonymous_chat else cr_actor cr"
  defines "ok \<equiv> ''admin'' \<in> set (actor_roles actor) \<or> ''agent'' \<in> set (actor_roles actor)"
  shows "(\<exists>x. eng_audit (co_policy s') = eng_audit (co_policy s) @ [x] \<and> aud_trace x = t \<and>
      aud_actor x = actor_id actor \<and> aud_action x = ''chat'' \<and> aud_allowed x = ok) \<and>
    (if ok
     then wr_status w = Some 200 \<and> (\<exists>e. decode_envelope rt (wr_body w) h' = Inr (e, h') \<and> env_trace e = t \<and>
         env_type e = env_response \<and> env_action e = ''chat'' \<and> env_actor e = actor \<and>
         parse (env_payload e) = Some (echo_json (cr_message cr) (se_uuid se 0))) \<and>
       (\<exists>a. get_agent (se_uuid se 0) (co_runtime s') = Inr a \<and> ag_state a = StateDone) \<and>
       co_bus s' = snd (publish \<lparr>ev_type = ''agent.completed'', ev_payload = b, ev_trace = t, ev_time = zero_time\<rparr> (co_bus s))
     else wr_status w = Some 500 \<and>
       wr_body w = print (error_json t (''permission denied: '' @ perm_create_agent)) @ [CHR 0x0A] \<and>
       s' = s\<lparr>co_policy := co_policy s'\<rparr>)"
proof -
  note st = traffic_state [OF assms(1-4)]
  have body: "body_ok b" using assms(8) by (auto simp: dec_chat_def bind_Inr intro: obj_fields_body_ok)
  obtain e h1 out where e: "env_trace e = t" "env_payload e = b"
    "chat_handler se e (h1, s) = (out, (h', s'))" "w = answer_writer (he_ft he) (re_keys re) t h' out"
    using api_post_run [OF _ _ assms(7) body register_handlers_routes(4) assms(11)] st by auto
  have ok: "check_roles (eng_roles (co_policy s)) (actor_roles actor) perm_create_agent \<longleftrightarrow> ok"
    using st start_grants(1) by (simp add: ok_def)
  have dec: "dec_chat (env_payload e) = Inr cr" using assms(8) e(2) by simp
  define ten where "ten = (if tenant_id (cr_tenant cr) = [] then default_tenant else cr_tenant cr)"
  note run = chat_outcome [OF dec _ e(3), folded actor_def ten_def, unfolded ok]
  have j: "json_ok (echo_json (cr_message cr) (se_uuid se 0))" by (simp add: echo_json_def)
  note read = answer_decodes [where rt = rt and ft = "he_ft he" and trace = t and h = h' and req = e
      and a = "''chat''" and actor = actor and ten = ten, OF j assms(5)]
  show ?thesis
  proof (cases ok)
    case True
    with run st e read assms(6) show ?thesis by (auto simp: audit_def bus_notify_def)
  next
    case False
    with run st e show ?thesis by (auto simp: audit_def write_error_cors)
  qed
qed

definition chat_body :: "string list \<Rightarrow> raw" where
  "chat_body roles = print (JObj [(''message'', JStr ''hi''), (''actor'', demo_actor ''bob'' roles)])"

lemma dec_chat_body: "dec_chat (chat_body roles) = Inr \<lparr>cr_message = ''hi'',
    cr_actor = \<lparr>actor_id = ''bob'', actor_kind = [], actor_roles = roles, actor_tenant = []\<rparr>, cr_tenant = no_tenant\<rparr>"
  unfolding dec_chat_def chat_body_def
  by (subst obj_fields_print) (simp_all add: field_names json_ok_demo dec_demo_actor)

theorem chat_enforced_witness:
  "(\<exists>w h' s' e. api_call api_host api_hydra (plain_env, demo_env) (api_post ''chat'' ''t'' (chat_body [''admin'']))
       ([], hy_core api_hydra) = (w, (h', s')) \<and> wr_status w = Some 200 \<and>
      decode_envelope read_int (wr_body w) h' = Inr (e, h') \<and> env_trace e = ''t'') \<and>
   (\<exists>w h' s'. api_call api_host api_hydra (plain_env, demo_env) (api_post ''chat'' ''t'' (chat_body [''readonly'']))
       ([], hy_core api_hydra) = (w, (h', s')) \<and> wr_status w = Some 500)"
proof -
  have keys: "re_keys plain_env = []" and t: "''t'' \<noteq> []" and none: "api_traffic api_host api_hydra [] ([], hy_core api_hydra) = ([], ([], hy_core api_hydra))"
    by (simp_all add: plain_env_def)
  have utf8: "utf8_ok ''t''" "utf8_ok (chat_body [''admin''])" "utf8_ok (chat_body [''readonly''])"
    by (auto simp: chat_body_def demo_actor_def print.simps print_string_def escape_char_def ascii_def intro!: utf8_ok_ascii)
  note run = chat_enforced [where rt = read_int, OF api_hydra(1) HOL.refl api_hydra(2) none api_host_formats(2) keys t dec_chat_body]
  obtain w1 h1 s1 where one: "api_call api_host api_hydra (plain_env, demo_env) (api_post ''chat'' ''t'' (chat_body [''admin'']))
       ([], hy_core api_hydra) = (w1, (h1, s1))" by (metis surj_pair)
  obtain w2 h2 s2 where two: "api_call api_host api_hydra (plain_env, demo_env) (api_post ''chat'' ''t'' (chat_body [''readonly'']))
       ([], hy_core api_hydra) = (w2, (h2, s2))" by (metis surj_pair)
  from run [OF utf8(1,2) one] one run [OF utf8(1,3) two] two show ?thesis by auto
qed

text \<open>
  C9. A permitted task runs to completion, with the in-memory provider and for strings in valid
  UTF-8. When the execution plane idles, a POST to \<open>task\<close> by an actor with the \<open>admin\<close>, \<open>agent\<close> or
  \<open>human\<close> role is answered with the ID of a job that is pending; after the next tick of the
  scheduler and round of the worker the job of that ID is completed, with the type and the data
  of the request and one attempt.
\<close>

theorem task_completed:
  assumes "hydra_start he order n loaded = Inr hy" "set order = set head_list"
    and "choose_provider (hy_config hy) = In_Memory" "api_traffic he hy rqs (h0, hy_core hy) = (wrs, (h, s))"
    and "\<And>t. rt (he_ft he t) = Some t" "re_keys re = []" "t \<noteq> []" "dec_task b = Inr tr"
    and "set (actor_roles (if actor_id (tr_actor tr) = [] then anonymous_task else tr_actor tr)) \<inter>
      {''admin'', ''agent'', ''human''} \<noteq> {}"
    and "idle (co_exec s)" "zero_time \<le> now"
    and "api_call he hy (re, se) (api_post ''task'' t b) (h, s) = (w, (h', s'))"
  shows "wr_status w = Some 200 \<and>
    (\<exists>e. decode_envelope rt (wr_body w) h' = Inr (e, h') \<and> env_trace e = t \<and> env_action e = ''task'' \<and>
      parse (env_payload e) = Some (JObj [(''job_id'', JStr (se_uuid se 0)), (''state'', JStr ''pending'')])) \<and>
    (\<exists>j. get_job (se_uuid se 0) (co_exec s') = Inr j \<and> job_state j = JobPending) \<and>
    (\<exists>j. get_job (se_uuid se 0) (cycle now (co_exec s')) = Inr j \<and> job_state j = JobCompleted \<and>
      job_type j = tr_type tr \<and> job_payload j = tr_data tr \<and> attempts j = 1)"
proof -
  define job where "job = new_job (se_uuid se 0) (se_now se) (tr_type tr) (tr_data tr) []"
  have j: "job_state job = JobPending" "attempts job = 0" "run_after job = zero_time"
    "job_type job = tr_type tr" "job_payload job = tr_data tr" by (simp_all add: job_def new_job_def)
  obtain e where e: "env_trace e = t" "solo (co_jobs s) (co_exec s')" "pl_heap (co_exec s') (co_jobs s) = job"
    "get_job (se_uuid se 0) (co_exec s') = Inr job" "pl_jobs (co_exec s') (se_uuid se 0) = Some (co_jobs s)"
    "pl_handler (co_exec s') = (\<lambda>t j. (j, None))"
    and w: "w = answer_writer (he_ft he) (re_keys re) t h' (respond se ''task''
      (if actor_id (tr_actor tr) = [] then anonymous_task else tr_actor tr)
      (if tenant_id (tr_tenant tr) = [] then default_tenant else tr_tenant tr) e
      (Inr (print (JObj [(''job_id'', JStr (se_uuid se 0)), (''state'', JStr ''pending'')]))))"
    by (rule task_accepted [OF assms(1-4,7-10,12), folded job_def])
  have "pl_heap (cycle now (co_exec s')) (co_jobs s) = finish_ok now (job\<lparr>job_state := JobRunning, attempts := 1, started_at := now\<rparr>)"
    using solo_completes [OF e(2), of now] e(3,6) j assms(11) by simp
  with e(4,5) j have "\<exists>x. get_job (se_uuid se 0) (co_exec s') = Inr x \<and> job_state x = JobPending"
    "\<exists>x. get_job (se_uuid se 0) (cycle now (co_exec s')) = Inr x \<and> job_state x = JobCompleted \<and>
      job_type x = tr_type tr \<and> job_payload x = tr_data tr \<and> attempts x = 1"
    by (simp_all add: get_job_def finish_ok_def)
  moreover have "json_ok (JObj [(''job_id'', JStr (se_uuid se 0)), (''state'', JStr ''pending'')])" by simp
  note read = answer_decodes [where rt = rt and ft = "he_ft he" and trace = t and h = h' and req = e
      and a = "''task''", OF this assms(5), of se]
  have "wr_status w = Some 200 \<and>
    (\<exists>e. decode_envelope rt (wr_body w) h' = Inr (e, h') \<and> env_trace e = t \<and> env_action e = ''task'' \<and>
      parse (env_payload e) = Some (JObj [(''job_id'', JStr (se_uuid se 0)), (''state'', JStr ''pending'')]))"
    unfolding w assms(6) using read e(1) by blast
  ultimately show ?thesis by blast
qed

definition task_body :: raw where
  "task_body = print (JObj [(''type'', JStr ''mail''), (''actor'', demo_actor ''bob'' [''human''])])"

lemma dec_task_body: "dec_task task_body = Inr \<lparr>tr_type = ''mail'', tr_data = [],
    tr_actor = \<lparr>actor_id = ''bob'', actor_kind = [], actor_roles = [''human''], actor_tenant = []\<rparr>, tr_tenant = no_tenant\<rparr>"
  unfolding dec_task_def task_body_def
  by (subst obj_fields_print) (simp_all add: field_names json_ok_demo dec_demo_actor)

theorem task_completed_witness:
  "\<exists>w h' s' j. api_call api_host api_hydra (plain_env, demo_env) (api_post ''task'' ''t'' task_body)
       ([], hy_core api_hydra) = (w, (h', s')) \<and> wr_status w = Some 200 \<and>
     get_job (se_uuid demo_env 0) (cycle 9 (co_exec s')) = Inr j \<and> job_state j = JobCompleted \<and> job_type j = ''mail''"
proof -
  have keys: "re_keys plain_env = []" and t: "''t'' \<noteq> []" and now: "zero_time \<le> 9"
    and none: "api_traffic api_host api_hydra [] ([], hy_core api_hydra) = ([], ([], hy_core api_hydra))"
    by (simp_all add: plain_env_def)
  have idle: "idle (co_exec (hy_core api_hydra))" using started_core [OF api_hydra(1) HOL.refl] by blast
  obtain w h1 s1 where one: "api_call api_host api_hydra (plain_env, demo_env) (api_post ''task'' ''t'' task_body)
       ([], hy_core api_hydra) = (w, (h1, s1))" by (metis surj_pair)
  from task_completed [where rt = read_int, OF api_hydra(1) HOL.refl api_hydra(2) none api_host_formats(2) keys t
      dec_task_body _ idle now one] one show ?thesis by auto
qed

end
