(* ===== verification/Lifecycle.thy ===== *)
theory Lifecycle
  imports Job_Queue
begin

text \<open>
  The life of the execution plane's two goroutines (\<open>Start\<close>, \<open>Stop\<close> and the loops of
  \<open>internal/execution/scheduler.go\<close> and \<open>internal/execution/plane.go\<close>): contexts, the
  \<open>cancel\<close> fields and the \<open>done\<close> channels, for any number of \<open>Start\<close> and \<open>Stop\<close> calls. The
  theory Plane_Steps models what the loops do to the jobs under one \<open>Start\<close>; here the jobs are
  left out and the calls may be repeated. A goroutine looks at its context only between two
  jobs: a call of the job handler, or a flush, that is under way goes on after the cancellation.
\<close>

section \<open>One loop and the calls that control it\<close>

text \<open>
  Where a goroutine is. \<open>process\<close> is at the check of its context (\<open>AtCheck\<close>), about to take a job
  from the queue (\<open>AtQueue\<close>), working on a job, with the handler's call and what follows it
  (\<open>AtWork\<close>), or waiting for the context or the timer (\<open>AtSelect\<close>). \<open>run\<close> waits for the context
  or the ticker (\<open>AtSelect\<close>) or flushes (\<open>AtWork\<close>).
\<close>

datatype loop_at = AtCheck | AtQueue | AtWork | AtSelect | Ended

text \<open>
  The \<open>cancel\<close> and \<open>done\<close> fields of a \<open>Scheduler\<close> or a \<open>Plane\<close>, with what its \<open>Start\<close> calls
  made: the \<open>k\<close>-th call makes a context, which may be cancelled, and a goroutine. The field
  \<open>cancel\<close> holds the cancel function of the last context.
\<close>

record loop_group =
  lg_ctxs :: "bool list"
  lg_cancel :: "nat option"
  lg_at :: "loop_at list"
  lg_done :: "unit gochan"

text \<open>Which goroutines still run.\<close>

definition lg_loops :: "loop_group \<Rightarrow> bool list" where
  "lg_loops g = map (\<lambda>l. l \<noteq> Ended) (lg_at g)"

definition new_group :: loop_group where
  "new_group = \<lparr>lg_ctxs = [], lg_cancel = None, lg_at = [], lg_done = make_chan 0\<rparr>"

text \<open>\<open>Start\<close>; \<open>l\<close> is where the new goroutine begins.\<close>

definition scheduler_start :: "loop_at \<Rightarrow> loop_group \<Rightarrow> loop_group" where
  "scheduler_start l g = g\<lparr>lg_ctxs := lg_ctxs g @ [False], lg_cancel := Some (length (lg_ctxs g)),
     lg_at := lg_at g @ [l]\<rparr>"

text \<open>\<open>Stop\<close> cancels the last context, if there is one, and waits for \<open>done\<close>.\<close>

definition scheduler_cancel :: "loop_group \<Rightarrow> loop_group" where
  "scheduler_cancel g = (case lg_cancel g of None \<Rightarrow> g | Some k \<Rightarrow> g\<lparr>lg_ctxs := (lg_ctxs g)[k := True]\<rparr>)"

definition done_closed :: "loop_group \<Rightarrow> bool" where
  "done_closed g \<longleftrightarrow> ch_closed (lg_done g)"

definition loop_to :: "nat \<Rightarrow> loop_at \<Rightarrow> loop_group \<Rightarrow> loop_group" where
  "loop_to k l g = g\<lparr>lg_at := (lg_at g)[k := l]\<rparr>"

text \<open>
  The end of \<open>run\<close> and of \<open>process\<close>: the deferred \<open>close(s.done)\<close>, which panics when another
  goroutine of the same group has closed the channel.
\<close>

definition run_exit :: "nat \<Rightarrow> loop_group \<Rightarrow> loop_group attempt" where
  "run_exit k g =
     (case chan_close (lg_done g) of
        Done c \<Rightarrow> Done ((loop_to k Ended g)\<lparr>lg_done := c\<rparr>)
      | Blocked \<Rightarrow> Blocked
      | Panicked m \<Rightarrow> Panicked m)"

lemmas group_defs = new_group_def scheduler_start_def scheduler_cancel_def done_closed_def run_exit_def
  chan_close_def loop_to_def

section \<open>The plane, its scheduler and the calls of \<open>Stop\<close>\<close>

text \<open>Where a call of \<open>Plane.Stop\<close> is: at \<open><-p.done\<close>, in \<open>p.scheduler.Stop()\<close>, or back.\<close>

datatype stop_call = AtProcess | AtScheduler | Returned

record lifecycle =
  lf_root :: bool
  lf_plane :: loop_group
  lf_sched :: loop_group
  lf_queue :: mem_queue
  lf_stops :: "stop_call list"
  lf_panic :: "go_error option"

definition new_lifecycle :: lifecycle where
  "new_lifecycle = \<lparr>lf_root = False, lf_plane = new_group, lf_sched = new_group, lf_queue = new_mem_queue,
     lf_stops = [], lf_panic = None\<rparr>"

text \<open>A context ends with its parent: the scheduler's are children of the plane's.\<close>

definition plane_ctx :: "lifecycle \<Rightarrow> nat \<Rightarrow> bool" where
  "plane_ctx s k \<longleftrightarrow> lf_root s \<or> lg_ctxs (lf_plane s) ! k"

definition sched_ctx :: "lifecycle \<Rightarrow> nat \<Rightarrow> bool" where
  "sched_ctx s k \<longleftrightarrow> plane_ctx s k \<or> lg_ctxs (lf_sched s) ! k"

definition start_plane :: "lifecycle \<Rightarrow> lifecycle" where
  "start_plane s = s\<lparr>lf_plane := scheduler_start AtCheck (lf_plane s),
     lf_sched := scheduler_start AtSelect (lf_sched s)\<rparr>"

definition call_stop :: "lifecycle \<Rightarrow> lifecycle" where
  "call_stop s = s\<lparr>lf_plane := scheduler_cancel (lf_plane s), lf_stops := lf_stops s @ [AtProcess]\<rparr>"

definition stop_next :: "nat \<Rightarrow> lifecycle \<Rightarrow> lifecycle" where
  "stop_next i s = s\<lparr>lf_sched := scheduler_cancel (lf_sched s), lf_stops := (lf_stops s)[i := AtScheduler]\<rparr>"

definition stop_return :: "nat \<Rightarrow> lifecycle \<Rightarrow> lifecycle" where
  "stop_return i s =
     (case queue_close (lf_queue s) of
        Inl e \<Rightarrow> s\<lparr>lf_panic := Some e\<rparr>
      | Inr q \<Rightarrow> s\<lparr>lf_queue := q, lf_stops := (lf_stops s)[i := Returned]\<rparr>)"

definition process_to :: "nat \<Rightarrow> loop_at \<Rightarrow> lifecycle \<Rightarrow> lifecycle" where
  "process_to k l s = s\<lparr>lf_plane := loop_to k l (lf_plane s)\<rparr>"

definition run_to :: "nat \<Rightarrow> loop_at \<Rightarrow> lifecycle \<Rightarrow> lifecycle" where
  "run_to k l s = s\<lparr>lf_sched := loop_to k l (lf_sched s)\<rparr>"

definition exit_process :: "nat \<Rightarrow> lifecycle \<Rightarrow> lifecycle" where
  "exit_process k s =
     (case run_exit k (lf_plane s) of Done g \<Rightarrow> s\<lparr>lf_plane := g\<rparr> | Blocked \<Rightarrow> s | Panicked m \<Rightarrow> s\<lparr>lf_panic := Some (Panic m)\<rparr>)"

definition exit_run :: "nat \<Rightarrow> lifecycle \<Rightarrow> lifecycle" where
  "exit_run k s =
     (case run_exit k (lf_sched s) of Done g \<Rightarrow> s\<lparr>lf_sched := g\<rparr> | Blocked \<Rightarrow> s | Panicked m \<Rightarrow> s\<lparr>lf_panic := Some (Panic m)\<rparr>)"

text \<open>The moves of goroutine \<open>k\<close> of a group that is at \<open>l\<close>.\<close>

abbreviation process_at :: "lifecycle \<Rightarrow> nat \<Rightarrow> loop_at \<Rightarrow> bool" where
  "process_at s k l \<equiv> lf_panic s = None \<and> k < length (lg_at (lf_plane s)) \<and> lg_at (lf_plane s) ! k = l"

abbreviation run_at :: "lifecycle \<Rightarrow> nat \<Rightarrow> loop_at \<Rightarrow> bool" where
  "run_at s k l \<equiv> lf_panic s = None \<and> k < length (lg_at (lf_sched s)) \<and> lg_at (lf_sched s) ! k = l"

text \<open>
  The calls of the clients and the end of the root context; the end of a worker's job, when
  the handler has returned (\<open>Worked\<close>); the ticker of a scheduler being taken (\<open>Ticked\<close>), which
  may happen after the cancellation, since \<open>select\<close> picks any case that is ready; and the other
  moves the goroutines and the calls in progress make by themselves. Nothing moves after a panic.
\<close>

datatype life_event = Started | Stopping | Signalled | Worked | Ticked | Moved

inductive life_step :: "lifecycle \<Rightarrow> life_event \<Rightarrow> lifecycle \<Rightarrow> bool" where
  start: "lf_panic s = None \<Longrightarrow> life_step s Started (start_plane s)"
| stop: "lf_panic s = None \<Longrightarrow> life_step s Stopping (call_stop s)"
| signal: "lf_panic s = None \<Longrightarrow> life_step s Signalled (s\<lparr>lf_root := True\<rparr>)"
| process: "process_at s k l \<Longrightarrow> l \<in> {AtCheck, AtSelect} \<Longrightarrow> plane_ctx s k \<Longrightarrow> life_step s Moved (exit_process k s)"
| check: "process_at s k AtCheck \<Longrightarrow> \<not> plane_ctx s k \<Longrightarrow> life_step s Moved (process_to k AtQueue s)"
| idle: "process_at s k AtQueue \<Longrightarrow> life_step s Moved (process_to k AtSelect s)"
| take: "process_at s k AtQueue \<Longrightarrow> life_step s Moved (process_to k AtWork s)"
| wake: "process_at s k AtSelect \<Longrightarrow> life_step s Moved (process_to k AtCheck s)"
| worked: "process_at s k AtWork \<Longrightarrow> life_step s Worked (process_to k AtCheck s)"
| run: "run_at s k AtSelect \<Longrightarrow> sched_ctx s k \<Longrightarrow> life_step s Moved (exit_run k s)"
| tick: "run_at s k AtSelect \<Longrightarrow> life_step s Ticked (run_to k AtWork s)"
| flushed: "run_at s k AtWork \<Longrightarrow> life_step s Moved (run_to k AtSelect s)"
| proceed: "lf_panic s = None \<Longrightarrow> i < length (lf_stops s) \<Longrightarrow> lf_stops s ! i = AtProcess \<Longrightarrow>
     done_closed (lf_plane s) \<Longrightarrow> life_step s Moved (stop_next i s)"
| return: "lf_panic s = None \<Longrightarrow> i < length (lf_stops s) \<Longrightarrow> lf_stops s ! i = AtScheduler \<Longrightarrow>
     done_closed (lf_sched s) \<Longrightarrow> life_step s Moved (stop_return i s)"

inductive life_run :: "lifecycle \<Rightarrow> life_event list \<Rightarrow> lifecycle \<Rightarrow> bool" where
  none: "life_run s [] s"
| more: "life_run s es s' \<Longrightarrow> life_step s' e s'' \<Longrightarrow> life_run s (es @ [e]) s''"

section \<open>One \<open>Start\<close>\<close>

text \<open>
  At most one goroutine per group, whose end closes \<open>done\<close>; how far a \<open>Stop\<close> call is tells
  what has ended before. The goroutine of a scheduler is never where only \<open>process\<close> can be.
\<close>

fun group_inv :: "nat \<Rightarrow> loop_group \<Rightarrow> bool" where
  "group_inv n g \<longleftrightarrow> length (lg_ctxs g) = n \<and>
     ((n = 0 \<and> lg_cancel g = None \<and> lg_at g = [] \<and> \<not> done_closed g) \<or>
      (n = 1 \<and> lg_cancel g = Some 0 \<and> (\<exists>l. lg_at g = [l] \<and> (done_closed g \<longleftrightarrow> l = Ended))))"

definition life_inv :: "nat \<Rightarrow> lifecycle \<Rightarrow> bool" where
  "life_inv n s \<longleftrightarrow> lf_panic s = None \<and> mem_queue_inv (lf_queue s) \<and>
     group_inv n (lf_plane s) \<and> group_inv n (lf_sched s) \<and>
     set (lg_at (lf_sched s)) \<subseteq> {AtSelect, AtWork, Ended} \<and>
     (AtScheduler \<in> set (lf_stops s) \<longrightarrow> done_closed (lf_plane s)) \<and>
     (Returned \<in> set (lf_stops s) \<longrightarrow> done_closed (lf_plane s) \<and> done_closed (lf_sched s) \<and> mq_closed (lf_queue s))"

lemma group_inv_ops:
  "group_inv 0 g \<Longrightarrow> l \<noteq> Ended \<Longrightarrow> group_inv 1 (scheduler_start l g)"
  "group_inv n g \<Longrightarrow> group_inv n (scheduler_cancel g) \<and> (done_closed (scheduler_cancel g) \<longleftrightarrow> done_closed g)"
  by (auto simp: group_defs)

lemma scheduler_cancel_at [simp]: "lg_at (scheduler_cancel g) = lg_at g"
  by (simp add: scheduler_cancel_def split: option.split)

lemma group_one:
  assumes "group_inv n g" "k < length (lg_at g)"
  shows "n = 1 \<and> k = 0 \<and> lg_at g = [lg_at g ! 0]"
  using assms by auto

lemma loop_to_one:
  assumes "group_inv n g" "k < length (lg_at g)" "lg_at g ! k \<noteq> Ended" "l \<noteq> Ended"
  shows "group_inv n (loop_to k l g) \<and> lg_at (loop_to k l g) = [l] \<and> (done_closed (loop_to k l g) \<longleftrightarrow> done_closed g) \<and>
    \<not> done_closed g"
  using assms by (auto simp: loop_to_def done_closed_def)

lemma run_exit_one:
  assumes "group_inv n g" "k < length (lg_at g)" "lg_at g ! k \<noteq> Ended"
  shows "\<exists>g'. run_exit k g = Done g' \<and> group_inv n g' \<and> done_closed g' \<and> lg_at g' = [Ended] \<and> lg_ctxs g' = lg_ctxs g"
  using assms by (auto simp: group_defs)

lemma set_stops: "c \<in> set (xs[i := x]) \<Longrightarrow> c = x \<or> c \<in> set xs"
  using set_update_subset_insert by fastforce

lemma process_to_inv:
  assumes "life_inv n s" "process_at s k l" "l \<noteq> Ended" "l' \<noteq> Ended"
  shows "life_inv n (process_to k l' s)"
  using assms loop_to_one [of n "lf_plane s" k l'] by (simp add: life_inv_def process_to_def del: group_inv.simps)

lemma run_to_inv:
  assumes "life_inv n s" "run_at s k l" "l \<noteq> Ended" "l' \<in> {AtSelect, AtWork}"
  shows "life_inv n (run_to k l' s)"
  using assms loop_to_one [of n "lf_sched s" k l'] by (auto simp: life_inv_def run_to_def simp del: group_inv.simps)

lemma life_inv_step:
  assumes "life_step s e s'" "life_inv n s" "e = Started \<Longrightarrow> n = 0"
  shows "life_inv (if e = Started then 1 else n) s'"
  using assms
proof cases
  case start
  with assms(2,3) show ?thesis
    by (auto simp: life_inv_def start_plane_def group_inv_ops simp del: group_inv.simps)
       (simp_all add: group_defs)
next
  case stop
  with assms(2) show ?thesis
    by (auto simp: life_inv_def call_stop_def group_inv_ops simp del: group_inv.simps)
next
  case signal
  with assms(2) show ?thesis by (simp add: life_inv_def)
next
  case (process k l)
  then have k: "k < length (lg_at (lf_plane s))" "lg_at (lf_plane s) ! k \<noteq> Ended" by auto
  obtain g' where "run_exit k (lf_plane s) = Done g'" "group_inv n g'" "done_closed g'"
    using run_exit_one [OF _ k, of n] assms(2) by (auto simp: life_inv_def simp del: group_inv.simps)
  with process(1,2) assms(2) show ?thesis by (simp add: life_inv_def exit_process_def del: group_inv.simps)
next
  case (run k)
  then have k: "k < length (lg_at (lf_sched s))" "lg_at (lf_sched s) ! k \<noteq> Ended" by auto
  obtain g' where "run_exit k (lf_sched s) = Done g'" "group_inv n g'" "done_closed g'" "lg_at g' = [Ended]"
    using run_exit_one [OF _ k, of n] assms(2) by (auto simp: life_inv_def simp del: group_inv.simps)
  with run(1,2) assms(2) show ?thesis by (simp add: life_inv_def exit_run_def del: group_inv.simps)
next
  case (proceed i)
  with assms(2) show ?thesis
    by (auto simp: life_inv_def stop_next_def group_inv_ops simp del: group_inv.simps dest!: set_stops)
next
  case (return i)
  then have "AtScheduler \<in> set (lf_stops s)" by (metis nth_mem)
  with return assms(2) show ?thesis using mq.close_ok [of "lf_queue s"]
    by (auto simp: life_inv_def stop_return_def simp del: group_inv.simps dest!: set_stops split: sum.splits)
qed (use assms(2) in \<open>simp_all add: process_to_inv run_to_inv\<close>)

definition starts :: "life_event list \<Rightarrow> nat" where
  "starts es = length (filter (\<lambda>e. e = Started) es)"

lemma starts_pos: "Started \<in> set es \<longleftrightarrow> starts es \<noteq> 0"
  by (auto simp: starts_def filter_empty_conv)

lemma life_inv_run:
  assumes "life_run s es s'" "life_inv n s" "n + starts es \<le> 1"
  shows "life_inv (n + starts es) s'"
  using assms
proof (induction rule: life_run.induct)
  case (more s es s' e s'')
  then have "life_inv (n + starts es) s'" "e = Started \<Longrightarrow> n + starts es = 0"
    by (auto simp: starts_def split: if_splits)
  from life_inv_step [OF more(2) this] \<open>e = Started \<Longrightarrow> _\<close> show ?case by (auto simp: starts_def split: if_splits)
qed (simp add: starts_def)

lemma life_inv_new [simp]: "life_inv 0 new_lifecycle"
  by (simp add: life_inv_def new_lifecycle_def group_defs)

section \<open>How much is left to do\<close>

text \<open>
  The moves that a goroutine with a cancelled context and a call in progress still make, the
  ticks of the scheduler not counted.
\<close>

fun process_left :: "loop_at \<Rightarrow> nat" where
  "process_left AtQueue = 4"
| "process_left AtWork = 3"
| "process_left AtSelect = 2"
| "process_left AtCheck = 1"
| "process_left Ended = 0"

fun run_left :: "loop_at \<Rightarrow> nat" where
  "run_left AtWork = 2"
| "run_left AtSelect = 1"
| "run_left _ = 0"

fun call_left :: "stop_call \<Rightarrow> nat" where
  "call_left AtProcess = 2"
| "call_left AtScheduler = 1"
| "call_left Returned = 0"

definition moves_left :: "lifecycle \<Rightarrow> nat" where
  "moves_left s = sum_list (map process_left (lg_at (lf_plane s))) + sum_list (map run_left (lg_at (lf_sched s))) +
     sum_list (map call_left (lf_stops s))"

definition ticks :: "life_event list \<Rightarrow> nat" where
  "ticks es = length (filter (\<lambda>e. e = Ticked) es)"

lemma sum_list_less: "i < length xs \<Longrightarrow> f y < f (xs ! i) \<Longrightarrow> sum_list (map f (xs[i := y])) < (sum_list (map f xs) :: nat)"
  by (induction xs arbitrary: i) (auto simp: less_Suc_eq_0_disj split: nat.splits)

lemma process_left_less:
  assumes "process_at s k l" "process_left l' < process_left l"
  shows "moves_left (process_to k l' s) < moves_left s"
  using assms sum_list_less [of k "lg_at (lf_plane s)" process_left l'] by (simp add: moves_left_def process_to_def loop_to_def)

lemma moves_decrease:
  assumes "life_step s e s'" "life_inv n s" "plane_ctx s 0" "e \<in> {Moved, Worked, Ticked}"
  shows "if e = Ticked then moves_left s' = Suc (moves_left s) else moves_left s' < moves_left s"
  using assms
proof cases
  case (process k l)
  then have k: "k < length (lg_at (lf_plane s))" "lg_at (lf_plane s) ! k \<noteq> Ended" "0 < process_left (lg_at (lf_plane s) ! k)"
    by auto
  have g: "group_inv n (lf_plane s)" using assms(2) by (simp add: life_inv_def)
  obtain g' where "run_exit k (lf_plane s) = Done g'" "lg_at g' = [Ended]" using run_exit_one [OF g k(1,2)] by blast
  with process k group_one [OF g k(1)] show ?thesis by (simp add: exit_process_def moves_left_def)
next
  case (run k)
  then have k: "k < length (lg_at (lf_sched s))" "lg_at (lf_sched s) ! k = AtSelect" by auto
  have g: "group_inv n (lf_sched s)" using assms(2) by (simp add: life_inv_def)
  obtain g' where "run_exit k (lf_sched s) = Done g'" "lg_at g' = [Ended]" using run_exit_one [OF g k(1)] k(2) by auto
  moreover have "lg_at (lf_sched s) = [AtSelect]" using group_one [OF g k(1)] k(2) by auto
  ultimately show ?thesis using run by (simp add: exit_run_def moves_left_def)
next
  case (check k)
  then have "k = 0" using assms(2) group_one [of n "lf_plane s" k] by (simp add: life_inv_def del: group_inv.simps)
  with check assms(3) show ?thesis by simp
next
  case (tick k)
  then have "lg_at (lf_sched s) = [AtSelect]" "k = 0"
    using assms(2) group_one [of n "lf_sched s" k] by (auto simp: life_inv_def simp del: group_inv.simps)
  with tick show ?thesis by (simp add: run_to_def loop_to_def moves_left_def)
next
  case (flushed k)
  with sum_list_less [of k "lg_at (lf_sched s)" run_left AtSelect] show ?thesis
    by (simp add: run_to_def loop_to_def moves_left_def)
next
  case (proceed i)
  with sum_list_less [of i "lf_stops s" call_left AtScheduler] show ?thesis
    by (simp add: stop_next_def moves_left_def)
next
  case (return i)
  with assms(2) sum_list_less [of i "lf_stops s" call_left Returned] mq.close_ok [of "lf_queue s"] show ?thesis
    by (auto simp: stop_return_def moves_left_def life_inv_def simp del: group_inv.simps)
qed (simp_all add: process_left_less)

lemma plane_ctx_step:
  "life_step s e s' \<Longrightarrow> e \<in> {Moved, Worked, Ticked} \<Longrightarrow> plane_ctx s 0 \<Longrightarrow>
     plane_ctx s' 0 \<and> length (lf_stops s') = length (lf_stops s)"
  by (erule life_step.cases)
    (auto simp: plane_ctx_def exit_process_def exit_run_def stop_next_def stop_return_def run_exit_def process_to_def
      run_to_def loop_to_def split: attempt.splits sum.splits)

lemma moves_run:
  assumes "life_run s es s'" "set es \<subseteq> {Moved, Worked, Ticked}" "life_inv n s" "plane_ctx s 0"
  shows "length es + moves_left s' \<le> moves_left s + 2 * ticks es \<and> life_inv n s' \<and> plane_ctx s' 0 \<and>
    length (lf_stops s') = length (lf_stops s)"
  using assms
proof (induction rule: life_run.induct)
  case (more s es s' e s'')
  then have e: "e \<in> {Moved, Worked, Ticked}" and IH: "length es + moves_left s' \<le> moves_left s + 2 * ticks es"
    "life_inv n s'" "plane_ctx s' 0" "length (lf_stops s') = length (lf_stops s)" by auto
  have "life_inv n s''" using life_inv_step [OF more(2) IH(2)] e by auto
  with moves_decrease [OF more(2) IH(2,3) e] plane_ctx_step [OF more(2) e IH(3)] IH show ?case
    by (auto simp: ticks_def split: if_splits)
qed (simp add: ticks_def)

text \<open>
  With the root or the plane's context cancelled, something moves until everything has ended,
  or the worker is busy with its last job.
\<close>

lemma settled:
  assumes "life_inv 1 s" "plane_ctx s 0" "\<And>s'. \<not> life_step s Moved s'" "lg_at (lf_plane s) \<noteq> [AtWork]"
  shows "lg_loops (lf_plane s) = [False] \<and> lg_loops (lf_sched s) = [False] \<and> set (lf_stops s) \<subseteq> {Returned}"
proof -
  have ok: "lf_panic s = None" and g: "group_inv 1 (lf_plane s)" "group_inv 1 (lf_sched s)"
    and run: "set (lg_at (lf_sched s)) \<subseteq> {AtSelect, AtWork, Ended}"
    using assms(1) by (simp_all add: life_inv_def)
  obtain l where l: "lg_at (lf_plane s) = [l]" using g(1) by auto
  have p: "lg_at (lf_plane s) = [Ended]"
  proof (cases l)
    case AtCheck
    with life_step.process [of s 0 l] l ok assms(2,3) show ?thesis by simp
  next
    case AtQueue
    with life_step.idle [of s 0] l ok assms(3) show ?thesis by simp
  next
    case AtSelect
    with life_step.process [of s 0 l] l ok assms(2,3) show ?thesis by simp
  qed (use l assms(4) in simp_all)
  obtain m where m: "lg_at (lf_sched s) = [m]" "m \<in> {AtSelect, AtWork, Ended}" using g(2) run by auto
  have q: "lg_at (lf_sched s) = [Ended]"
    using m(2) life_step.run [of s 0] life_step.flushed [of s 0] m(1) ok assms(2,3) by (auto simp: sched_ctx_def)
  have d: "done_closed (lf_plane s)" "done_closed (lf_sched s)" using p q g by auto
  have "c = Returned" if c: "c \<in> set (lf_stops s)" for c
  proof -
    obtain i where "i < length (lf_stops s)" "lf_stops s ! i = c" using c by (metis in_set_conv_nth)
    with d assms(3) life_step.proceed [OF ok, of i] life_step.return [OF ok, of i] show ?thesis by (cases c) auto
  qed
  with p q show ?thesis by (auto simp: lg_loops_def)
qed

text \<open>While the worker has not ended, no \<open>Stop\<close> call gets past it.\<close>

lemma held_up:
  assumes "life_inv 1 s" "lg_at (lf_plane s) \<noteq> [Ended]"
  shows "set (lf_stops s) \<subseteq> {AtProcess}"
proof
  fix c assume "c \<in> set (lf_stops s)"
  moreover have "\<not> done_closed (lf_plane s)" using assms by (auto simp: life_inv_def)
  ultimately have "c \<noteq> AtScheduler" "c \<noteq> Returned"
    using assms(1) by (auto simp: life_inv_def simp del: group_inv.simps)
  then show "c \<in> {AtProcess}" by (cases c) simp_all
qed

section \<open>Properties\<close>

text \<open>
  C17. A plane that is started once is shut down cleanly however its goroutines, any number of
  \<open>Stop\<close> calls and the end of the root context interleave: nothing panics, and when a \<open>Stop\<close>
  has returned the plane had been started, both goroutines have ended and the queue is closed.
\<close>

theorem single_start_safe:
  assumes "life_run new_lifecycle es s" "starts es \<le> 1"
  shows "lf_panic s = None \<and> (Returned \<in> set (lf_stops s) \<longrightarrow> Started \<in> set es \<and>
     lg_loops (lf_plane s) = [False] \<and> lg_loops (lf_sched s) = [False] \<and> mq_closed (lf_queue s))"
proof -
  have "life_inv (starts es) s" using life_inv_run [OF assms(1), of 0] assms(2) by simp
  then show ?thesis by (auto simp: life_inv_def starts_pos lg_loops_def)
qed

text \<open>
  C18. A \<open>Stop\<close> called after the one \<open>Start\<close> waits for nothing but the job being worked on. From
  then on the goroutines and the calls in progress make a bounded number of moves, but for the
  ticks that the scheduler's \<open>select\<close> may take instead of the cancellation. When nothing but a tick
  or the end of the job can happen any more, and no job is being worked on, both goroutines have
  ended and every \<open>Stop\<close> call has returned; while a job is being worked on no \<open>Stop\<close> returns, so a
  handler that ignores its context holds them up.
\<close>

theorem stop_returns:
  assumes "life_run new_lifecycle es s" "starts es = 1" "life_step s Stopping s1"
    and "life_run s1 ms s2" "set ms \<subseteq> {Moved, Worked, Ticked}"
  shows "length ms \<le> moves_left s1 + 2 * ticks ms \<and> lf_stops s2 \<noteq> [] \<and>
    (if lg_at (lf_plane s2) = [AtWork] then set (lf_stops s2) \<subseteq> {AtProcess}
     else (\<nexists>s'. life_step s2 Moved s') \<longrightarrow> lg_loops (lf_plane s2) = [False] \<and> lg_loops (lf_sched s2) = [False] \<and>
       set (lf_stops s2) \<subseteq> {Returned})"
proof -
  have "life_inv 1 s" using life_inv_run [OF assms(1), of 0] assms(2) by simp
  moreover have s1: "s1 = call_stop s" using assms(3) by (cases) simp_all
  ultimately have "life_inv 1 s1" "plane_ctx s1 0" using life_inv_step [OF assms(3), of 1]
    by (auto simp: life_inv_def plane_ctx_def call_stop_def scheduler_cancel_def)
  note run = moves_run [OF assms(4,5) this]
  then have "lf_stops s2 \<noteq> []" using s1 by (auto simp: call_stop_def)
  with run settled [of s2] held_up [of s2] show ?thesis by auto
qed

text \<open>One \<open>Start\<close> and one \<open>Stop\<close>, and the state when \<open>Stop\<close> has returned.\<close>

definition up :: lifecycle where
  "up = start_plane new_lifecycle"

definition down :: lifecycle where
  "down = stop_return 0 (exit_run 0 (stop_next 0 (exit_process 0 (call_stop up))))"

lemmas life_eval = new_lifecycle_def start_plane_def call_stop_def stop_next_def exit_process_def exit_run_def
  stop_return_def plane_ctx_def sched_ctx_def group_defs queue_close_def new_mem_queue_def
  lg_loops_def

lemma up_run: "life_run new_lifecycle [Started] up"
  using life_run.more [OF life_run.none life_step.start, of new_lifecycle] by (simp add: up_def new_lifecycle_def)

lemma leave_at: "process_at s k AtCheck \<Longrightarrow> plane_ctx s k \<Longrightarrow> life_step s Moved (exit_process k s)"
  by (rule life_step.process [where l = AtCheck]) simp_all

lemma life_step_at:
  "lf_panic s = None \<Longrightarrow> s' = stop_return 0 s \<Longrightarrow> lf_stops s = [AtScheduler] \<Longrightarrow> done_closed (lf_sched s) \<Longrightarrow> life_step s Moved s'"
  "lf_panic s = None \<Longrightarrow> s' = stop_next 0 s \<Longrightarrow> lf_stops s = [AtProcess] \<Longrightarrow> done_closed (lf_plane s) \<Longrightarrow> life_step s Moved s'"
  by (simp_all add: life_step.return life_step.proceed)

lemma down_moves: "life_step up Stopping (call_stop up)" "life_run (call_stop up) [Moved, Moved, Moved, Moved] down"
proof -
  show "life_step up Stopping (call_stop up)" by (rule life_step.stop) (simp add: up_def life_eval)
  let ?a = "call_stop up"
  let ?b = "exit_process 0 ?a" let ?c = "stop_next 0 ?b" let ?d = "exit_run 0 ?c"
  have "life_step ?a Moved ?b" by (rule leave_at) (simp_all add: up_def life_eval)
  moreover have "life_step ?b Moved ?c" by (rule life_step_at) (simp_all add: up_def life_eval)
  moreover have "life_step ?c Moved ?d" by (rule life_step.run) (simp_all add: up_def life_eval)
  moreover have "life_step ?d Moved down" by (rule life_step_at) (simp_all add: up_def down_def life_eval)
  ultimately show "life_run ?a [Moved, Moved, Moved, Moved] down"
    using life_run.more [OF life_run.more [OF life_run.more [OF life_run.more [OF life_run.none]]]] by fastforce
qed

lemma life_run_trans: "life_run s2 es' s3 \<Longrightarrow> life_run s1 es s2 \<Longrightarrow> life_run s1 (es @ es') s3"
  by (induction rule: life_run.induct) (auto simp: life_run.more simp flip: append_assoc)

theorem single_start_safe_witness:
  "lf_stops down = [Returned] \<and> lg_loops (lf_plane down) = [False] \<and> mq_closed (lf_queue down)"
proof -
  have "life_run new_lifecycle [Started, Stopping, Moved, Moved, Moved, Moved] down"
    using life_run_trans [OF down_moves(2) life_run.more [OF up_run down_moves(1)]] by simp
  moreover have "lf_stops down = [Returned]" by (simp add: down_def up_def life_eval)
  ultimately show ?thesis using single_start_safe [of "[Started, Stopping, Moved, Moved, Moved, Moved]" down]
    by (simp add: starts_def)
qed

text \<open>The worker is busy with a job when \<open>Stop\<close> is called.\<close>

definition up_busy :: lifecycle where
  "up_busy = process_to 0 AtWork (process_to 0 AtQueue up)"

lemma busy_run: "life_run new_lifecycle [Started, Moved, Moved] up_busy"
proof -
  have "life_step up Moved (process_to 0 AtQueue up)" by (rule life_step.check) (simp_all add: up_def life_eval)
  moreover have "life_step (process_to 0 AtQueue up) Moved up_busy"
    unfolding up_busy_def by (rule life_step.take) (simp add: up_def process_to_def life_eval)
  ultimately show ?thesis using life_run.more [OF life_run.more [OF up_run]] by simp
qed

theorem stop_returns_witness:
  "4 \<le> moves_left (call_stop up) \<and> set (lf_stops down) \<subseteq> {Returned} \<and>
   lf_stops (call_stop up_busy) \<noteq> [] \<and> set (lf_stops (call_stop up_busy)) \<subseteq> {AtProcess}"
proof -
  have "\<nexists>s'. life_step down Moved s'" "lg_at (lf_plane down) \<noteq> [AtWork]"
    by (rule notI, elim exE, erule life_step.cases) (auto simp: down_def up_def life_eval)
  moreover have "life_step up_busy Stopping (call_stop up_busy)" "lg_at (lf_plane (call_stop up_busy)) = [AtWork]"
    by (rule life_step.stop) (simp_all add: up_busy_def process_to_def up_def life_eval)
  ultimately show ?thesis
    using stop_returns [OF up_run _ down_moves] stop_returns [OF busy_run _ _ life_run.none]
    by (simp add: starts_def ticks_def)
qed

text \<open>
  \<open>Start\<close> must not be called twice: there is an interleaving in which \<open>Stop\<close> returns and
  the queue is closed while the worker of the first \<open>Start\<close> still runs, and when the root
  context ends that worker's deferred close panics and takes the process down.
\<close>

theorem second_start_panics:
  "\<exists>s s'. life_run new_lifecycle [Started, Started, Stopping, Moved, Moved, Moved, Moved] s \<and>
     lf_stops s = [Returned] \<and> mq_closed (lf_queue s) \<and> lg_loops (lf_plane s) = [True, False] \<and>
     life_run s [Signalled, Moved] s' \<and> lf_panic s' = Some (Panic ''close of closed channel'')"
proof -
  let ?a = "call_stop (start_plane up)"
  let ?b = "exit_process 1 ?a" let ?c = "stop_next 0 ?b" let ?d = "exit_run 1 ?c" let ?e = "stop_return 0 ?d"
  let ?f = "?e\<lparr>lf_root := True\<rparr>"
  have a: "life_run new_lifecycle [Started, Started, Stopping] ?a"
    using life_run.more [OF life_run.more [OF up_run life_step.start] life_step.stop] by (simp add: up_def life_eval)
  have b: "life_step ?a Moved ?b" by (rule leave_at) (simp_all add: up_def life_eval)
  have c: "life_step ?b Moved ?c" by (rule life_step_at) (simp_all add: up_def life_eval)
  have d: "life_step ?c Moved ?d" by (rule life_step.run) (simp_all add: up_def life_eval)
  have e: "life_step ?d Moved ?e" by (rule life_step_at) (simp_all add: up_def life_eval)
  have f: "life_step ?e Signalled ?f" by (rule life_step.signal) (simp add: up_def life_eval)
  have g: "life_step ?f Moved (exit_process 0 ?f)" by (rule leave_at) (simp_all add: up_def life_eval)
  have "life_run new_lifecycle [Started, Started, Stopping, Moved, Moved, Moved, Moved] ?e"
    using life_run.more [OF life_run.more [OF life_run.more [OF life_run.more [OF a b] c] d] e] by simp
  moreover have "life_run ?e [Signalled, Moved] (exit_process 0 ?f)"
    using life_run.more [OF life_run.more [OF life_run.none f] g] by simp
  moreover have "lf_stops ?e = [Returned]" "mq_closed (lf_queue ?e)" "lg_loops (lf_plane ?e) = [True, False]"
    "lf_panic (exit_process 0 ?f) = Some (Panic ''close of closed channel'')"
    by (simp_all add: up_def life_eval)
  ultimately show ?thesis by blast
qed

end
