(* ===== verification/Plane_Life.thy ===== *)
theory Plane_Life
  imports Plane_Props Lifecycle
begin

text \<open>
  The plane of Plane_Steps, whose loops move jobs, refines the plane of Lifecycle, which only
  knows when its goroutines and its \<open>Stop\<close> calls begin and end.
\<close>

fun worker_loops :: "worker \<Rightarrow> bool list" where
  "worker_loops W_NotStarted = []"
| "worker_loops W_Exited = [False]"
| "worker_loops _ = [True]"

fun ticker_loops :: "ticker \<Rightarrow> bool list" where
  "ticker_loops T_NotStarted = []"
| "ticker_loops T_Exited = [False]"
| "ticker_loops (T_Flush rs) = [True]"

text \<open>Where the goroutines of the lifecycle are.\<close>

fun worker_at :: "worker \<Rightarrow> loop_at list" where
  "worker_at W_NotStarted = []"
| "worker_at W_Loop = [AtCheck]"
| "worker_at W_Wait = [AtSelect]"
| "worker_at W_Exited = [Ended]"
| "worker_at _ = [AtWork]"

fun ticker_at :: "ticker \<Rightarrow> loop_at list" where
  "ticker_at T_NotStarted = []"
| "ticker_at T_Exited = [Ended]"
| "ticker_at (T_Flush rs) = (if rs = [] then [AtSelect] else [AtWork])"

lemma loops_at: "worker_loops w = map (\<lambda>l. l \<noteq> Ended) (worker_at w)" "ticker_loops t = map (\<lambda>l. l \<noteq> Ended) (ticker_at t)"
  by (cases w; simp) (cases t; simp)

definition life_view :: "plane \<Rightarrow> loop_at list \<times> loop_at list \<times> bool \<times> bool" where
  "life_view p = (worker_at (pl_worker p), ticker_at (pl_ticker p), pl_cancelled p, mq_closed (pl_queue p))"

lemma view_schedule: "plane_schedule now r p = (res, p') \<Longrightarrow> mem_queue_inv (pl_queue p) \<Longrightarrow>
    life_view p' = life_view p"
proof -
  assume run: "plane_schedule now r p = (res, p')" "mem_queue_inv (pl_queue p)"
  obtain x where "p' = p\<lparr>pl_sched := x\<rparr>" using plane_schedule_same [OF run(1)] by blast
  with schedule_closed [OF run(2,1)] show ?thesis by (simp add: life_view_def)
qed

lemma life_view_frame [simp]:
  "life_view (p\<lparr>pl_calls := cs\<rparr>) = life_view p" "life_view (p\<lparr>pl_clock := now\<rparr>) = life_view p"
  by (simp_all add: life_view_def)

lemma at_cases: "worker_at w = [] \<longleftrightarrow> w = W_NotStarted" "worker_at w = [Ended] \<longleftrightarrow> w = W_Exited"
  by (cases w; simp)+

lemma worker_finish_cancelled [simp]: "pl_cancelled (worker_finish t1 t2 r err p) = pl_cancelled p"
  by (simp add: worker_finish_def split: option.split)

text \<open>How a move can take a goroutine on; \<open>c\<close> says that its context is cancelled.\<close>

definition worker_moves :: "bool \<Rightarrow> loop_at \<Rightarrow> loop_at \<Rightarrow> bool" where
  "worker_moves c w w' \<longleftrightarrow> c \<and> w \<in> {AtCheck, AtSelect} \<and> w' = Ended \<or>
     \<not> c \<and> w = AtCheck \<and> w' \<in> {AtSelect, AtWork} \<or> w \<in> {AtSelect, AtWork} \<and> w' = AtCheck"

definition ticker_moves :: "bool \<Rightarrow> loop_at \<Rightarrow> loop_at \<Rightarrow> bool" where
  "ticker_moves c t t' \<longleftrightarrow> c \<and> t = AtSelect \<and> t' = Ended \<or> t = AtSelect \<and> t' = AtWork \<or> t = AtWork \<and> t' = AtSelect"

lemma view_resched:
  assumes "plane_schedule now r p = (res, p1)" "mem_queue_inv (pl_queue p)" "life_view p = (ws, ts, c, cl)"
  shows "life_view (at_time now (worker_resched now r p)) = ([AtCheck], ts, c, cl)"
proof -
  have "life_view p1 = (ws, ts, c, cl)" using view_schedule [OF assms(1,2)] assms(3) by simp
  moreover obtain x where "p1 = p\<lparr>pl_sched := x\<rparr>" using plane_schedule_same [OF assms(1)] by blast
  ultimately show ?thesis using worker_resched_same [OF assms(1)] by (simp add: life_view_def)
qed

lemma step_view:
  assumes "plane_step p ev p'" "mem_queue_inv (pl_queue p)" "life_view p = (ws, ts, c, cl)"
  shows "life_view p' = (ws, ts, c, cl) \<or>
    ws = [] \<and> ts = [] \<and> life_view p' = ([AtCheck], [AtSelect], False, cl) \<or>
    ws \<noteq> [] \<and> life_view p' = (ws, ts, True, cl) \<or>
    (\<exists>w w'. ws = [w] \<and> worker_moves c w w' \<and> life_view p' = ([w'], ts, c, cl)) \<or>
    (\<exists>t t'. ts = [t] \<and> ticker_moves c t t' \<and> life_view p' = (ws, [t'], c, cl)) \<or>
    ws = [Ended] \<and> ts = [Ended] \<and> life_view p' = (ws, ts, c, True)"
  using assms(1)
proof cases
  case (call_ok i r rs now p1)
  have "life_view p1 = (ws, ts, c, cl)" using view_schedule [OF call_ok(6) assms(2)] assms(3) by simp
  with call_ok(2) show ?thesis by simp
next
  case (call_err i r rs now e p1)
  have "life_view p1 = (ws, ts, c, cl)" using view_schedule [OF call_err(6) assms(2)] assms(3) by simp
  with call_err(2) show ?thesis by simp
next
  case (close res)
  then obtain q where "pl_worker p = W_Exited" "pl_ticker p = T_Exited" "mq_closed q"
    "p' = p\<lparr>pl_sched := (pl_sched p)\<lparr>sch_queue := q\<rparr>\<rparr>" using stop_close_cases [OF assms(2)] by blast
  then have "life_view p = ([Ended], [Ended], pl_cancelled p, mq_closed (pl_queue p))"
    "life_view p' = ([Ended], [Ended], pl_cancelled p, True)" by (simp_all add: life_view_def)
  with assms(3) have "ws = [Ended] \<and> ts = [Ended] \<and> life_view p' = (ws, ts, c, True)" by auto
  then show ?thesis by blast
next
  case top
  then have w: "ws = [AtCheck]" "ts = ticker_at (pl_ticker p)" "c = pl_cancelled p" "cl = mq_closed (pl_queue p)"
    using assms(3) by (simp_all add: life_view_def)
  have "\<exists>w'. worker_moves c AtCheck w' \<and> life_view p' = ([w'], ts, c, cl)"
    using worker_top_cases [OF assms(2)] top(2) unfolding w(2-4) by (auto simp: life_view_def worker_moves_def)
  with w(1) show ?thesis by blast
next
  case (settle r err t1 t2)
  with assms(3) show ?thesis by (auto simp: life_view_def worker_moves_def)
next
  case (retry r err t1 t2)
  with assms(3) show ?thesis by (simp add: life_view_def)
next
  case (resched_ok r now p1)
  have "life_view p' = ([AtCheck], ts, c, cl)" unfolding resched_ok(2)
    by (rule view_resched [OF resched_ok(5) assms(2,3)])
  moreover have "ws = [AtWork]" using assms(3) resched_ok(3) by (simp add: life_view_def)
  ultimately show ?thesis by (simp add: worker_moves_def)
next
  case (resched_drop r now e p1)
  have "life_view p' = ([AtCheck], ts, c, cl)" unfolding resched_drop(2)
    by (rule view_resched [OF resched_drop(5) assms(2,3)])
  moreover have "ws = [AtWork]" using assms(3) resched_drop(3) by (simp add: life_view_def)
  ultimately show ?thesis by (simp add: worker_moves_def)
next
  case (push_ok r rs q)
  with mq.enqD [of "pl_queue p" r q] assms(2,3) show ?thesis
    by (auto simp: life_view_def ticker_push_Inr ticker_moves_def)
next
  case (push_drop r rs e)
  with assms(3) show ?thesis by (auto simp: life_view_def ticker_push_Inl ticker_moves_def)
qed (use assms(3) in \<open>auto simp: life_view_def op_defs ticker_take_def flush_take_def at_cases worker_moves_def
  ticker_moves_def split: prod.splits\<close>)

text \<open>
  The goroutines of a plane and those of a lifecycle agree; once the worker has ended its
  context is cancelled.
\<close>

fun same_life :: "loop_at list \<times> loop_at list \<times> bool \<times> bool \<Rightarrow> lifecycle \<Rightarrow> bool" where
  "same_life (ws, ts, c, cl) s \<longleftrightarrow> lg_at (lf_plane s) = ws \<and> lg_at (lf_sched s) = ts \<and> \<not> lf_root s \<and>
     (ws \<noteq> [] \<longrightarrow> plane_ctx s 0 = c) \<and> mq_closed (lf_queue s) = cl \<and> (ws = [Ended] \<longrightarrow> c)"

definition life_matches :: "plane \<Rightarrow> bool" where
  "life_matches p \<longleftrightarrow> (\<exists>es s. life_run new_lifecycle es s \<and> starts es \<le> 1 \<and> same_life (life_view p) s)"

lemma starts_app [simp]: "starts (xs @ ys) = starts xs + starts ys" "starts [] = 0"
  "starts (e # es) = (if e = Started then 1 else 0) + starts es"
  by (simp_all add: starts_def)

lemma matches_run:
  assumes "life_run new_lifecycle es s" "starts es + starts es' \<le> 1" "life_run s es' s'" "same_life (life_view p) s'"
  shows "life_matches p"
  using life_run_trans [OF assms(3,1)] assms(2,4) unfolding life_matches_def by (metis starts_app(1))

lemma one_move: "life_step s e s' \<Longrightarrow> life_run s [e] s'"
  using life_run.more [OF life_run.none] by simp

lemma follow: "life_step s e s' \<Longrightarrow> e \<noteq> Started \<Longrightarrow> same_life v s' \<Longrightarrow>
    \<exists>es s'. life_run s es s' \<and> starts es = 0 \<and> same_life v s'"
  using one_move by (intro exI [of _ "[e]"] exI [of _ s']) simp

text \<open>The moves of a goroutine of the plane are moves of the lifecycle.\<close>

lemma worker_follows:
  assumes "life_inv n s" "same_life ([w], ts, c, cl) s" "worker_moves c w w'"
  shows "\<exists>es s'. life_run s es s' \<and> starts es = 0 \<and> same_life ([w'], ts, c, cl) s'"
proof -
  have ok: "lf_panic s = None" and g: "group_inv n (lf_plane s)" using assms(1) by (simp_all add: life_inv_def)
  have s: "lg_at (lf_plane s) = [w]" "plane_ctx s 0 = c" "lg_at (lf_sched s) = ts" "\<not> lf_root s" "mq_closed (lf_queue s) = cl"
    using assms(2) by simp_all
  have to: "same_life ([l], ts, c, cl) (process_to 0 l s)" if "l \<noteq> Ended" for l
    using s that by (simp add: process_to_def loop_to_def plane_ctx_def)
  show ?thesis
    using assms(3) unfolding worker_moves_def
  proof (elim disjE conjE)
    assume "c" "w \<in> {AtCheck, AtSelect}" "w' = Ended"
    moreover from this have "life_step s Moved (exit_process 0 s)" using s ok by (intro life_step.process [of s 0 w]) auto
    moreover obtain g' where "run_exit 0 (lf_plane s) = Done g'" "lg_at g' = [Ended]" "lg_ctxs g' = lg_ctxs (lf_plane s)"
      using run_exit_one [OF g, of 0] s(1) calculation(2) by auto
    then have "same_life ([w'], ts, c, cl) (exit_process 0 s)"
      using s \<open>c\<close> \<open>w' = Ended\<close> by (simp add: exit_process_def plane_ctx_def)
    ultimately show ?thesis using follow by blast
  next
    assume "\<not> c" "w = AtCheck" and w': "w' \<in> {AtSelect, AtWork}"
    then have q: "life_step s Moved (process_to 0 AtQueue s)" using s ok by (intro life_step.check) auto
    have at: "process_at (process_to 0 AtQueue s) 0 AtQueue" using s(1) ok by (simp add: process_to_def loop_to_def)
    have "process_to 0 w' (process_to 0 AtQueue s) = process_to 0 w' s" by (simp add: process_to_def loop_to_def)
    with life_step.idle [OF at] life_step.take [OF at] w'
    have "life_step (process_to 0 AtQueue s) Moved (process_to 0 w' s)" by auto
    then have "life_run s ([Moved] @ [Moved]) (process_to 0 w' s)" using life_run.more [OF one_move [OF q]] by simp
    with to [of w'] w' show ?thesis by (intro exI [of _ "[Moved] @ [Moved]"] exI conjI) auto
  next
    assume "w \<in> {AtSelect, AtWork}" "w' = AtCheck"
    moreover from this have "life_step s (if w = AtWork then Worked else Moved) (process_to 0 AtCheck s)"
      using s(1) ok life_step.wake [of s 0] life_step.worked [of s 0] by auto
    ultimately show ?thesis using to [of AtCheck] follow by fastforce
  qed
qed

lemma ticker_follows:
  assumes "life_inv n s" "same_life (ws, [t], c, cl) s" "ticker_moves c t t'"
  shows "\<exists>es s'. life_run s es s' \<and> starts es = 0 \<and> same_life (ws, [t'], c, cl) s'"
proof -
  have ok: "lf_panic s = None" and g: "group_inv n (lf_plane s)" "group_inv n (lf_sched s)"
    using assms(1) by (simp_all add: life_inv_def)
  have "ws \<noteq> []" using g assms(2) by auto
  then have s: "lg_at (lf_sched s) = [t]" "plane_ctx s 0 = c" "lg_at (lf_plane s) = ws" "\<not> lf_root s"
    "mq_closed (lf_queue s) = cl" "ws = [Ended] \<longrightarrow> c" using assms(2) by simp_all
  have to: "same_life (ws, [l], c, cl) (run_to 0 l s)" for l
    using s by (auto simp: run_to_def loop_to_def plane_ctx_def)
  show ?thesis
    using assms(3) unfolding ticker_moves_def
  proof (elim disjE conjE)
    assume "c" "t = AtSelect" "t' = Ended"
    moreover from this have "life_step s Moved (exit_run 0 s)" using s ok by (intro life_step.run) (auto simp: sched_ctx_def)
    moreover obtain g' where "run_exit 0 (lf_sched s) = Done g'" "lg_at g' = [Ended]"
      using run_exit_one [OF g(2), of 0] s(1) calculation(2) by auto
    then have "same_life (ws, [t'], c, cl) (exit_run 0 s)"
      using s \<open>c\<close> \<open>t' = Ended\<close> by (auto simp: exit_run_def plane_ctx_def)
    ultimately show ?thesis using follow by blast
  next
    assume t: "t = AtSelect" "t' = AtWork"
    then have "life_step s Ticked (run_to 0 AtWork s)" using s(1) ok by (intro life_step.tick) auto
    with t to show ?thesis using follow by blast
  next
    assume t: "t = AtWork" "t' = AtSelect"
    then have "life_step s Moved (run_to 0 AtSelect s)" using s(1) ok by (intro life_step.flushed) auto
    with t to show ?thesis using follow by blast
  qed
qed

text \<open>Closing the queue of a plane that has ended is a whole \<open>Stop\<close> call of the lifecycle.\<close>

lemma matches_close:
  assumes "life_run new_lifecycle es s" "starts es \<le> 1" "same_life ([Ended], [Ended], c, cl) s"
    and "life_view p = ([Ended], [Ended], c, True)"
  shows "life_matches p"
proof -
  have inv: "life_inv (starts es) s" using life_inv_run [OF assms(1), of 0] assms(2) by simp
  then have ok: "lf_panic s = None" and g: "group_inv (starts es) (lf_plane s)" "group_inv (starts es) (lf_sched s)"
    and q: "mem_queue_inv (lf_queue s)" by (simp_all add: life_inv_def)
  let ?i = "length (lf_stops s)"
  let ?a = "call_stop s" let ?b = "stop_next ?i ?a" let ?c = "stop_return ?i ?b"
  have d: "done_closed (lf_plane s)" "done_closed (lf_sched s)" using assms(3) g by auto
  have a: "lf_panic ?a = None" "lf_stops ?a = lf_stops s @ [AtProcess]" "done_closed (lf_plane ?a)"
    "done_closed (lf_sched ?a)" "lf_queue ?a = lf_queue s"
    using d ok group_inv_ops(2) [OF g(1)] by (simp_all add: call_stop_def)
  have b: "lf_panic ?b = None" "lf_stops ?b = lf_stops s @ [AtScheduler]" "done_closed (lf_sched ?b)" "lf_queue ?b = lf_queue s"
    using a(1,2,4,5) group_inv_ops(2) [of _ "lf_sched s"] g(2) by (auto simp: stop_next_def call_stop_def simp del: group_inv.simps)
  have "life_step s Stopping ?a" by (rule life_step.stop [OF ok])
  moreover have "life_step ?a Moved ?b" using a by (intro life_step.proceed) (auto simp: nth_append)
  moreover have "life_step ?b Moved ?c" using b by (intro life_step.return) (auto simp: nth_append)
  ultimately have r: "life_run new_lifecycle (es @ [Stopping] @ [Moved] @ [Moved]) ?c"
    using life_run.more [OF life_run.more [OF life_run.more [OF assms(1)]]] by simp
  have "same_life (life_view p) ?c"
    using assms(3,4) g mq.close_ok [OF q] b(4)
    by (auto simp: stop_return_def stop_next_def call_stop_def scheduler_cancel_def plane_ctx_def)
  with r assms(2) show ?thesis unfolding life_matches_def by (intro exI [of _ ?c] exI) (auto simp: starts_def)
qed

lemma life_matches_step:
  assumes "plane_step p ev p'" "mem_queue_inv (pl_queue p)" "life_matches p"
  shows "life_matches p'"
proof -
  obtain ws ts c cl where v: "life_view p = (ws, ts, c, cl)" by (metis prod_cases4)
  obtain es s where run: "life_run new_lifecycle es s" "starts es \<le> 1" and same: "same_life (ws, ts, c, cl) s"
    using assms(3) v by (auto simp: life_matches_def)
  have inv: "life_inv (starts es) s" using life_inv_run [OF run(1), of 0] run(2) by simp
  then have ok: "lf_panic s = None" and g: "group_inv (starts es) (lf_plane s)" "group_inv (starts es) (lf_sched s)"
    by (simp_all add: life_inv_def)
  from step_view [OF assms(1,2) v] show ?thesis
  proof (elim disjE conjE exE)
    assume "life_view p' = (ws, ts, c, cl)"
    with run same show ?thesis by (auto simp: life_matches_def)
  next
    assume v': "ws = []" "ts = []" "life_view p' = ([AtCheck], [AtSelect], False, cl)"
    with same g have "starts es = 0" by auto
    with v' same g show ?thesis
      by (intro matches_run [OF run(1) _ one_move [OF life_step.start [OF ok]]])
        (auto simp: start_plane_def scheduler_start_def plane_ctx_def)
  next
    assume "ws \<noteq> []" "life_view p' = (ws, ts, True, cl)"
    with same g run(2) show ?thesis
      by (intro matches_run [OF run(1) _ one_move [OF life_step.stop [OF ok]]])
        (auto simp: call_stop_def scheduler_cancel_def plane_ctx_def)
  next
    fix w w' assume v': "ws = [w]" "worker_moves c w w'" "life_view p' = ([w'], ts, c, cl)"
    with worker_follows [OF inv _ v'(2)] same obtain es' s' where
      "life_run s es' s'" "starts es' = 0" "same_life ([w'], ts, c, cl) s'" by blast
    with run(2) v'(3) show ?thesis by (intro matches_run [OF run(1)]) auto
  next
    fix t t' assume v': "ts = [t]" "ticker_moves c t t'" "life_view p' = (ws, [t'], c, cl)"
    with ticker_follows [OF inv _ v'(2)] same obtain es' s' where
      "life_run s es' s'" "starts es' = 0" "same_life (ws, [t'], c, cl) s'" by blast
    with run(2) v'(3) show ?thesis by (intro matches_run [OF run(1)]) auto
  next
    assume v': "ws = [Ended]" "ts = [Ended]" "life_view p' = (ws, ts, c, True)"
    with matches_close [OF run] same show ?thesis by metis
  qed
qed

lemma life_matches_new [simp]: "life_matches (new_plane h now)"
proof -
  have "same_life (life_view (new_plane h now)) new_lifecycle"
    by (simp add: life_view_def new_plane_def new_scheduler_def new_lifecycle_def new_group_def)
  then show ?thesis unfolding life_matches_def by (intro exI [of _ new_lifecycle] exI [of _ "[]"]) (simp add: life_run.none starts_def)
qed

lemma life_matches_alloc: "life_matches p \<Longrightarrow> life_matches (upd_job r f p)"
  by (simp add: life_matches_def life_view_def)

lemma reach_matches: "reach p \<Longrightarrow> life_matches p"
  by (induction rule: reach.induct) (auto intro: life_matches_step life_matches_alloc plane_inv_queue reach_inv)

section \<open>Properties\<close>

text \<open>
  C19. The detailed plane refines the lifecycle: for every reachable state of the plane, with
  its jobs, there is a run of the lifecycle with at most one \<open>Start\<close> and no panic in which the
  same goroutines have been started and have ended, the others are at the same point of their
  loops, the plane's context is cancelled or not alike, and the queue is closed or open alike.
\<close>

theorem plane_refines_lifecycle:
  assumes "reach p"
  shows "\<exists>es s. life_run new_lifecycle es s \<and> starts es \<le> 1 \<and> lf_panic s = None \<and>
    lg_loops (lf_plane s) = worker_loops (pl_worker p) \<and> lg_loops (lf_sched s) = ticker_loops (pl_ticker p) \<and>
    lg_at (lf_plane s) = worker_at (pl_worker p) \<and> lg_at (lf_sched s) = ticker_at (pl_ticker p) \<and>
    (pl_worker p = W_NotStarted \<or> plane_ctx s 0 = pl_cancelled p) \<and>
    mq_closed (lf_queue s) = mq_closed (pl_queue p)"
proof -
  obtain es s where s: "life_run new_lifecycle es s" "starts es \<le> 1" "same_life (life_view p) s"
    using reach_matches [OF assms] by (auto simp: life_matches_def)
  moreover have "life_inv (starts es) s" using life_inv_run [OF s(1), of 0] s(2) by simp
  then have "lf_panic s = None" by (simp add: life_inv_def)
  ultimately show ?thesis by (intro exI [of _ es] exI [of _ s]) (auto simp: life_view_def at_cases loops_at lg_loops_def)
qed

theorem plane_refines_lifecycle_witness:
  "pl_worker plane6 = W_Loop \<and> (\<exists>es s. life_run new_lifecycle es s \<and> lg_loops (lf_plane s) = [True])"
  using plane_refines_lifecycle [OF plane6_reach] by (auto simp: plane6_eval)

end
