(* ===== verification/Process.thy ===== *)
theory Process
  imports Api_Props Plane_Life
begin

text \<open>
  A started process with its background loops: between any two requests the worker and the
  scheduler loop of the execution plane make any number of moves. The plane of the process
  stays a reachable plane of the step relation, so what Plane_Props shows of those holds of it.
\<close>

section \<open>What a call does to the execution plane\<close>

definition submitted :: "serve_env \<Rightarrow> 'n world \<Rightarrow> 'n world \<Rightarrow> bool" where
  "submitted se s s' \<longleftrightarrow> co_exec s' = co_exec s \<and> co_jobs s' = co_jobs s \<or>
     (\<exists>job res. fresh_job job \<and> co_jobs s' = Suc (co_jobs s) \<and>
        submit (se_now se) (co_jobs s) (upd_job (co_jobs s) (\<lambda>_. job) (co_exec s)) = (res, co_exec s'))"

lemma task_submits: "task_handler se req (h, s) = (out, (h', s')) \<Longrightarrow> submitted se s s'"
  unfolding submitted_def
  by (auto simp: task_handler_def authorize_cases Let_def split: sum.splits prod.splits if_splits
      intro!: exI [of _ "new_job _ _ _ _ _"])

lemma store_exec: "store_handler mp se req (h, s) = (out, (h', s')) \<Longrightarrow> co_exec s' = co_exec s \<and> co_jobs s' = co_jobs s"
  by (auto simp: store_handler_def Let_def split: sum.splits prod.splits)

lemma search_exec: "search_handler ff ft mp se req (h, s) = (out, (h', s')) \<Longrightarrow> co_exec s' = co_exec s \<and> co_jobs s' = co_jobs s"
  by (auto simp: search_handler_def Let_def split: sum.splits prod.splits)

lemma route_submits:
  assumes "gw_routes (register_handlers ff ft mp se reg (new_gateway host port)) action = Some f"
    and "f req (h, s) = (out, (h', s'))"
  shows "submitted se s s'"
proof -
  let ?P = "\<lambda>action f. \<forall>out h' s'. f req (h, s) = (out, (h', s')) \<longrightarrow> submitted se s s'"
  have "?P action f"
  proof (rule routes_split [OF assms(1), where P = ?P]; intro allI impI)
    fix out h' s'
    show "chat_handler se req (h, s) = (out, (h', s')) \<Longrightarrow> submitted se s s'"
      using chat_effect unfolding submitted_def by blast
    show "task_handler se req (h, s) = (out, (h', s')) \<Longrightarrow> submitted se s s'" by (rule task_submits)
    show "store_handler mp se req (h, s) = (out, (h', s')) \<Longrightarrow> submitted se s s'"
      using store_exec unfolding submitted_def by blast
    show "search_handler ff ft mp se req (h, s) = (out, (h', s')) \<Longrightarrow> submitted se s s'"
      using search_exec unfolding submitted_def by blast
    show "health_handler se reg req (h, s) = (out, (h', s')) \<Longrightarrow> submitted se s s'"
      using health_effect [of se reg req h s out h' s'] by (simp add: submitted_def)
  qed
  with assms(2) show ?thesis by blast
qed

definition wired_api :: "'n host_env \<Rightarrow> 'n hydra \<Rightarrow> bool" where
  "wired_api he hy \<longleftrightarrow> (\<exists>mp host port. hy_gateway hy = (\<lambda>se.
     register_handlers (he_ff he) (he_ft he) mp se (hy_heads hy) (new_gateway host port)))"

lemma started_wired:
  assumes "hydra_start he order n loaded = Inr hy" shows "wired_api he hy"
proof -
  obtain hy0 w where hy: "wire he n (choose_config loaded) = Inr hy0" "hy = hy0\<lparr>hy_core := w\<rparr>"
    using assms by (auto simp: hydra_start_def Let_def split: sum.splits prod.splits)
  then show ?thesis
    by (auto simp: wire_def wired_api_def Let_def split: sum.splits intro!: exI)
qed

lemma api_call_submits:
  assumes "wired_api he hy" "api_call he hy (re, se) rq (h, s) = (w, (h', s'))"
  shows "submitted se s s'"
proof -
  obtain mp host port where "hy_gateway hy (snd (re, se)) =
      register_handlers (he_ff he) (he_ft he) mp (snd (re, se)) (hy_heads hy) (new_gateway host port)"
    using assms(1) by (auto simp: wired_api_def)
  from this assms(2) show ?thesis
  proof (cases rule: api_call_cases)
    case refused
    then show ?thesis by (simp add: submitted_def)
  next
    case (ran action f e h1 out)
    from route_submits [OF ran(1,3)] show ?thesis by simp
  qed
qed

section \<open>A submitted job and the moves of the loops\<close>

lemma step_tracked:
  assumes "plane_step p ev p'" "mem_queue_inv (pl_queue p)"
  shows "set (tracked p') \<subseteq> set (tracked p) \<union> set (arrivals ev)"
proof -
  have "set_mset (mset (tracked p')) \<subseteq> set_mset (mset (tracked p) + mset (arrivals ev))"
    using plane_step_mset [OF assms] by (metis set_mset_mono mset_subset_eq_add_left)
  then show ?thesis by simp
qed

lemma schedule_calls: "plane_schedule now r (p\<lparr>pl_calls := cs\<rparr>) =
    (case plane_schedule now r p of (res, q) \<Rightarrow> (res, q\<lparr>pl_calls := cs\<rparr>))"
  by (simp add: plane_schedule_def split: sum.split)

lemma schedule_keeps_calls: "plane_schedule now r p = (res, q) \<Longrightarrow> pl_calls q = pl_calls p"
  using plane_schedule_frame(6) [of now r p] by simp

text \<open>\<open>Submit\<close> of a job in a new cell is a run of the plane: register, schedule, return.\<close>

lemma submit_run:
  assumes "reach p" "pl_calls p = []" "n \<notin> set (tracked p)" "fresh_job (pl_heap p n)" "pl_clock p \<le> now"
    and "submit now n p = (res, p')"
  shows "plane_run p [Ev_Register [n], case res of Inl e \<Rightarrow> Ev_Refuse [n] e | Inr u \<Rightarrow> Ev_Tau, Ev_Tau] (at_time now p') \<and>
    pl_calls p' = []"
proof -
  let ?p2 = "(register_job n p)\<lparr>pl_calls := [[n]]\<rparr>" and ?q = "at_time now (p'\<lparr>pl_calls := [[]]\<rparr>)"
  let ?ev = "case res of Inl e \<Rightarrow> Ev_Refuse [n] e | Inr u \<Rightarrow> Ev_Tau"
  have s2: "plane_step p (Ev_Register [n]) ?p2" using plane_step.submit [of p n] assms(2) by simp
  have d2: "disciplined p (Ev_Register [n])" using assms(3,4) by simp
  have calls: "pl_calls p' = []" using schedule_keeps_calls assms(2,6) by (fastforce simp: submit_def register_job_def)
  have run: "plane_schedule now n ?p2 = (res, p'\<lparr>pl_calls := [[n]]\<rparr>)"
    using assms(6) by (simp add: submit_def schedule_calls)
  have s3: "plane_step ?p2 ?ev ?q"
  proof (cases res)
    case (Inl e)
    with run plane_step.call_err [of 0 ?p2 n "[]" now e "p'\<lparr>pl_calls := [[n]]\<rparr>"] assms(5) show ?thesis
      by (simp add: register_job_def)
  next
    case (Inr u)
    with run plane_step.call_ok [of 0 ?p2 n "[]" now "p'\<lparr>pl_calls := [[n]]\<rparr>"] assms(5) show ?thesis
      by (simp add: register_job_def)
  qed
  have d3: "disciplined ?p2 ?ev" by (simp split: sum.split)
  have q: "?q\<lparr>pl_calls := []\<rparr> = at_time now p'" using calls by simp
  have s4: "plane_step ?q Ev_Tau (at_time now p')" using plane_step.call_done [of ?q "[]" "[]"] unfolding append_Nil q by simp
  have d4: "disciplined ?q Ev_Tau" by simp
  show ?thesis
    using plane_run.snoc [OF plane_run.snoc [OF plane_run.snoc [OF plane_run.refl s2 d2] s3 d3] s4 d4] calls by simp
qed

lemma tracked_time [simp]: "tracked (at_time now p) = tracked p"
  by (simp add: refs_defs)

text \<open>Where a job is after a submission: still held or finished, and the new one held if it was accepted.\<close>

abbreviation kept :: "ref \<Rightarrow> plane \<Rightarrow> bool" where
  "kept r p \<equiv> r \<in> set (tracked p) \<or> terminal (job_state (pl_heap p r))"

lemma submit_reach:
  assumes "reach p" "pl_calls p = []" "n \<notin> set (tracked p)" "n \<notin> ran (pl_jobs p)" "fresh_job job" "pl_clock p \<le> now"
    and "submit now n (upd_job n (\<lambda>_. job) p) = (res, p')"
  shows "reach (at_time now p')" "pl_calls p' = []" "set (tracked p') \<subseteq> insert n (set (tracked p))"
    and "r \<noteq> n \<Longrightarrow> kept r p \<Longrightarrow> kept r p'" "res = Inr u \<Longrightarrow> kept n p'"
proof -
  let ?p1 = "upd_job n (\<lambda>_. job) p"
  let ?evs = "[Ev_Register [n], case res of Inl e \<Rightarrow> Ev_Refuse [n] e | Inr u \<Rightarrow> Ev_Tau, Ev_Tau]"
  have r1: "reach ?p1" using reach.alloc [OF assms(1,5,3,4)] .
  have t1: "tracked ?p1 = tracked p" by (simp add: refs_defs)
  have run: "plane_run ?p1 ?evs (at_time now p')" "pl_calls p' = []"
    using submit_run [OF r1 _ _ _ _ assms(7)] assms(2,3,5,6) t1(1) by simp_all
  then show "reach (at_time now p')" "pl_calls p' = []" using plane_run_reach r1 by blast+
  have "set_mset (mset (tracked p')) \<subseteq> set_mset (mset (tracked p) + mset (concat (map arrivals ?evs)))"
    using plane_run_mset [OF run(1) r1] unfolding t1 tracked_time by (metis set_mset_mono mset_subset_eq_add_left)
  moreover have "set (concat (map arrivals ?evs)) \<subseteq> {n}" by (simp split: sum.split)
  ultimately show "set (tracked p') \<subseteq> insert n (set (tracked p))" by auto
  show "kept n p'" if "res = Inr u"
    using run_kept [OF run(1) r1, of n] that by auto
  show "kept r p'" if r: "r \<noteq> n" "kept r p"
  proof (cases "r \<in> set (tracked p)")
    case True
    with run_kept [OF run(1) r1, of r] r(1) t1 show ?thesis by (auto split: sum.splits)
  next
    case False
    with r submit_frame [OF assms(7)] show ?thesis by simp
  qed
qed

section \<open>The process as a whole\<close>

text \<open>
  A request is handled at the clock reading \<open>se_now\<close>, not before the last one of the plane; a
  move of the background loops touches the execution plane only.
\<close>

inductive process_run :: "'n host_env \<Rightarrow> 'n hydra \<Rightarrow> meta_heap \<times> 'n world \<Rightarrow> event list \<Rightarrow> meta_heap \<times> 'n world \<Rightarrow> bool"
  for he hy where
  idle: "process_run he hy s [] s"
| request: "process_run he hy s0 evs (h, s) \<Longrightarrow> pl_clock (co_exec s) \<le> se_now se \<Longrightarrow>
     api_call he hy (re, se) rq (h, s) = (w, (h', s')) \<Longrightarrow>
     process_run he hy s0 evs (h', s'\<lparr>co_exec := at_time (se_now se) (co_exec s')\<rparr>)"
| loops: "process_run he hy s0 evs (h, s) \<Longrightarrow> plane_step (co_exec s) ev p \<Longrightarrow> background ev \<Longrightarrow>
     process_run he hy s0 (evs @ [ev]) (h, s\<lparr>co_exec := p\<rparr>)"

text \<open>The plane is reachable, no client call is left open, and every job in use is in an allocated cell.\<close>

definition process_inv :: "'n world \<Rightarrow> bool" where
  "process_inv s \<longleftrightarrow> reach (co_exec s) \<and> pl_calls (co_exec s) = [] \<and>
     set (tracked (co_exec s)) \<union> ran (pl_jobs (co_exec s)) \<subseteq> {..<co_jobs s}"

lemma process_inv_time:
  assumes "process_inv s" "pl_clock (co_exec s) \<le> now"
  shows "process_inv (s\<lparr>co_exec := at_time now (co_exec s)\<rparr>)"
  using assms reach.step [OF _ plane_step.elapse [OF assms(2)]]
  by (simp add: process_inv_def refs_defs)

text \<open>A submission in a process: the cell is free, and a job in an older cell stays where it is.\<close>

lemma process_submit:
  assumes "process_inv s" "pl_clock (co_exec s) \<le> now" "fresh_job job" "co_jobs s' = Suc (co_jobs s)"
    and "submit now (co_jobs s) (upd_job (co_jobs s) (\<lambda>_. job) (co_exec s)) = (res, co_exec s')"
  shows "process_inv (s'\<lparr>co_exec := at_time now (co_exec s')\<rparr>)"
    and "r < co_jobs s \<Longrightarrow> kept r (co_exec s) \<Longrightarrow> kept r (co_exec s')" "res = Inr u \<Longrightarrow> kept (co_jobs s) (co_exec s')"
proof -
  have inv: "reach (co_exec s)" "pl_calls (co_exec s) = []" "co_jobs s \<notin> set (tracked (co_exec s))"
    "co_jobs s \<notin> ran (pl_jobs (co_exec s))"
    and sub: "set (tracked (co_exec s)) \<union> ran (pl_jobs (co_exec s)) \<subseteq> {..<co_jobs s}"
    using assms(1) by (auto simp: process_inv_def)
  note r = submit_reach [OF inv assms(3,2,5)]
  have "ran (pl_jobs (co_exec s')) \<subseteq> insert (co_jobs s) (ran (pl_jobs (co_exec s)))"
    using submit_frame [OF assms(5)] by (auto simp: ran_def)
  then show "process_inv (s'\<lparr>co_exec := at_time now (co_exec s')\<rparr>)"
    using r(1-3) assms(4) sub by (simp add: process_inv_def) (blast intro: less_SucI lessI)
  show "r < co_jobs s \<Longrightarrow> kept r (co_exec s) \<Longrightarrow> kept r (co_exec s')" using r(4) [of r] by blast
  show "res = Inr u \<Longrightarrow> kept (co_jobs s) (co_exec s')" by (rule r(5))
qed

lemma process_call:
  assumes "process_inv s" "pl_clock (co_exec s) \<le> se_now se" "submitted se s s'"
  shows "process_inv (s'\<lparr>co_exec := at_time (se_now se) (co_exec s')\<rparr>) \<and> co_jobs s \<le> co_jobs s' \<and>
    (\<forall>r < co_jobs s. (kept r (co_exec s) \<longrightarrow> kept r (co_exec s')) \<and> pl_heap (co_exec s') r = pl_heap (co_exec s) r)"
  using assms(3) unfolding submitted_def
proof (elim disjE exE conjE)
  assume "co_exec s' = co_exec s" "co_jobs s' = co_jobs s"
  with process_inv_time [OF assms(1,2)] show ?thesis by (simp add: process_inv_def)
next
  fix job res assume sub: "fresh_job job" "co_jobs s' = Suc (co_jobs s)"
    "submit (se_now se) (co_jobs s) (upd_job (co_jobs s) (\<lambda>_. job) (co_exec s)) = (res, co_exec s')"
  note p = process_submit [OF assms(1,2) sub]
  have "pl_heap (co_exec s') r = pl_heap (co_exec s) r" if "r < co_jobs s" for r
    using submit_frame [OF sub(3)] that by simp
  with p(1,2) sub(2) show ?thesis by simp
qed

lemma process_loop:
  assumes "process_inv s" "plane_step (co_exec s) ev p" "background ev"
  shows "process_inv (s\<lparr>co_exec := p\<rparr>) \<and> job_id (pl_heap p r) = job_id (pl_heap (co_exec s) r) \<and>
    ((\<forall>e. ev \<noteq> Ev_Drop r e) \<longrightarrow> kept r (co_exec s) \<longrightarrow> kept r p)"
proof -
  have r: "reach (co_exec s)" "pl_calls (co_exec s) = []" using assms(1) by (simp_all add: process_inv_def)
  note q = plane_inv_queue [OF reach_inv [OF r(1)]]
  note f = background_frame [OF assms(2,3) q r(2)]
  have "process_inv (s\<lparr>co_exec := p\<rparr>)"
    using reach.step [OF r(1) assms(2)] f step_tracked [OF assms(2) q] assms(1) by (auto simp: process_inv_def)
  moreover have "job_id (pl_heap p r) = job_id (pl_heap (co_exec s) r)"
    using step_job_id [OF assms(2) q] reach_inv [OF r(1)] by (simp add: plane_inv_def)
  moreover have "kept r p" if "\<forall>e. ev \<noteq> Ev_Drop r e" "kept r (co_exec s)"
    using step_kept [OF r(1) assms(2), of r] that assms(3) by (cases ev) auto
  ultimately show ?thesis by blast
qed

lemma process_run_inv:
  assumes "process_run he hy s0 evs s" "wired_api he hy" "process_inv (snd s0)"
  shows "process_inv (snd s) \<and> co_jobs (snd s0) \<le> co_jobs (snd s)"
  using assms
proof (induction rule: process_run.induct)
  case (request s0 evs h s se re rq w h' s')
  with process_call [of s se s'] api_call_submits [of he hy re se rq h s w h' s'] show ?case by simp
next
  case (loops s0 evs h s ev p)
  with process_loop [of s ev p] show ?case by simp
qed simp

lemma process_run_kept:
  assumes "process_run he hy s0 evs s" "wired_api he hy" "process_inv (snd s0)" "r < co_jobs (snd s0)"
    and "kept r (co_exec (snd s0))" "\<And>e. Ev_Drop r e \<notin> set evs"
  shows "kept r (co_exec (snd s)) \<and> job_id (pl_heap (co_exec (snd s)) r) = job_id (pl_heap (co_exec (snd s0)) r)"
  using assms
proof (induction rule: process_run.induct)
  case (request s0 evs h s se re rq w h' s')
  then have s: "process_inv s" "r < co_jobs s" "kept r (co_exec s)"
    "job_id (pl_heap (co_exec s) r) = job_id (pl_heap (co_exec (snd s0)) r)"
    using process_run_inv [OF request(1)] by auto
  have "submitted se s s'" using api_call_submits request.hyps(3) request.prems(1) by blast
  note call = process_call [OF s(1) request(2) this]
  have "kept r (co_exec s')" using call s(2,3) by blast
  moreover have "pl_heap (co_exec s') r = pl_heap (co_exec s) r" using call s(2) by blast
  ultimately show ?case using s(4) by simp
next
  case (loops s0 evs h s ev p)
  then have "process_inv s" using process_run_inv [OF loops(1)] by auto
  from process_loop [OF this loops(2,3), of r] loops.IH loops.prems show ?case by auto
qed simp

lemma process_start:
  assumes "hydra_start he order n loaded = Inr hy" "set order = set head_list"
    and "\<And>r. fresh_job (he_jobs he r)" "0 < he_now he"
  shows "process_inv (hy_core hy)"
proof -
  have "reach (new_plane (he_jobs he) (he_now he))" using assms(3,4) by (rule reach.init)
  then have r: "reach (plane_start (new_plane (he_jobs he) (he_now he)))"
    by (rule reach.step [OF _ plane_step.start]) (simp_all add: new_plane_def)
  have "co_exec (hy_core hy) = plane_start (new_plane (he_jobs he) (he_now he))"
    using started_core [OF assms(1,2)] by blast
  with r show ?thesis
    by (simp add: process_inv_def refs_defs plane_start_def new_plane_def new_scheduler_def)
qed

section \<open>Properties\<close>

text \<open>
  C8. Whatever requests the process answers and however its background loops move in between,
  its execution plane stays one of the reachable planes of the step relation: no job is held
  twice, every job that can be looked up is filed under its own ID, and none has been attempted
  more often than its limit.
\<close>

theorem process_jobs_safe:
  assumes "hydra_start he order n loaded = Inr hy" "set order = set head_list"
    and "\<And>r. fresh_job (he_jobs he r)" "0 < he_now he"
    and "process_run he hy ([], hy_core hy) evs (h, s)"
  shows "reach (co_exec s) \<and> distinct (tracked (co_exec s)) \<and>
    (\<forall>i j. get_job i (co_exec s) = Inr j \<longrightarrow> job_id j = i \<and> 0 \<le> attempts j \<and> attempts j \<le> max 1 (max_attempts j))"
proof -
  have "process_inv s"
    using process_run_inv [OF assms(5) started_wired [OF assms(1)]] process_start [OF assms(1-4)] by simp
  then have r: "reach (co_exec s)" by (simp add: process_inv_def)
  note inv = reach_inv [OF r]
  have "job_id j = i \<and> job_ok j" if "get_job i (co_exec s) = Inr j" for i j
    using that inv by (auto simp: get_job_def plane_inv_def inv_table_def inv_jobs_def split: option.splits)
  then have "job_id j = i \<and> 0 \<le> attempts j \<and> attempts j \<le> max 1 (max_attempts j)" if "get_job i (co_exec s) = Inr j" for i j
    using that by (cases "job_state j") (fastforce simp: job_ok_simps)+
  with r inv show ?thesis by (simp add: plane_inv_def)
qed

lemma api_plane: "co_exec (hy_core api_hydra) = plane_start (new_plane (he_jobs api_host) (he_now api_host))"
    "idle (co_exec (hy_core api_hydra))"
  using started_core [OF api_hydra(1) HOL.refl] by blast+

lemma api_start: "fresh_job (he_jobs api_host r)" "0 < he_now api_host" "pl_clock (co_exec (hy_core api_hydra)) \<le> se_now demo_env"
  by (simp_all add: api_host_def demo_host_def api_plane plane_start_def new_plane_def demo_env_def)

theorem process_jobs_safe_witness:
  "\<exists>w h' s'. api_call api_host api_hydra (plain_env, demo_env) (api_post ''task'' ''t'' task_body) ([], hy_core api_hydra) =
     (w, (h', s')) \<and> reach (at_time 7 (co_exec s'))"
proof -
  obtain w h' s' where one: "api_call api_host api_hydra (plain_env, demo_env) (api_post ''task'' ''t'' task_body)
       ([], hy_core api_hydra) = (w, (h', s'))" by (metis surj_pair)
  have "se_now demo_env = 7" by (simp add: demo_env_def)
  with process_run.request [OF process_run.idle api_start(3) one]
  have "process_run api_host api_hydra ([], hy_core api_hydra) [] (h', s'\<lparr>co_exec := at_time 7 (co_exec s')\<rparr>)" by simp
  from process_jobs_safe [OF api_hydra(1) HOL.refl api_start(1,2) this] one show ?thesis by auto
qed

text \<open>
  C7. A task that was accepted is never lost silently, in a process with the in-memory provider.
  When a POST to \<open>task\<close>, at any point of the life of the process, is answered with 200, the job
  can be looked up under its ID; and at any later point, whatever requests and background moves have followed, the plane still holds
  that job or it is completed or failed, unless a background enqueue into a full queue has
  dropped it.
\<close>

theorem accepted_task_kept:
  assumes "hydra_start he order n loaded = Inr hy" "set order = set head_list"
    and "choose_provider (hy_config hy) = In_Memory" "\<And>r. fresh_job (he_jobs he r)" "0 < he_now he"
    and "process_run he hy ([], hy_core hy) evs (h, s)" "pl_clock (co_exec s) \<le> se_now se"
    and "t \<noteq> []" "dec_task b = Inr tr" "api_call he hy (re, se) (api_post ''task'' t b) (h, s) = (w, (h', s'))"
    and "wr_status w = Some 200"
    and "process_run he hy (h', s'\<lparr>co_exec := at_time (se_now se) (co_exec s')\<rparr>) evs' (h2, s2)"
    and "\<And>e. Ev_Drop (co_jobs s) e \<notin> set evs'"
  shows "get_job (se_uuid se 0) (co_exec s') = Inr (new_job (se_uuid se 0) (se_now se) (tr_type tr) (tr_data tr) []) \<and>
    job_id (pl_heap (co_exec s2) (co_jobs s)) = se_uuid se 0 \<and>
    (co_jobs s \<in> set (tracked (co_exec s2)) \<or> terminal (job_state (pl_heap (co_exec s2) (co_jobs s))))"
proof -
  define job where "job = new_job (se_uuid se 0) (se_now se) (tr_type tr) (tr_data tr) []"
  note wired = started_wired [OF assms(1)]
  have inv: "process_inv s" using process_run_inv [OF assms(6) wired] process_start [OF assms(1,2,4,5)] by simp
  have body: "body_ok b" using assms(9) by (auto simp: dec_task_def bind_Inr intro: obj_fields_body_ok)
  obtain e h1 out where e: "env_payload e = b" "task_handler se e (h1, s) = (out, (h', s'))"
    "w = answer_writer (he_ft he) (re_keys re) t h' out"
    using api_post_run [OF started_api [OF assms(1,3)] _ assms(8) body register_handlers_routes(3) assms(10)] by auto
  have dec: "dec_task (env_payload e) = Inr tr" using assms(9) e(1) by simp
  have "out \<noteq> Failure x" for x using e(3) assms(11) by (auto simp: write_error_cors)
  with task_outcome [OF dec e(2)] obtain u where
    sub: "submit (se_now se) (co_jobs s) (upd_job (co_jobs s) (\<lambda>_. job) (co_exec s)) = (Inr u, co_exec s')"
      "co_jobs s' = Suc (co_jobs s)"
    unfolding job_def by (auto split: if_splits sum.splits)
  have job: "fresh_job job" "job_id job = se_uuid se 0" by (simp_all add: job_def)
  note p = process_submit [OF inv assms(7) job(1) sub(2,1)]
  note f = submit_frame [OF sub(1)]
  have "kept (co_jobs s) (co_exec s')" by (rule p(3) [OF HOL.refl])
  with process_run_kept [OF assms(12) wired, of "co_jobs s"] p(1) sub(2) assms(13)
  have k: "kept (co_jobs s) (co_exec s2)" "job_id (pl_heap (co_exec s2) (co_jobs s)) = job_id (pl_heap (co_exec s') (co_jobs s))"
    by auto
  with f job show ?thesis by (simp add: get_job_def job_def)
qed

theorem accepted_task_kept_witness:
  "\<exists>w h' s'. api_call api_host api_hydra (plain_env, demo_env) (api_post ''task'' ''t'' task_body) ([], hy_core api_hydra) =
     (w, (h', s')) \<and> wr_status w = Some 200 \<and>
     process_run api_host api_hydra (h', s'\<lparr>co_exec := at_time 7 (co_exec s')\<rparr>) [Ev_Tau]
       (h', s'\<lparr>co_exec := worker_top (at_time 7 (co_exec s'))\<rparr>) \<and>
     kept (co_jobs (hy_core api_hydra)) (worker_top (at_time 7 (co_exec s')))"
proof -
  let ?s = "hy_core api_hydra" and ?r = "co_jobs (hy_core api_hydra)"
  obtain w h' s' where one: "api_call api_host api_hydra (plain_env, demo_env) (api_post ''task'' ''t'' task_body)
       ([], ?s) = (w, (h', s'))" by (metis surj_pair)
  have none: "api_traffic api_host api_hydra [] ([], ?s) = ([], ([], ?s))" and t: "''t'' \<noteq> []"
    and now: "se_now demo_env = 7" and keys: "re_keys plain_env = []" by (simp_all add: demo_env_def plain_env_def)
  obtain e actor ten where solo: "solo ?r (co_exec s')" and
    w: "w = answer_writer (he_ft api_host) (re_keys plain_env) ''t'' h' (respond demo_env ''task'' actor ten e
        (Inr (print (JObj [(''job_id'', JStr (se_uuid demo_env 0)), (''state'', JStr ''pending'')]))))"
    by (rule task_accepted [OF api_hydra(1) HOL.refl api_hydra(2) none t dec_task_body _ api_plane(2) one]) auto
  have ok: "json_ok (JObj [(''job_id'', JStr (se_uuid demo_env 0)), (''state'', JStr ''pending'')])" by simp
  have status: "wr_status w = Some 200"
    unfolding w keys by (rule conjunct1 [OF answer_decodes [where rt = read_int and ft = "he_ft api_host", OF ok api_host_formats(2)]])
  let ?s1 = "s'\<lparr>co_exec := at_time 7 (co_exec s')\<rparr>"
  have "plane_step (co_exec ?s1) Ev_Tau (worker_top (at_time 7 (co_exec s')))"
    using plane_step.top [of "at_time 7 (co_exec s')"] solo by (simp add: solo_def)
  from process_run.loops [OF process_run.idle this]
  have run: "process_run api_host api_hydra (h', ?s1) [Ev_Tau] (h', s'\<lparr>co_exec := worker_top (at_time 7 (co_exec s'))\<rparr>)"
    by simp
  from accepted_task_kept [OF api_hydra(1) HOL.refl api_hydra(2) api_start(1,2) process_run.idle api_start(3) t dec_task_body
      one status run [folded now]] one status run now show ?thesis by auto
qed

end
