(* ===== verification/Trace.thy ===== *)
theory Trace
  imports Envelope Go_Fmt
begin

text \<open>
  Trace spans (\<open>internal/body/trace.go\<close>). A span's metadata map is an address in the heap
  of string maps, as in an envelope; uuids and clock readings are arguments.
\<close>

abbreviation (input) span_ok :: string where "span_ok \<equiv> ''ok''"
abbreviation (input) span_error :: string where "span_error \<equiv> ''error''"
abbreviation (input) span_pending :: string where "span_pending \<equiv> ''pending''"

record span =
  sp_id :: string
  sp_trace :: string
  sp_parent :: string
  sp_head :: string
  sp_action :: string
  sp_status :: string
  sp_started :: time
  sp_ended :: time
  sp_meta :: "ref option"

definition new_span :: "meta_heap \<Rightarrow> string \<Rightarrow> time \<Rightarrow> string \<Rightarrow> string \<Rightarrow> string \<Rightarrow> span \<times> meta_heap" where
  "new_span h uuid now trace_id head_name action =
     (let (a, h') = meta_alloc Map.empty h
      in (\<lparr>sp_id = uuid, sp_trace = trace_id, sp_parent = [], sp_head = head_name, sp_action = action,
           sp_status = span_pending, sp_started = now, sp_ended = zero_time, sp_meta = Some a\<rparr>, h'))"

definition child_span :: "meta_heap \<Rightarrow> string \<Rightarrow> time \<Rightarrow> span \<Rightarrow> string \<Rightarrow> span \<times> meta_heap" where
  "child_span h uuid now parent action =
     (let (a, h') = meta_alloc Map.empty h
      in (\<lparr>sp_id = uuid, sp_trace = sp_trace parent, sp_parent = sp_id parent, sp_head = sp_head parent,
           sp_action = action, sp_status = span_pending, sp_started = now, sp_ended = zero_time,
           sp_meta = Some a\<rparr>, h'))"

definition finish_span :: "time \<Rightarrow> string \<Rightarrow> span \<Rightarrow> span" where
  "finish_span now status s = s\<lparr>sp_status := status, sp_ended := now\<rparr>"

definition span_duration :: "span \<Rightarrow> gint" where
  "span_duration s = (if sp_ended s = zero_time then 0 else time_sub (sp_ended s) (sp_started s))"

definition span_string :: "span \<Rightarrow> string" where
  "span_string s = sprintf ''span=%s trace=%s head=%s action=%s status=%s''
     [FStr (sp_id s), FStr (sp_trace s), FStr (sp_head s), FStr (sp_action s), FStr (sp_status s)]"

definition span_with_metadata :: "meta_heap \<Rightarrow> string list \<Rightarrow> string \<Rightarrow> string \<Rightarrow> span \<Rightarrow>
    (span \<times> meta_heap) result" where
  "span_with_metadata h ks key val s =
     map_sum id (\<lambda>(a, h'). (s\<lparr>sp_meta := Some a\<rparr>, h')) (meta_copy h (sp_meta s) ks key val)"

section \<open>Chains of spans\<close>

text \<open>A span, then a child of it, then a child of that one, and so on.\<close>

fun span_chain :: "(string \<times> time \<times> string) list \<Rightarrow> span \<times> meta_heap \<Rightarrow> span list \<times> meta_heap" where
  "span_chain [] (s, h) = ([s], h)"
| "span_chain ((uuid, now, action) # xs) (s, h) =
     (let (ss, h') = span_chain xs (child_span h uuid now s action) in (s # ss, h'))"

lemma span_chain_Cons:
  assumes "span_chain (x # xs) (s, h) = (ss, h')"
  obtains c h1 ss1 where "ss = s # ss1" "span_chain xs (c, h1) = (ss1, h')"
    "sp_trace c = sp_trace s" "sp_head c = sp_head s" "sp_parent c = sp_id s"
proof -
  obtain uuid now action where x: "x = (uuid, now, action)" by (rule prod_cases3)
  obtain c h1 where c: "child_span h uuid now s action = (c, h1)" by force
  then have "sp_trace c = sp_trace s" "sp_head c = sp_head s" "sp_parent c = sp_id s"
    by (auto simp: child_span_def meta_alloc_def)
  moreover obtain ss1 where "ss = s # ss1" "span_chain xs (c, h1) = (ss1, h')"
    using assms by (auto simp: x c split: prod.splits)
  ultimately show thesis using that by blast
qed

lemma span_chain_length: "span_chain xs (s, h) = (ss, h') \<Longrightarrow> length ss = Suc (length xs) \<and> ss ! 0 = s"
proof (induction xs arbitrary: s h ss)
  case (Cons x xs)
  from Cons.prems show ?case by (rule span_chain_Cons) (use Cons.IH in fastforce)
qed auto

lemma span_chain_trace:
  "span_chain xs (s, h) = (ss, h') \<Longrightarrow> s' \<in> set ss \<Longrightarrow> sp_trace s' = sp_trace s \<and> sp_head s' = sp_head s"
proof (induction xs arbitrary: s h ss)
  case (Cons x xs)
  from Cons.prems(1) show ?case by (rule span_chain_Cons) (use Cons.IH Cons.prems(2) in fastforce)
qed auto

lemma span_chain_parent:
  "span_chain xs (s, h) = (ss, h') \<Longrightarrow> Suc i < length ss \<Longrightarrow> sp_parent (ss ! Suc i) = sp_id (ss ! i)"
proof (induction xs arbitrary: s h ss i)
  case (Cons x xs)
  obtain c h1 ss1 where ss: "ss = s # ss1" "span_chain xs (c, h1) = (ss1, h')" "sp_parent c = sp_id s"
    using Cons.prems(1) by (rule span_chain_Cons)
  show ?case
  proof (cases i)
    case 0
    with ss span_chain_length [OF ss(2)] show ?thesis by simp
  next
    case (Suc j)
    with Cons.IH [OF ss(2), of j] Cons.prems(2) ss(1) show ?thesis by simp
  qed
qed auto

lemmas span_chain_links = span_chain_length span_chain_trace span_chain_parent

text \<open>
  Every span of a chain of children belongs to the trace and the head of the first
  one and names the span before it as its parent. Attaching metadata to a span works on a
  copy: the new map has the entry added, and no map that existed before changes.
\<close>

theorem span_lineage:
  assumes "span_chain xs (s, h) = (ss, h')"
    and "s' \<in> set ss" "Suc i < length ss"
    and "key_order (meta_read h' (sp_meta s')) ks"
    and "span_with_metadata h' ks k v s' = r"
  shows "length ss = Suc (length xs) \<and> sp_trace s' = sp_trace s \<and> sp_head s' = sp_head s \<and>
    sp_parent (ss ! Suc i) = sp_id (ss ! i) \<and>
    (\<exists>s2 h2. r = Inr (s2, h2) \<and> meta_read h2 (sp_meta s2) = (meta_read h' (sp_meta s'))(k \<mapsto> v) \<and>
       take (length h') h2 = h' \<and> s2\<lparr>sp_meta := sp_meta s'\<rparr> = s')"
  using span_chain_links [OF assms(1)] assms(2,3) assms(5) [symmetric] meta_copy_eq [OF assms(4), of k v]
  by (simp add: span_with_metadata_def meta_read_def)

theorem span_lineage_witness:
  "\<exists>s2 h2. span_with_metadata [Map.empty, Map.empty] [] ''k'' ''v''
       (fst (child_span [Map.empty] ''c'' 6 (fst (new_span [] ''r'' 5 ''t'' ''agent'' ''run'')) ''step'')) = Inr (s2, h2) \<and>
     sp_trace s2 = ''t'' \<and> sp_parent s2 = ''r'' \<and> meta_read h2 (sp_meta s2) = [''k'' \<mapsto> ''v'']"
proof -
  let ?r = "fst (new_span [] ''r'' 5 ''t'' ''agent'' ''run'')"
  let ?c = "fst (child_span [Map.empty] ''c'' 6 ?r ''step'')"
  have chain: "span_chain [(''c'', 6, ''step'')] (?r, [Map.empty]) = ([?r, ?c], [Map.empty, Map.empty])"
    by (simp add: child_span_def new_span_def meta_alloc_def)
  have none: "meta_read [Map.empty, Map.empty] (sp_meta ?c) = Map.empty"
    by (simp add: child_span_def new_span_def meta_alloc_def meta_read_def)
  have set: "?c \<in> set [?r, ?c]" "Suc 0 < length [?r, ?c]" by simp_all
  have "key_order (meta_read [Map.empty, Map.empty] (sp_meta ?c)) []" unfolding none by simp
  from span_lineage [OF chain set this refl, of "''k''" "''v''"] none
  obtain s2 h2 where r: "span_with_metadata [Map.empty, Map.empty] [] ''k'' ''v'' ?c = Inr (s2, h2)"
      "meta_read h2 (sp_meta s2) = [''k'' \<mapsto> ''v'']" "s2\<lparr>sp_meta := sp_meta ?c\<rparr> = ?c"
    by auto
  from arg_cong [OF r(3), of sp_trace] arg_cong [OF r(3), of sp_parent]
  have "sp_trace s2 = ''t''" "sp_parent s2 = ''r''"
    by (simp_all add: child_span_def new_span_def meta_alloc_def)
  with r(1,2) show ?thesis by blast
qed

text \<open>
  The duration of a span is zero until it is finished; then it is the time between start and
  end, cut off at the ends of the 64-bit range.
\<close>

lemma span_duration_exact:
  assumes "now \<noteq> zero_time"
  shows "sint (span_duration (finish_span now st s)) = max (- (2 ^ 63)) (min (2 ^ 63 - 1) (now - sp_started s))"
    and "sp_ended s = zero_time \<Longrightarrow> span_duration s = 0"
  using assms by (simp_all add: span_duration_def finish_span_def sint_time_sub)

end
