(* ===== verification/Bench_Data.thy ===== *)
theory Bench_Data
  imports Llm
begin

text \<open>
  The data of the LoCoMo benchmark (\<open>bench/locomo/types.go\<close>, \<open>dataset.go\<close>): question
  categories, turns, sessions and samples, the decoding of a sample with its numbered
  session keys, and the loading of the dataset from a file or from the network with a cache
  file. The file system is a map of file contents with the errors of its calls as arguments.
\<close>

section \<open>Categories\<close>

type_synonym category = gint

abbreviation (input) category_single_hop :: category where "category_single_hop \<equiv> 1"
abbreviation (input) category_temporal :: category where "category_temporal \<equiv> 2"
abbreviation (input) category_multi_hop :: category where "category_multi_hop \<equiv> 3"
abbreviation (input) category_open_domain :: category where "category_open_domain \<equiv> 4"
abbreviation (input) category_adversarial :: category where "category_adversarial \<equiv> 5"

definition category_string :: "category \<Rightarrow> string" where
  "category_string c =
     (if c = category_single_hop then ''single_hop''
      else if c = category_temporal then ''temporal''
      else if c = category_multi_hop then ''multi_hop''
      else if c = category_open_domain then ''open_domain''
      else if c = category_adversarial then ''adversarial''
      else sprintf ''unknown(%d)'' [FInt (sint c)])"

definition all_categories :: "category list" where
  "all_categories =
     [category_single_hop, category_temporal, category_multi_hop, category_open_domain, category_adversarial]"

section \<open>Samples\<close>

record turn =
  tu_speaker :: string
  tu_dia :: string
  tu_text :: string

record session =
  ss_index :: int
  ss_date :: string
  ss_turns :: "turn list"

record qa_item =
  qa_question :: string
  qa_answer :: raw
  qa_evidence :: "string list"
  qa_category :: category
  qa_adversarial :: string

record sample =
  sa_id :: string
  sa_speaker_a :: string
  sa_speaker_b :: string
  sa_sessions :: "session list"
  sa_qa :: "qa_item list"

definition zero_turn :: turn where
  "zero_turn = \<lparr>tu_speaker = [], tu_dia = [], tu_text = []\<rparr>"

definition zero_qa :: qa_item where
  "zero_qa = \<lparr>qa_question = [], qa_answer = [], qa_evidence = [], qa_category = 0, qa_adversarial = []\<rparr>"

definition zero_sample :: sample where
  "zero_sample = \<lparr>sa_id = [], sa_speaker_a = [], sa_speaker_b = [], sa_sessions = [], sa_qa = []\<rparr>"

definition answer_text :: "qa_item \<Rightarrow> string" where
  "answer_text q = (case dec_string (qa_answer q) [] of Inr s \<Rightarrow> s | Inl _ \<Rightarrow> qa_answer q)"

definition dec_turn :: "turn decoder" where
  "dec_turn v t =
     bind (obj_fields v) (\<lambda>fs.
     bind (dec_field ''speaker'' dec_string fs (tu_speaker t)) (\<lambda>sp.
     bind (dec_field ''dia_id'' dec_string fs (tu_dia t)) (\<lambda>d.
     bind (dec_field ''text'' dec_string fs (tu_text t)) (\<lambda>tx.
       Inr \<lparr>tu_speaker = sp, tu_dia = d, tu_text = tx\<rparr>))))"

definition dec_qa :: "qa_item decoder" where
  "dec_qa v q =
     bind (obj_fields v) (\<lambda>fs.
     bind (dec_field ''question'' dec_string fs (qa_question q)) (\<lambda>qu.
     bind (dec_field ''answer'' dec_raw fs (qa_answer q)) (\<lambda>an.
     bind (dec_field ''evidence'' dec_strings fs (qa_evidence q)) (\<lambda>ev.
     bind (dec_field ''category'' dec_int fs (qa_category q)) (\<lambda>ca.
     bind (dec_field ''adversarial_answer'' dec_string fs (qa_adversarial q)) (\<lambda>ad.
       Inr \<lparr>qa_question = qu, qa_answer = an, qa_evidence = ev, qa_category = ca,
            qa_adversarial = ad\<rparr>))))))"

text \<open>A map of raw values: of repeated keys the last one counts.\<close>

definition raw_map :: "raw \<Rightarrow> (string \<rightharpoonup> raw) result" where
  "raw_map p = map_sum id (\<lambda>fs. map_of (rev fs)) (obj_fields p)"

text \<open>\<open>strconv.Atoi\<close>, \<open>None\<close> for an error.\<close>

definition atoi :: "string \<Rightarrow> int option" where
  "atoi s =
     (let (neg, ds) = (case s of
                         [] \<Rightarrow> (False, [])
                       | c # t \<Rightarrow> if c = CHR ''-'' then (True, t) else if c = CHR ''+'' then (False, t) else (False, s));
          n = (if neg then - int (read_nat ds) else int (read_nat ds))
      in if ds \<noteq> [] \<and> list_all digit ds \<and> - (2 ^ 63) \<le> n \<and> n < 2 ^ 63 then Some n else None)"

text \<open>The index that a key of the conversation stands for, if it is a session's.\<close>

definition session_index :: "string \<Rightarrow> int option" where
  "session_index key =
     (if has_prefix ''session_'' key \<and> \<not> contains key ''date_time''
      then atoi (trim_prefix ''session_'' key) else None)"

definition session_key :: "int \<Rightarrow> string" where
  "session_key idx = sprintf ''session_%d'' [FInt idx]"

definition date_key :: "int \<Rightarrow> string" where
  "date_key idx = sprintf ''session_%d_date_time'' [FInt idx]"

definition dec_session :: "(string \<rightharpoonup> raw) \<Rightarrow> int \<Rightarrow> session result" where
  "dec_session conv idx =
     (let date = (case conv (date_key idx) of
                    Some dt \<Rightarrow> (case dec_string dt [] of Inr d \<Rightarrow> d | Inl _ \<Rightarrow> [])
                  | None \<Rightarrow> [])
      in case conv (session_key idx) of
           None \<Rightarrow> Inr \<lparr>ss_index = idx, ss_date = date, ss_turns = []\<rparr>
         | Some ts \<Rightarrow>
             (case dec_list dec_turn zero_turn ts [] of
                Inl e \<Rightarrow> Inl (Wrapf ''unmarshal session_%d: %w'' [FInt idx] e)
              | Inr turns \<Rightarrow> Inr \<lparr>ss_index = idx, ss_date = date, ss_turns = turns\<rparr>))"

text \<open>\<open>ks\<close> is the order in which the keys of the conversation are ranged over.\<close>

definition session_indices :: "string list \<Rightarrow> int list" where
  "session_indices ks = sort (List.map_filter session_index ks)"

text \<open>\<open>order m\<close> is the order in which the map \<open>m\<close> is ranged over.\<close>

definition unmarshal_sample :: "((string \<rightharpoonup> raw) \<Rightarrow> string list) \<Rightarrow> sample decoder" where
  "unmarshal_sample order data s =
     (case raw_map data of
        Inl e \<Rightarrow> Inl (Wrapf ''unmarshal sample: %w'' [] e)
      | Inr m \<Rightarrow>
     (case (case m ''qa'' of None \<Rightarrow> Inr (sa_qa s) | Some q \<Rightarrow> dec_list dec_qa zero_qa q (sa_qa s)) of
        Inl e \<Rightarrow> Inl (Wrapf ''unmarshal qa: %w'' [] e)
      | Inr qa \<Rightarrow>
          let s = s\<lparr>sa_qa := qa\<rparr> in
     (case m ''conversation'' of
        None \<Rightarrow> Inr s
      | Some c \<Rightarrow>
     (case raw_map c of
        Inl e \<Rightarrow> Inl (Wrapf ''unmarshal conversation: %w'' [] e)
      | Inr conv \<Rightarrow>
          let name = (\<lambda>key old. case conv key of
                        None \<Rightarrow> old
                      | Some v \<Rightarrow> (case dec_string v old of Inr x \<Rightarrow> x | Inl _ \<Rightarrow> old));
              s = s\<lparr>sa_speaker_a := name ''speaker_a'' (sa_speaker_a s),
                    sa_speaker_b := name ''speaker_b'' (sa_speaker_b s)\<rparr>
          in map_sum id (\<lambda>ss. s\<lparr>sa_sessions := sa_sessions s @ ss\<rparr>)
               (all_results (map (dec_session conv) (session_indices (order conv))))))))"

section \<open>The dataset and its cache\<close>

abbreviation (input) dataset_url :: string where "dataset_url \<equiv> ''https://raw.githubusercontent.com/snap-research/locomo/main/data/locomo10.json''"
abbreviation (input) cache_path :: string where "cache_path \<equiv> ''bench/locomo/testdata/locomo10.json''"

definition download_timeout :: gint where
  "download_timeout = 60 * second"

text \<open>
  The host: its files and the world beyond. \<open>fs_write\<close> is how a write fails: after some bytes,
  with an error; the file then holds these bytes.
\<close>

record 'n host =
  ho_files :: "string \<rightharpoonup> string"
  ho_net :: 'n

record host_errors =
  fs_read :: "go_error option"
  fs_mkdir :: "go_error option"
  fs_write :: "(nat \<times> go_error) option"

definition os_read_file :: "host_errors \<Rightarrow> string \<Rightarrow> 'n host \<Rightarrow> string result" where
  "os_read_file er path s =
     (case fs_read er of
        Some e \<Rightarrow> Inl e
      | None \<Rightarrow> (case ho_files s path of
                  None \<Rightarrow> Inl (Errf ''open %s: no such file or directory'' [FStr path])
                | Some d \<Rightarrow> Inr d))"

definition os_write_file :: "host_errors \<Rightarrow> string \<Rightarrow> string \<Rightarrow> 'n host \<Rightarrow> unit result \<times> 'n host" where
  "os_write_file er path d s =
     (case fs_write er of
        None \<Rightarrow> (Inr (), s\<lparr>ho_files := (ho_files s)(path \<mapsto> d)\<rparr>)
      | Some (n, e) \<Rightarrow> (Inl e, s\<lparr>ho_files := (ho_files s)(path \<mapsto> take n d)\<rparr>))"

definition ensure_cached :: "host_errors \<Rightarrow> 'n net \<Rightarrow> 'n host \<Rightarrow> string result \<times> 'n host" where
  "ensure_cached er net s =
     (if (case ho_files s cache_path of Some d \<Rightarrow> 0 < length d | None \<Rightarrow> False)
      then (Inr cache_path, s)
      else case fs_mkdir er of
        Some e \<Rightarrow> (Inl (Wrapf ''create cache dir: %w'' [] e), s)
      | None \<Rightarrow>
     (case http_get net download_timeout dataset_url (ho_net s) of
        (Inl e, n) \<Rightarrow> (Inl (Wrapf ''HTTP GET: %w'' [] e), s\<lparr>ho_net := n\<rparr>)
      | (Inr resp, n) \<Rightarrow>
          let s = s\<lparr>ho_net := n\<rparr> in
          if hi_status resp \<noteq> status_ok
          then (Inl (Errf ''HTTP %d from %s'' [FInt (hi_status resp), FStr dataset_url]), s)
          else case hi_body resp of
            Inl e \<Rightarrow> (Inl (Wrapf ''read response: %w'' [] e), s)
          | Inr d \<Rightarrow>
              (case os_write_file er cache_path d s of
                 (Inl e, s) \<Rightarrow> (Inl (Wrapf ''write cache: %w'' [] e), s)
               | (Inr _, s) \<Rightarrow> (Inr cache_path, s))))"

text \<open>Sample identifiers are set from the index where they are missing.\<close>

definition number_samples :: "sample list \<Rightarrow> sample list" where
  "number_samples ds =
     map (\<lambda>(i, s). if sa_id s = [] then s\<lparr>sa_id := sprintf ''sample_%d'' [FInt (int i)]\<rparr> else s)
       (enumerate 0 ds)"

definition load_dataset :: "((string \<rightharpoonup> raw) \<Rightarrow> string list) \<Rightarrow> host_errors \<Rightarrow> 'n net \<Rightarrow> string \<Rightarrow>
    'n host \<Rightarrow> sample list result \<times> 'n host" where
  "load_dataset order er net data_path s =
     (case (if data_path = [] then ensure_cached er net s else (Inr data_path, s)) of
        (Inl e, s) \<Rightarrow> (Inl (Wrapf ''download dataset: %w'' [] e), s)
      | (Inr path, s) \<Rightarrow>
     (case os_read_file er path s of
        Inl e \<Rightarrow> (Inl (Wrapf ''read dataset: %w'' [] e), s)
      | Inr d \<Rightarrow>
     (case dec_list (unmarshal_sample order) zero_sample d [] of
        Inl e \<Rightarrow> (Inl (Wrapf ''parse dataset: %w'' [] e), s)
      | Inr ds \<Rightarrow> (Inr (number_samples ds), s))))"

section \<open>Properties\<close>

lemma dec_session_index: "dec_session conv idx = Inr ss \<Longrightarrow> ss_index ss = idx"
  by (auto simp: dec_session_def Let_def split: option.splits sum.splits)

lemma sessions_index:
  assumes "all_results (map (dec_session conv) idxs) = Inr ss"
  shows "map ss_index ss = idxs"
proof -
  from assms have eq: "map (dec_session conv) idxs = map Inr ss" by (simp only: all_results_iff)
  have len: "length idxs = length ss" using arg_cong [OF eq, of length] by simp
  show ?thesis
  proof (rule nth_equalityI)
    fix i assume "i < length (map ss_index ss)"
    then have i: "i < length ss" by simp
    then have "dec_session conv (idxs ! i) = Inr (ss ! i)" using arg_cong [OF eq, of "\<lambda>l. l ! i"] len by simp
    with i show "map ss_index ss ! i = idxs ! i" by (simp add: dec_session_index)
  qed (simp add: len)
qed

lemma unmarshal_sample_zero:
  assumes "unmarshal_sample order data zero_sample = Inr s"
  shows "sa_id s = [] \<and> sorted (map ss_index (sa_sessions s))"
proof -
  from assms obtain m qa where m: "raw_map data = Inr m"
    and qa: "(case m ''qa'' of None \<Rightarrow> Inr (sa_qa zero_sample) | Some q \<Rightarrow> dec_list dec_qa zero_qa q (sa_qa zero_sample)) = Inr qa"
    by (auto simp: unmarshal_sample_def split: sum.splits)
  note rest = assms [unfolded unmarshal_sample_def m sum.case qa Let_def]
  show ?thesis
  proof (cases "m ''conversation''")
    case None
    with rest show ?thesis by (auto simp: zero_sample_def)
  next
    case (Some c)
    note rest = rest [unfolded Some option.case]
    from rest obtain conv where conv: "raw_map c = Inr conv" by (cases "raw_map c") simp_all
    note rest = rest [unfolded conv sum.case]
    from rest obtain ss where ss: "all_results (map (dec_session conv) (session_indices (order conv))) = Inr ss"
      by (cases "all_results (map (dec_session conv) (session_indices (order conv)))") simp_all
    from rest [unfolded ss] have "sa_id s = sa_id zero_sample" "sa_sessions s = sa_sessions zero_sample @ ss"
      by auto
    with sessions_index [OF ss] show ?thesis by (simp add: zero_sample_def session_indices_def)
  qed
qed

lemma show_int_inj: "show_int i = show_int j \<longleftrightarrow> i = j"
  using read_show_int by (metis option.inject)

lemma sample_name: "sprintf ''sample_%d'' [FInt i] = ''sample_'' @ show_int i"
  by simp

lemma number_samples_nth:
  "i < length ds \<Longrightarrow> sa_id (ds ! i) = [] \<Longrightarrow>
     number_samples ds ! i = (ds ! i)\<lparr>sa_id := ''sample_'' @ show_int (int i)\<rparr>"
  unfolding number_samples_def sample_name by (simp add: nth_enumerate_eq)

lemma number_samples_length [simp]: "length (number_samples ds) = length ds"
  by (simp add: number_samples_def)

lemma ensure_cached_Inr:
  assumes "ensure_cached er net s = (Inr path, s')"
  shows "path = cache_path \<and> (\<exists>d. ho_files s' cache_path = Some d) \<and>
    (d \<noteq> [] \<longrightarrow> ho_files s' cache_path = Some d \<longrightarrow> ensure_cached er net s' = (Inr path, s'))"
proof (cases "case ho_files s cache_path of Some d \<Rightarrow> 0 < length d | None \<Rightarrow> False")
  case True
  with assms show ?thesis by (auto simp: ensure_cached_def split: option.splits)
next
  case False
  with assms obtain d s1 where "path = cache_path" "os_write_file er cache_path d s1 = (Inr (), s')"
    unfolding ensure_cached_def
    by (auto simp: Let_def split: option.splits sum.splits prod.splits if_splits)
  then show ?thesis by (auto simp: os_write_file_def ensure_cached_def split: option.splits)
qed

text \<open>
  A loaded dataset numbers its samples: the sample at index i has the identifier
  \<open>sample_\<close>i, so that no two share one, and its sessions come in ascending order of their
  numbers, in whatever order Go ranges over their keys. A dataset that was downloaded is read
  from the cache file the next time: the result is the same and the network is not used.
\<close>

theorem load_dataset_samples:
  assumes "load_dataset order er net data_path s = (Inr ds, s')"
  shows "(\<forall>i < length ds. sa_id (ds ! i) = ''sample_'' @ show_int (int i) \<and>
      sorted (map ss_index (sa_sessions (ds ! i)))) \<and>
    distinct (map sa_id ds) \<and>
    (ds \<noteq> [] \<longrightarrow> load_dataset order er net data_path s' = (Inr ds, s'))"
proof -
  obtain path where p: "(if data_path = [] then ensure_cached er net s else (Inr data_path, s)) = (Inr path, s')"
    using assms by (auto simp: load_dataset_def split: prod.splits sum.splits)
  with assms obtain d ds0 where d: "os_read_file er path s' = Inr d"
    and ds0: "dec_list (unmarshal_sample order) zero_sample d [] = Inr ds0" "ds = number_samples ds0"
    by (auto simp: load_dataset_def split: sum.splits)
  from ds0(1) obtain vs where vs: "arr_elems d = Inr vs"
    "map (\<lambda>e. unmarshal_sample order e zero_sample) vs = map Inr ds0"
    by (auto simp: dec_list_def bind_Inr all_results_iff)
  have len: "length vs = length ds0" using arg_cong [OF vs(2), of length] by simp
  have elem: "sa_id (ds0 ! i) = [] \<and> sorted (map ss_index (sa_sessions (ds0 ! i)))" if "i < length ds0" for i
    using arg_cong [OF vs(2), of "\<lambda>l. l ! i"] that len by (intro unmarshal_sample_zero) simp
  have ids: "sa_id (ds ! i) = ''sample_'' @ show_int (int i)" "sorted (map ss_index (sa_sessions (ds ! i)))"
    if "i < length ds" for i
    using that elem [of i] by (simp_all add: ds0(2) number_samples_nth)
  then have "distinct (map sa_id ds)" by (simp add: distinct_conv_nth show_int_inj)
  moreover have "load_dataset order er net data_path s' = (Inr ds, s')" if "ds \<noteq> []"
  proof -
    have "d \<noteq> []"
      using that ds0 by (auto simp: dec_list_def bind_Inr arr_elems_def parse_def number_samples_def)
    moreover have "ho_files s' path = Some d"
      using d by (auto simp: os_read_file_def split: option.splits)
    ultimately have "(if data_path = [] then ensure_cached er net s' else (Inr data_path, s')) = (Inr path, s')"
      using p ensure_cached_Inr [of er net s path s' d] by (auto split: if_splits)
    with d ds0 show ?thesis by (simp add: load_dataset_def)
  qed
  ultimately show ?thesis using ids by blast
qed

definition two_samples :: string where
  "two_samples = print (JArr [JObj [], JObj [(''qa'', JArr [])]])"

definition two_samples_host :: "http_out list host" where
  "two_samples_host = \<lparr>ho_files = [''f'' \<mapsto> two_samples], ho_net = []\<rparr>"

lemma load_two_samples:
  "load_dataset order \<lparr>fs_read = None, fs_mkdir = None, fs_write = None\<rparr> (scripted_net f) ''f'' two_samples_host =
     (Inr (number_samples [zero_sample, zero_sample]), two_samples_host)"
proof -
  have "raw_map (print (JObj [])) = Inr Map.empty" "raw_map (print (JObj [(''qa'', JArr [])])) = Inr [''qa'' \<mapsto> print (JArr [])]"
    using obj_fields_print [of "[]"] obj_fields_print [of "[(''qa'', JArr [])]"] by (simp_all add: raw_map_def)
  moreover have "dec_list dec_qa zero_qa (print (JArr [])) x = Inr []" for x
    using arr_elems_print [of "[]"] by (simp add: dec_list_def del: print.simps)
  ultimately have "unmarshal_sample order (print v) zero_sample = Inr zero_sample"
    if "v \<in> set [JObj [], JObj [(''qa'', JArr [])]]" for v
    using that by (auto simp: unmarshal_sample_def zero_sample_def Let_def simp del: print.simps)
  then have "dec_list (unmarshal_sample order) zero_sample two_samples [] = Inr (map (\<lambda>_. zero_sample) [JObj [], JObj [(''qa'', JArr [])]])"
    unfolding two_samples_def by (intro dec_list_print) auto
  then show ?thesis
    by (simp add: load_dataset_def os_read_file_def two_samples_host_def)
qed

theorem load_dataset_samples_witness:
  "map sa_id (projl (case load_dataset (\<lambda>_. []) \<lparr>fs_read = None, fs_mkdir = None, fs_write = None\<rparr>
       (scripted_net (\<lambda>_. Inl CtxDeadline)) ''f'' two_samples_host of (Inr ds, _) \<Rightarrow> Inl ds | (Inl e, _) \<Rightarrow> Inr e)) =
   [''sample_'' @ show_int 0, ''sample_'' @ show_int 1]"
proof -
  let ?ds = "number_samples [zero_sample, zero_sample]"
  note run = load_two_samples [of "\<lambda>_. []" "\<lambda>_. Inl CtxDeadline"]
  from load_dataset_samples [OF run] have ids: "\<And>i. i < 2 \<Longrightarrow> sa_id (?ds ! i) = ''sample_'' @ show_int (int i)"
    by simp
  have "?ds = [?ds ! 0, ?ds ! Suc 0]" by (simp add: number_samples_def)
  then have "map sa_id ?ds = [sa_id (?ds ! 0), sa_id (?ds ! Suc 0)]" by (metis list.map)
  with ids [of 0] ids [of 1] show ?thesis unfolding run by simp
qed

end
