(* ===== verification/Bench_Score.thy ===== *)
theory Bench_Score
  imports Bench_Data
begin

text \<open>
  Scoring of the benchmark (\<open>bench/locomo/score.go\<close>): precision, recall and F1 of a question
  in \<open>float64\<close> arithmetic, and their averages. A Go map used as a set is the list of its
  keys; nothing depends on their order.
\<close>

section \<open>Definitions\<close>

record query_result =
  qr_qa :: qa_item
  qr_retrieved :: "string list"

record question_score =
  qs_question :: string
  qs_category :: category
  qs_precision :: rat
  qs_recall :: rat
  qs_f1 :: rat
  qs_retrieved :: nat
  qs_evidence :: nat

record category_score =
  cs_category :: string
  cs_count :: nat
  cs_precision :: rat
  cs_recall :: rat
  cs_f1 :: rat

definition to_set :: "string list \<Rightarrow> string list" where
  "to_set items = fold (\<lambda>i s. if i \<in> set s then s else s @ [i]) items []"

definition intersection_size :: "string list \<Rightarrow> string list \<Rightarrow> nat" where
  "intersection_size a b = fold (\<lambda>k count. if k \<in> set b then Suc count else count) a 0"

definition f1_score :: "rat \<Rightarrow> rat \<Rightarrow> rat" where
  "f1_score precision recall =
     (if 0 < f64 (precision + recall)
      then f64 (f64 (f64 (2 * precision) * recall) / f64 (precision + recall)) else 0)"

definition score_question :: "query_result \<Rightarrow> question_score" where
  "score_question r =
     (let evidence = to_set (qa_evidence (qr_qa r));
          retrieved = to_set (qr_retrieved r)
      in if length evidence = 0
         then let f1 = (if length retrieved = 0 then 1 else 0)
              in \<lparr>qs_question = qa_question (qr_qa r), qs_category = qa_category (qr_qa r),
                  qs_precision = f1, qs_recall = 1, qs_f1 = f1, qs_retrieved = length retrieved,
                  qs_evidence = 0\<rparr>
         else let tp = intersection_size retrieved evidence;
                  precision = (if 0 < length retrieved
                               then f64 (f64 (of_nat tp) / f64 (of_nat (length retrieved))) else 0);
                  recall = f64 (f64 (of_nat tp) / f64 (of_nat (length evidence)))
              in \<lparr>qs_question = qa_question (qr_qa r), qs_category = qa_category (qr_qa r),
                  qs_precision = precision, qs_recall = recall, qs_f1 = f1_score precision recall,
                  qs_retrieved = length retrieved, qs_evidence = length evidence\<rparr>)"

record accumulator =
  ac_precision :: rat
  ac_recall :: rat
  ac_f1 :: rat
  ac_count :: nat

definition zero_acc :: accumulator where
  "zero_acc = \<lparr>ac_precision = 0, ac_recall = 0, ac_f1 = 0, ac_count = 0\<rparr>"

definition accumulate :: "question_score \<Rightarrow> accumulator \<Rightarrow> accumulator" where
  "accumulate s a =
     \<lparr>ac_precision = f64 (ac_precision a + qs_precision s), ac_recall = f64 (ac_recall a + qs_recall s),
      ac_f1 = f64 (ac_f1 a + qs_f1 s), ac_count = ac_count a + 1\<rparr>"

definition average :: "string \<Rightarrow> accumulator \<Rightarrow> category_score" where
  "average name a =
     (let n = f64 (of_nat (ac_count a))
      in \<lparr>cs_category = name, cs_count = ac_count a, cs_precision = f64 (ac_precision a / n),
          cs_recall = f64 (ac_recall a / n), cs_f1 = f64 (ac_f1 a / n)\<rparr>)"

definition add_bucket :: "question_score \<Rightarrow> (category \<rightharpoonup> accumulator) \<Rightarrow> category \<rightharpoonup> accumulator" where
  "add_bucket s m =
     (let acc = (case m (qs_category s) of None \<Rightarrow> zero_acc | Some a \<Rightarrow> a)
      in m(qs_category s \<mapsto> accumulate s acc))"

definition aggregate_by_category :: "question_score list \<Rightarrow> category_score list" where
  "aggregate_by_category scores =
     (let buckets = fold add_bucket scores Map.empty
      in List.map_filter (\<lambda>cat. map_option (average (category_string cat)) (buckets cat)) all_categories)"

definition aggregate_overall :: "question_score list \<Rightarrow> category_score" where
  "aggregate_overall scores =
     (if scores = [] then \<lparr>cs_category = ''OVERALL'', cs_count = 0, cs_precision = 0, cs_recall = 0, cs_f1 = 0\<rparr>
      else average ''OVERALL'' (fold accumulate scores zero_acc))"

section \<open>Sets\<close>

lemma to_set_acc:
  "distinct s \<Longrightarrow> distinct (fold (\<lambda>i s. if i \<in> set s then s else s @ [i]) items s) \<and>
     set (fold (\<lambda>i s. if i \<in> set s then s else s @ [i]) items s) = set s \<union> set items"
  by (induction items arbitrary: s) auto

lemma distinct_to_set [simp]: "distinct (to_set items)"
  and set_to_set [simp]: "set (to_set items) = set items"
  using to_set_acc [of "[]" items] by (simp_all add: to_set_def)

lemma length_to_set: "length (to_set items) = card (set items)"
  by (metis distinct_card distinct_to_set set_to_set)

lemma to_set_empty [simp]: "to_set items = [] \<longleftrightarrow> items = []"
  by (metis set_empty set_to_set)

lemma intersection_size_eq:
  assumes "distinct a" shows "intersection_size a b = card (set a \<inter> set b)"
proof -
  have "fold (\<lambda>k count. if k \<in> set b then Suc count else count) a n = n + length (filter (\<lambda>k. k \<in> set b) a)" for n
    by (induction a arbitrary: n) auto
  moreover have "length (filter (\<lambda>k. k \<in> set b) a) = card (set a \<inter> set b)"
    using assms by (metis distinct_card distinct_filter set_filter Collect_conj_eq Int_def Collect_mem_eq)
  ultimately show ?thesis by (simp add: intersection_size_def)
qed

section \<open>Scores of a question\<close>

lemma ratio_bounds:
  assumes "a \<le> b" "b \<le> 2 ^ 53"
  shows "0 \<le> f64 (f64 (of_nat a) / f64 (of_nat b)) \<and> f64 (f64 (of_nat a) / f64 (of_nat b)) \<le> 1"
proof -
  have "f64 (of_nat a) = of_nat a" "f64 (of_nat b) = of_nat b" using assms by (simp_all add: f64_nat)
  moreover have "0 \<le> of_nat a / (of_nat b :: rat)" "of_nat a / (of_nat b :: rat) \<le> 1"
    using assms(1) by (auto simp: divide_le_eq_1)
  ultimately show ?thesis using f64_unit by simp
qed

text \<open>The sum of two floats from 0 to 1 bounds twice their product, also after rounding.\<close>

lemma f1_bounds:
  assumes "0 \<le> p" "p \<le> 1" "0 \<le> q" "q \<le> 1"
  shows "0 \<le> f1_score (f64 p) (f64 q) \<and> f1_score (f64 p) (f64 q) \<le> 1"
proof (cases "0 < f64 (f64 p + f64 q)")
  case True
  let ?p = "f64 p" and ?q = "f64 q"
  have pq: "0 \<le> ?p" "?p \<le> 1" "0 \<le> ?q" "?q \<le> 1" using f64_unit assms by blast+
  have two: "f64 (2 * ?p) = 2 * ?p" by (rule f64_double [OF assms(1,2)])
  have "?p * ?q \<le> ?p" "?p * ?q \<le> ?q"
    using pq by (simp_all add: mult_left_le mult_left_le_one_le)
  then have le: "2 * ?p * ?q \<le> ?p + ?q" by simp
  have "f64 (2 * ?p * ?q) \<le> f64 (?p + ?q)" by (rule f64_mono) (use pq le in auto)
  then have "f64 (2 * ?p * ?q) / f64 (?p + ?q) \<le> 1" using True by simp
  moreover have "0 \<le> f64 (2 * ?p * ?q)"
  proof (rule f64_nonneg)
    show "2 * ?p * ?q \<le> 2 ^ 53" using le pq by simp
  qed (use pq in simp)
  then have "0 \<le> f64 (2 * ?p * ?q) / f64 (?p + ?q)" using True by simp
  ultimately show ?thesis using True f64_unit by (simp add: f1_score_def two)
qed (simp add: f1_score_def)

lemma f64_unit_fix: "p = f64 a \<Longrightarrow> 0 \<le> a \<Longrightarrow> a \<le> 1 \<Longrightarrow> 0 \<le> p \<and> p \<le> 1"
  using f64_unit by simp

definition unit_score :: "question_score \<Rightarrow> bool" where
  "unit_score s \<longleftrightarrow> {qs_precision s, qs_recall s, qs_f1 s} \<subseteq> {0..1}"

lemma score_unit:
  assumes "length (qr_retrieved r) \<le> 2 ^ 53" "length (qa_evidence (qr_qa r)) \<le> 2 ^ 53"
  shows "unit_score (score_question r)"
proof (cases "qa_evidence (qr_qa r) = []")
  case True
  then show ?thesis by (simp add: unit_score_def score_question_def Let_def)
next
  case False
  let ?R = "to_set (qr_retrieved r)" and ?E = "to_set (qa_evidence (qr_qa r))"
  let ?tp = "intersection_size ?R ?E"
  have bound: "length (to_set xs) \<le> 2 ^ 53" if "length xs \<le> 2 ^ 53" for xs
    using that card_length [of xs] by (simp add: length_to_set)
  have tp: "?tp \<le> length ?R" "?tp \<le> length ?E"
    by (simp_all add: intersection_size_eq length_to_set card_mono)
  note p = ratio_bounds [OF tp(1) bound [OF assms(1)]] and q = ratio_bounds [OF tp(2) bound [OF assms(2)]]
  define a where "a = (if 0 < length ?R then f64 (of_nat ?tp) / f64 (of_nat (length ?R)) else 0)"
  define b where "b = f64 (of_nat ?tp) / f64 (of_nat (length ?E))"
  have n: "f64 (of_nat n) = of_nat n" if "n \<le> length ?R \<or> n \<le> length ?E" for n
    using that bound [OF assms(1)] bound [OF assms(2)] by (auto intro: f64_nat order_trans)
  have ab: "0 \<le> a" "a \<le> 1" "0 \<le> b" "b \<le> 1"
    using tp by (auto simp: a_def b_def n divide_le_eq_1)
  have "qs_precision (score_question r) = f64 a" "qs_recall (score_question r) = f64 b"
    "qs_f1 (score_question r) = f1_score (f64 a) (f64 b)"
    using False by (simp_all add: score_question_def Let_def a_def b_def)
  with f1_bounds [OF ab] f64_unit [OF ab(1,2)] f64_unit [OF ab(3,4)] show ?thesis
    by (simp add: unit_score_def)
qed

lemma f64_2: "f64 2 = 2"
  using f64_nat [of 2] by simp

lemma recall_one:
  assumes "set (qa_evidence (qr_qa r)) \<subseteq> set (qr_retrieved r)" "length (qa_evidence (qr_qa r)) \<le> 2 ^ 53"
  shows "qs_recall (score_question r) = 1"
proof (cases "qa_evidence (qr_qa r) = []")
  case False
  let ?E = "to_set (qa_evidence (qr_qa r))"
  have "set (qr_retrieved r) \<inter> set (qa_evidence (qr_qa r)) = set (qa_evidence (qr_qa r))" using assms(1) by blast
  then have "intersection_size (to_set (qr_retrieved r)) ?E = length ?E"
    by (simp add: intersection_size_eq length_to_set)
  moreover have "f64 (of_nat (length ?E)) = of_nat (length ?E)"
    using assms(2) card_length [of "qa_evidence (qr_qa r)"] by (intro f64_nat) (simp add: length_to_set)
  ultimately show ?thesis using False by (simp add: score_question_def Let_def)
qed (simp add: score_question_def Let_def)

text \<open>
  Precision, recall and F1 of a question are floats between 0 and 1, rounding included.
  They are all 1 exactly when the retrieved dialog identifiers are the evidence; with evidence
  and nothing of it retrieved they are all 0. Repetitions in either list do not count.
\<close>

theorem score_question_bounds:
  assumes "length (qr_retrieved r) \<le> 2 ^ 53" "length (qa_evidence (qr_qa r)) \<le> 2 ^ 53"
  shows "unit_score (score_question r) \<and>
    (set (qr_retrieved r) = set (qa_evidence (qr_qa r)) \<longrightarrow>
       qs_precision (score_question r) = 1 \<and> qs_recall (score_question r) = 1 \<and> qs_f1 (score_question r) = 1) \<and>
    (qa_evidence (qr_qa r) \<noteq> [] \<longrightarrow> set (qr_retrieved r) \<inter> set (qa_evidence (qr_qa r)) = {} \<longrightarrow>
       qs_precision (score_question r) = 0 \<and> qs_recall (score_question r) = 0 \<and> qs_f1 (score_question r) = 0)"
proof (intro conjI impI)
  show "unit_score (score_question r)" by (rule score_unit [OF assms])
next
  assume eq: "set (qr_retrieved r) = set (qa_evidence (qr_qa r))"
  have len: "length (to_set (qr_retrieved r)) = length (to_set (qa_evidence (qr_qa r)))"
    "intersection_size (to_set (qr_retrieved r)) (to_set (qa_evidence (qr_qa r))) = length (to_set (qa_evidence (qr_qa r)))"
    using eq by (simp_all add: length_to_set intersection_size_eq)
  have "f64 (of_nat (length (to_set (qa_evidence (qr_qa r))))) = of_nat (length (to_set (qa_evidence (qr_qa r))))"
    using assms(2) card_length [of "qa_evidence (qr_qa r)"] by (intro f64_nat) (simp add: length_to_set)
  moreover have "f1_score 1 1 = 1" by (simp add: f1_score_def f64_2)
  ultimately show "qs_precision (score_question r) = 1" "qs_recall (score_question r) = 1"
    "qs_f1 (score_question r) = 1"
    using len eq by (auto simp: score_question_def Let_def)
next
  assume E: "qa_evidence (qr_qa r) \<noteq> []" and none: "set (qr_retrieved r) \<inter> set (qa_evidence (qr_qa r)) = {}"
  then have "intersection_size (to_set (qr_retrieved r)) (to_set (qa_evidence (qr_qa r))) = 0"
    by (simp add: intersection_size_eq)
  moreover have "f1_score 0 0 = 0" by (simp add: f1_score_def)
  ultimately show "qs_precision (score_question r) = 0" "qs_recall (score_question r) = 0"
    "qs_f1 (score_question r) = 0"
    using E by (simp_all add: score_question_def Let_def)
qed

definition asked :: "string list \<Rightarrow> string list \<Rightarrow> query_result" where
  "asked ev ret = \<lparr>qr_qa = zero_qa\<lparr>qa_evidence := ev\<rparr>, qr_retrieved = ret\<rparr>"

theorem score_question_bounds_witness:
  "unit_score (score_question (asked [''D1''] [''D1'', ''D2''])) \<and>
   qs_f1 (score_question (asked [''D1'', ''D1''] [''D1''])) = 1"
  using score_question_bounds [of "asked [''D1''] [''D1'', ''D2'']"]
    score_question_bounds [of "asked [''D1'', ''D1''] [''D1'']"]
  by (simp add: asked_def)

section \<open>Averages\<close>

lemma add_buckets:
  "fold add_bucket scores Map.empty c =
     (let ss = filter (\<lambda>s. qs_category s = c) scores
      in if ss = [] then None else Some (fold accumulate ss zero_acc))"
proof (induction scores rule: rev_induct)
  case (snoc s scores)
  then show ?case by (auto simp: add_bucket_def Let_def)
qed simp

lemma accumulate_bounds:
  assumes "\<forall>s \<in> set ss. unit_score s" "length ss \<le> 2 ^ 53"
  shows "ac_count (fold accumulate ss zero_acc) = length ss \<and>
    {ac_precision (fold accumulate ss zero_acc), ac_recall (fold accumulate ss zero_acc),
     ac_f1 (fold accumulate ss zero_acc)} \<subseteq> {0..of_nat (length ss)}"
  using assms
proof (induction ss rule: rev_induct)
  case (snoc s ss)
  then have IH: "ac_count (fold accumulate ss zero_acc) = length ss"
    "{ac_precision (fold accumulate ss zero_acc), ac_recall (fold accumulate ss zero_acc),
      ac_f1 (fold accumulate ss zero_acc)} \<subseteq> {0..of_nat (length ss)}" by simp_all
  have s: "unit_score s" using snoc.prems by simp
  have n: "f64 (of_nat (Suc (length ss))) = of_nat (Suc (length ss))" using snoc.prems by (intro f64_nat) simp
  have big: "(of_nat (Suc (length ss)) :: rat) \<le> 2 ^ 53"
  proof -
    have "(of_nat (Suc (length ss)) :: rat) \<le> of_nat (2 ^ 53)"
      using snoc.prems(2) by (subst of_nat_le_iff) simp
    then show ?thesis by simp
  qed
  have step: "0 \<le> f64 (x + y) \<and> f64 (x + y) \<le> of_nat (Suc (length ss))"
    if "x \<in> {0..of_nat (length ss)}" "y \<in> {0..1}" for x y :: rat
    using that f64_mono [of 0 "x + y"] f64_mono [of "x + y" "of_nat (Suc (length ss))"] big
    unfolding n by simp
  define a where "a = fold accumulate ss zero_acc"
  have "ac_count (accumulate s a) = Suc (length ss)" using IH(1) by (simp add: accumulate_def a_def)
  moreover have "ac_precision (accumulate s a) = f64 (ac_precision a + qs_precision s)"
    "ac_recall (accumulate s a) = f64 (ac_recall a + qs_recall s)"
    "ac_f1 (accumulate s a) = f64 (ac_f1 a + qs_f1 s)" by (simp_all add: accumulate_def)
  moreover have "ac_precision a \<in> {0..of_nat (length ss)}" "ac_recall a \<in> {0..of_nat (length ss)}"
    "ac_f1 a \<in> {0..of_nat (length ss)}" using IH(2) by (simp_all add: a_def)
  moreover have "qs_precision s \<in> {0..1}" "qs_recall s \<in> {0..1}" "qs_f1 s \<in> {0..1}"
    using s by (simp_all add: unit_score_def)
  moreover have "fold accumulate (ss @ [s]) zero_acc = accumulate s a" by (simp add: a_def)
  ultimately show ?case using step by (simp only: length_append_singleton insert_subset atLeastAtMost_iff) simp
qed (simp add: zero_acc_def)

lemma overall_bounds:
  assumes "list_all unit_score scores" "length scores \<le> 2 ^ 53"
  shows "{cs_precision (aggregate_overall scores), cs_recall (aggregate_overall scores),
      cs_f1 (aggregate_overall scores)} \<subseteq> {0..1} \<and> cs_count (aggregate_overall scores) = length scores"
proof -
  have acc: "ac_count (fold accumulate scores zero_acc) = length scores"
    "{ac_precision (fold accumulate scores zero_acc), ac_recall (fold accumulate scores zero_acc),
      ac_f1 (fold accumulate scores zero_acc)} \<subseteq> {0..of_nat (length scores)}"
    using accumulate_bounds [of scores] assms by (auto simp: list_all_iff)
  have n: "f64 (of_nat (length scores)) = of_nat (length scores)" using assms(2) by (rule f64_nat)
  have unit: "0 \<le> f64 (x / of_nat (length scores)) \<and> f64 (x / of_nat (length scores)) \<le> 1"
    if "x \<in> {0..of_nat (length scores)}" "scores \<noteq> []" for x :: rat
    using that by (intro f64_unit) (simp_all add: divide_le_eq_1)
  show ?thesis
    using acc unit by (cases "scores = []") (simp_all add: aggregate_overall_def average_def n Let_def)
qed

text \<open>
  The scores of a category are exactly what averaging the questions of that category on
  their own would give, with their number; categories without questions are left out and the
  others come in their fixed order. Averages of scores between 0 and 1 stay between 0 and 1
  under rounding. Questions of an unknown category count only in the overall score.
\<close>

theorem aggregate_by_category_eq:
  "aggregate_by_category scores =
     map (\<lambda>c. (aggregate_overall (filter (\<lambda>s. qs_category s = c) scores))\<lparr>cs_category := category_string c\<rparr>)
       (filter (\<lambda>c. c \<in> qs_category ` set scores) all_categories) \<and>
   (list_all unit_score scores \<longrightarrow> length scores \<le> 2 ^ 53 \<longrightarrow>
     {cs_precision (aggregate_overall scores), cs_recall (aggregate_overall scores),
      cs_f1 (aggregate_overall scores)} \<subseteq> {0..1} \<and>
     cs_count (aggregate_overall scores) = length scores)"
proof (intro conjI impI)
  have "List.map_filter (\<lambda>cat. map_option (average (category_string cat)) (fold add_bucket scores Map.empty cat)) cs =
     map (\<lambda>c. (aggregate_overall (filter (\<lambda>s. qs_category s = c) scores))\<lparr>cs_category := category_string c\<rparr>)
       (filter (\<lambda>c. c \<in> qs_category ` set scores) cs)" for cs
  proof (induction cs)
    case (Cons c cs)
    have "filter (\<lambda>s. qs_category s = c) scores = [] \<longleftrightarrow> c \<notin> qs_category ` set scores"
      by (auto simp: filter_empty_conv)
    with Cons show ?case
      by (auto simp: List.map_filter_simps add_buckets aggregate_overall_def average_def Let_def)
  qed (simp add: List.map_filter_simps)
  then show "aggregate_by_category scores =
     map (\<lambda>c. (aggregate_overall (filter (\<lambda>s. qs_category s = c) scores))\<lparr>cs_category := category_string c\<rparr>)
       (filter (\<lambda>c. c \<in> qs_category ` set scores) all_categories)"
    by (simp add: aggregate_by_category_def Let_def)
next
  assume "list_all unit_score scores" "length scores \<le> 2 ^ 53"
  from overall_bounds [OF this] show
    "{cs_precision (aggregate_overall scores), cs_recall (aggregate_overall scores),
      cs_f1 (aggregate_overall scores)} \<subseteq> {0..1}"
    "cs_count (aggregate_overall scores) = length scores" by blast+
qed

theorem aggregate_by_category_eq_witness:
  "cs_count (aggregate_overall [score_question (asked [] [])]) = 1 \<and>
   map cs_category (aggregate_by_category [(score_question (asked [] []))\<lparr>qs_category := 2\<rparr>]) = [''temporal'']"
proof -
  have "unit_score (score_question (asked [] []))"
    by (simp add: unit_score_def score_question_def asked_def zero_qa_def Let_def)
  with aggregate_by_category_eq [of "[score_question (asked [] [])]"]
    aggregate_by_category_eq [of "[(score_question (asked [] []))\<lparr>qs_category := 2\<rparr>]"]
  show ?thesis by (simp add: all_categories_def category_string_def)
qed

end
