(* ===== verification/Bench_Ingest.thy ===== *)
theory Bench_Ingest
  imports Bench_Score Memory
begin

text \<open>
  Ingesting a sample into a fresh in-memory plane and querying it
  (\<open>bench/locomo/ingest.go\<close>, \<open>query.go\<close>, \<open>strategy_basic.go\<close>). The uuids and clock readings
  of the turns, in the order they are stored, and \<open>time.Parse\<close> are arguments.
\<close>

section \<open>Ingest\<close>

record ingested =
  in_id :: string
  in_store :: mem_store
  in_dia :: "string \<rightharpoonup> string"
  in_count :: nat

record ingest_env =
  ie_uuid :: "nat \<Rightarrow> string"
  ie_now :: "nat \<Rightarrow> time"
  ie_parse :: "string \<Rightarrow> string \<Rightarrow> time option"

definition date_formats :: "string list" where
  "date_formats = [''2 January 2006'', ''January 2, 2006'', ''2006-01-02'', ''2006-01-02T15:04:05'']"

fun first_parse :: "(string \<Rightarrow> time option) \<Rightarrow> string list \<Rightarrow> time option" where
  "first_parse p [] = None"
| "first_parse p (f # fs) = (case p f of Some t \<Rightarrow> Some t | None \<Rightarrow> first_parse p fs)"

definition parse_date_time :: "ingest_env \<Rightarrow> nat \<Rightarrow> string \<Rightarrow> time" where
  "parse_date_time env k s =
     (case first_parse (\<lambda>f. ie_parse env f s) date_formats of Some t \<Rightarrow> t | None \<Rightarrow> ie_now env k)"

definition new_ingested :: "string \<Rightarrow> ingested" where
  "new_ingested i = \<lparr>in_id = i, in_store = new_store [], in_dia = Map.empty, in_count = 0\<rparr>"

definition session_tag :: "session \<Rightarrow> string" where
  "session_tag sess = sprintf ''session-%d'' [FInt (ss_index sess)]"

definition turn_time :: "time \<Rightarrow> nat \<Rightarrow> time" where
  "turn_time t i = time_add t (of_nat i * second)"

text \<open>Storing the record of a turn and indexing it by its dialog identifier.\<close>

definition store_turn :: "memory \<Rightarrow> string \<Rightarrow> ingested \<Rightarrow> ingested result" where
  "store_turn m dia r =
     (let a = length (ms_heap (in_store r));
          st = (in_store r)\<lparr>ms_heap := ms_heap (in_store r) @ [m]\<rparr>
      in case plane_store inmemory a st of
           (Inl e, _) \<Rightarrow> Inl (Wrapf ''store turn %s: %w'' [FStr dia] e)
         | (Inr _, st) \<Rightarrow>
             Inr (r\<lparr>in_store := st, in_dia := (in_dia r)(mem_id m \<mapsto> dia), in_count := in_count r + 1\<rparr>))"

definition turn_memory :: "ingest_env \<Rightarrow> sample \<Rightarrow> session \<Rightarrow> time \<Rightarrow> nat \<Rightarrow> turn \<Rightarrow> nat \<Rightarrow> memory" where
  "turn_memory env sa sess t i tu k =
     (new_memory (ie_uuid env k) (ie_now env k) episodic
        (print (JObj [(''dia_id'', JStr (tu_dia tu)), (''speaker'', JStr (tu_speaker tu)), (''text'', JStr (tu_text tu))]))
        (tu_speaker tu) (sa_id sa))
     \<lparr>mem_tags := [session_tag sess],
      mem_meta := [''dia_id'' \<mapsto> tu_dia tu, ''session'' \<mapsto> sprintf ''%d'' [FInt (ss_index sess)]],
      mem_created := turn_time t i\<rparr>"

fun ingest_turns :: "ingest_env \<Rightarrow> sample \<Rightarrow> session \<Rightarrow> time \<Rightarrow> nat \<Rightarrow> turn list \<Rightarrow> ingested \<Rightarrow> ingested result" where
  "ingest_turns env sa sess t i [] r = Inr r"
| "ingest_turns env sa sess t i (tu # tus) r =
     bind (store_turn (turn_memory env sa sess t i tu (in_count r)) (tu_dia tu) r)
       (ingest_turns env sa sess t (Suc i) tus)"

fun ingest_sessions :: "ingest_env \<Rightarrow> sample \<Rightarrow> session list \<Rightarrow> ingested \<Rightarrow> ingested result" where
  "ingest_sessions env sa [] r = Inr r"
| "ingest_sessions env sa (sess # ss) r =
     bind (ingest_turns env sa sess (parse_date_time env (in_count r) (ss_date sess)) 0 (ss_turns sess) r)
       (ingest_sessions env sa ss)"

definition ingest :: "ingest_env \<Rightarrow> sample \<Rightarrow> ingested result" where
  "ingest env sa = ingest_sessions env sa (sa_sessions sa) (new_ingested (sa_id sa))"

section \<open>Queries\<close>

definition dec_dia :: "raw \<Rightarrow> string result" where
  "dec_dia p = bind (obj_fields p) (\<lambda>fs. dec_field ''dia_id'' dec_string fs [])"

definition dia_of :: "(string \<rightharpoonup> string) \<Rightarrow> memory \<Rightarrow> string option" where
  "dia_of dia m =
     (if map_get [] (mem_meta m) ''dia_id'' \<noteq> [] then mem_meta m ''dia_id''
      else case dia (mem_id m) of
        Some d \<Rightarrow> Some d
      | None \<Rightarrow> (case dec_dia (mem_content m) of
                   Inr d \<Rightarrow> if d \<noteq> [] then Some d else None
                 | Inl _ \<Rightarrow> None))"

definition extract_dia_ids :: "memory list \<Rightarrow> (string \<rightharpoonup> string) \<Rightarrow> string list" where
  "extract_dia_ids ms dia = List.map_filter (dia_of dia) ms"

definition broad_query :: "string \<Rightarrow> search_query" where
  "broad_query i = \<lparr>sq_type = episodic, sq_tags = [], sq_actor = [], sq_tenant = i, sq_limit = 10000,
     sq_since = zero_time, sq_min_confidence = 0\<rparr>"

definition execute_queries :: "string list \<Rightarrow> ingested \<Rightarrow> qa_item list \<Rightarrow> query_result list result" where
  "execute_queries ks r qa =
     (case plane_search inmemory ks (broad_query (in_id r)) (in_store r) of
        (Inl e, _) \<Rightarrow> Inl e
      | (Inr rs, st) \<Rightarrow>
          let retrieved = extract_dia_ids (map (\<lambda>a. ms_heap st ! a) rs) (in_dia r)
          in Inr (map (\<lambda>q. \<lparr>qr_qa = q, qr_retrieved = retrieved\<rparr>) qa))"

section \<open>The strategy interface\<close>

text \<open>
  A strategy ingests a sample and answers its questions, changing a state \<open>'s\<close> of its own on
  the way; \<open>order k\<close> is the order in which the k-th search ranges over the records.
\<close>

record 's strategy =
  sg_name :: string
  sg_ingest :: "sample \<Rightarrow> 's \<Rightarrow> ingested result \<times> 's"
  sg_query :: "(nat \<Rightarrow> string list) \<Rightarrow> ingested \<Rightarrow> qa_item list \<Rightarrow> 's \<Rightarrow> query_result list result \<times> 's"

definition basic_strategy :: "ingest_env \<Rightarrow> 's strategy" where
  "basic_strategy env =
     \<lparr>sg_name = ''basic'', sg_ingest = \<lambda>sa s. (ingest env sa, s),
      sg_query = \<lambda>order r qa s. (execute_queries (order 0) r qa, s)\<rparr>"

section \<open>What an ingested sample holds\<close>

text \<open>The records hold the turns with the dialog identifiers \<open>ds\<close>, in that order.\<close>

definition holds :: "(nat \<Rightarrow> string) \<Rightarrow> string list \<Rightarrow> ingested \<Rightarrow> bool" where
  "holds uuid ds r \<longleftrightarrow>
     in_count r = length ds \<and> length (ms_heap (in_store r)) = length ds \<and>
     ms_index (in_store r) = map_of (map (\<lambda>k. (uuid k, k)) [0..<length ds]) \<and>
     (\<forall>k < length ds. mem_id (ms_heap (in_store r) ! k) = uuid k \<and>
        mem_tenant (ms_heap (in_store r) ! k) = in_id r \<and>
        mem_meta (ms_heap (in_store r) ! k) ''dia_id'' = Some (ds ! k) \<and> in_dia r (uuid k) = Some (ds ! k))"

lemma holds_new [simp]: "holds uuid [] (new_ingested i)"
  by (simp add: holds_def new_ingested_def new_store_def)

lemma uuid_index:
  "inj uuid \<Longrightarrow> map_of (map (\<lambda>k. (uuid k, k)) [0..<n]) (uuid j) = (if j < n then Some j else None)"
proof (induction n)
  case (Suc n)
  then show ?case by (auto simp: map_add_def inj_eq split: option.split)
qed simp

lemma store_turn_holds:
  assumes "inj uuid" "holds uuid ds r" "mem_id m = uuid (length ds)" "mem_tenant m = in_id r"
    "mem_meta m ''dia_id'' = Some dia"
  shows "\<exists>r'. store_turn m dia r = Inr r' \<and> holds uuid (ds @ [dia]) r' \<and> in_id r' = in_id r \<and>
    ms_heap (in_store r') = ms_heap (in_store r) @ [m]"
proof -
  let ?n = "length ds"
  have fresh: "ms_index (in_store r) (mem_id m) = None"
    using assms(2,3) uuid_index [OF assms(1), of ?n ?n] by (simp add: holds_def)
  have len: "length (ms_heap (in_store r)) = ?n" "in_count r = ?n" using assms(2) by (simp_all add: holds_def)
  let ?st = "(in_store r)\<lparr>ms_heap := ms_heap (in_store r) @ [m], ms_index := (ms_index (in_store r))(mem_id m \<mapsto> ?n)\<rparr>"
  let ?r = "r\<lparr>in_store := ?st, in_dia := (in_dia r)(mem_id m \<mapsto> dia), in_count := Suc ?n\<rparr>"
  have "store_turn m dia r = Inr ?r"
    using fresh len by (simp add: store_turn_def plane_store_def inmemory_def mem_write_def nth_append Let_def)
  moreover have "(map_of (map (\<lambda>k. (uuid k, k)) [0..<?n]))(uuid ?n \<mapsto> ?n) =
      map_of (map (\<lambda>k. (uuid k, k)) [0..<Suc ?n])"
  proof
    fix x show "((map_of (map (\<lambda>k. (uuid k, k)) [0..<?n]))(uuid ?n \<mapsto> ?n)) x =
        map_of (map (\<lambda>k. (uuid k, k)) [0..<Suc ?n]) x"
      using uuid_index [OF assms(1), of ?n ?n] by (auto simp: map_add_def split: option.split)
  qed
  then have "holds uuid (ds @ [dia]) ?r"
    using assms len by (auto simp: holds_def nth_append less_Suc_eq inj_eq)
  ultimately show ?thesis by simp
qed

definition episodic_store :: "ingested \<Rightarrow> bool" where
  "episodic_store r \<longleftrightarrow> (\<forall>m \<in> set (ms_heap (in_store r)). mem_type m = episodic)"

lemma ingest_turns_holds:
  assumes "inj (ie_uuid env)" "holds (ie_uuid env) ds r" "in_id r = sa_id sa" "episodic_store r"
  shows "\<exists>r'. ingest_turns env sa sess t i tus r = Inr r' \<and> holds (ie_uuid env) (ds @ map tu_dia tus) r' \<and>
    in_id r' = sa_id sa \<and> episodic_store r'"
  using assms(2-)
proof (induction tus arbitrary: i r ds)
  case (Cons tu tus)
  let ?m = "turn_memory env sa sess t i tu (in_count r)"
  have "mem_id ?m = ie_uuid env (length ds)" "mem_tenant ?m = in_id r" "mem_meta ?m ''dia_id'' = Some (tu_dia tu)"
    using Cons.prems by (simp_all add: turn_memory_def new_memory_def holds_def)
  from store_turn_holds [OF assms(1) Cons.prems(1) this] obtain r1 where
    r1: "store_turn ?m (tu_dia tu) r = Inr r1" "holds (ie_uuid env) (ds @ [tu_dia tu]) r1" "in_id r1 = in_id r"
      "ms_heap (in_store r1) = ms_heap (in_store r) @ [?m]"
    by blast
  have "episodic_store r1"
    using Cons.prems(3) by (simp add: episodic_store_def r1(4) turn_memory_def new_memory_def)
  with Cons.IH [OF r1(2)] Cons.prems(2) r1 show ?case by simp
qed simp

lemma ingest_sessions_holds:
  assumes "inj (ie_uuid env)" "holds (ie_uuid env) ds r" "in_id r = sa_id sa" "episodic_store r"
  shows "\<exists>r'. ingest_sessions env sa ss r = Inr r' \<and>
    holds (ie_uuid env) (ds @ concat (map (\<lambda>sess. map tu_dia (ss_turns sess)) ss)) r' \<and> in_id r' = sa_id sa \<and>
    episodic_store r'"
  using assms(2-)
proof (induction ss arbitrary: r ds)
  case (Cons sess ss)
  let ?t = "parse_date_time env (in_count r) (ss_date sess)"
  from ingest_turns_holds [OF assms(1) Cons.prems, of sess ?t 0 "ss_turns sess"] obtain r1 where
    r1: "ingest_turns env sa sess ?t 0 (ss_turns sess) r = Inr r1"
      "holds (ie_uuid env) (ds @ map tu_dia (ss_turns sess)) r1" "in_id r1 = sa_id sa"
      "episodic_store r1" by blast
  from Cons.IH [OF r1(2,3,4)] r1(1) show ?case by simp
qed simp

text \<open>The dialog identifiers of a sample, turn by turn.\<close>

definition all_dia :: "sample \<Rightarrow> string list" where
  "all_dia sa = concat (map (\<lambda>sess. map tu_dia (ss_turns sess)) (sa_sessions sa))"

lemma ingest_holds:
  "inj (ie_uuid env) \<Longrightarrow> \<exists>r. ingest env sa = Inr r \<and> holds (ie_uuid env) (all_dia sa) r \<and> in_id r = sa_id sa \<and>
     episodic_store r"
  using ingest_sessions_holds [of env "[]" "new_ingested (sa_id sa)" sa "sa_sessions sa"]
  by (simp add: ingest_def all_dia_def) (simp add: new_ingested_def episodic_store_def new_store_def)

lemma dia_of_holds:
  "holds uuid ds r \<Longrightarrow> k < length ds \<Longrightarrow> dia_of (in_dia r) (ms_heap (in_store r) ! k) = Some (ds ! k)"
  by (simp add: holds_def dia_of_def map_get_def)

text \<open>Searching such a store finds addresses of turns, each at most once.\<close>

lemma search_holds:
  assumes "holds uuid ds r" and inj: "inj uuid"
    and "key_order (ms_index (in_store r)) ks"
    and "plane_search inmemory ks q (in_store r) = (res, st)"
  shows "\<exists>rs. res = Inr rs \<and> st = in_store r \<and> distinct rs \<and> set rs \<subseteq> {..<length ds} \<and>
    ((\<forall>k < length ds. wanted q (ms_heap st ! k)) \<longrightarrow> length ds \<le> nat (search_limit q) \<longrightarrow> set rs = {..<length ds})"
proof -
  let ?s = "in_store r"
  have dom: "ms_index ?s i = Some k \<longleftrightarrow> k < length ds \<and> i = uuid k" for i k
    using assms(1) uuid_index [OF inj, of "length ds" k]
    by (auto simp: holds_def map_of_eq_Some_iff distinct_map inj_on_subset [OF inj] comp_def)
  have fin: "finite (dom (ms_index ?s))" using assms(1) by (simp add: holds_def finite_dom_map_of)
  have "mem_store_inv ?s" unfolding mem_store_inv_def using dom fin assms(1) by (auto simp: holds_def)
  moreover obtain rs where rs: "mem_search ks q ?s = (Inr rs, st)" "res = Inr rs"
    using assms(4) by (auto simp: plane_search_def inmemory_def mem_search_def Let_def)
  ultimately obtain m where m: "st = ?s" "distinct m"
    "set m = {k. \<exists>i. ms_index ?s i = Some k \<and> wanted q (ms_heap ?s ! k)}"
    "rs = take (nat (search_limit q)) (sort_key (\<lambda>r. - mem_created (ms_heap ?s ! r)) m)"
    using mem_search_hits [OF _ assms(3)] by blast
  have sub: "set m \<subseteq> {..<length ds}" using m(3) dom by auto
  have "set rs = {..<length ds}" if "\<forall>k < length ds. wanted q (ms_heap st ! k)" "length ds \<le> nat (search_limit q)"
  proof -
    have all: "set m = {..<length ds}" using m(3) dom that(1) by (auto simp: m(1))
    then have "length m = length ds" using distinct_card [OF m(2)] by simp
    then show ?thesis using m(4) that(2) all by simp
  qed
  moreover have "distinct rs" "set rs \<subseteq> set m" unfolding m(4) using m(2) set_take_subset by fastforce+
  ultimately show ?thesis using rs(2) m(1) sub by blast
qed

lemma extract_holds:
  assumes "holds uuid ds r" "set rs \<subseteq> {..<length ds}"
  shows "extract_dia_ids (map (\<lambda>a. ms_heap (in_store r) ! a) rs) (in_dia r) = map (\<lambda>k. ds ! k) rs"
  using assms(2) unfolding extract_dia_ids_def
  by (induction rs) (simp_all add: List.map_filter_simps dia_of_holds [OF assms(1)])

text \<open>The broad query finds every turn of a sample that was ingested turn by turn.\<close>

definition holds_turns :: "ingest_env \<Rightarrow> sample \<Rightarrow> ingested \<Rightarrow> bool" where
  "holds_turns env sa r \<longleftrightarrow> holds (ie_uuid env) (all_dia sa) r \<and> in_id r = sa_id sa \<and> episodic_store r"

lemma execute_queries_all:
  assumes "inj (ie_uuid env)" "length (all_dia sa) \<le> 10000" "holds_turns env sa r"
    and "key_order (ms_index (in_store r)) ks"
  shows "\<exists>results. execute_queries ks r qa = Inr results \<and> map qr_qa results = qa \<and>
    (\<forall>x \<in> set results. mset (qr_retrieved x) = mset (all_dia sa))"
proof -
  have r: "holds (ie_uuid env) (all_dia sa) r" "in_id r = sa_id sa" "episodic_store r"
    using assms(3) by (simp_all add: holds_turns_def)
  obtain res st where search: "plane_search inmemory ks (broad_query (in_id r)) (in_store r) = (res, st)"
    by force
  from search_holds [OF r(1) assms(1,4) search] obtain rs where
    rs: "res = Inr rs" "st = in_store r" "distinct rs" "set rs \<subseteq> {..<length (all_dia sa)}"
    "(\<forall>k < length (all_dia sa). wanted (broad_query (in_id r)) (ms_heap st ! k)) \<longrightarrow>
       length (all_dia sa) \<le> nat (search_limit (broad_query (in_id r))) \<longrightarrow> set rs = {..<length (all_dia sa)}"
    by blast
  have "wanted (broad_query (in_id r)) (ms_heap st ! k)" if "k < length (all_dia sa)" for k
    using that r rs(2) by (auto simp: wanted_def broad_query_def holds_def episodic_store_def)
  moreover have "nat (search_limit (broad_query (in_id r))) = 10000"
    by (simp add: search_limit_def broad_query_def)
  ultimately have all: "set rs = {..<length (all_dia sa)}" using rs(5) assms(2) by simp
  let ?ids = "map (\<lambda>k. all_dia sa ! k) rs"
  have "mset rs = mset [0..<length (all_dia sa)]"
    using rs(3) all by (subst set_eq_iff_mset_eq_distinct [symmetric]) (auto simp: atLeast0LessThan)
  then have "mset ?ids = mset (map (\<lambda>k. all_dia sa ! k) [0..<length (all_dia sa)])" by (simp only: mset_map)
  then have "mset ?ids = mset (all_dia sa)" by (simp add: map_nth)
  moreover have "execute_queries ks r qa = Inr (map (\<lambda>q. \<lparr>qr_qa = q, qr_retrieved = ?ids\<rparr>) qa)"
    using extract_holds [OF r(1) rs(4)] by (simp add: execute_queries_def search rs(1,2) Let_def)
  ultimately show ?thesis by (auto simp: comp_def)
qed

lemma recall_all:
  assumes "mset (qr_retrieved x) = mset ds" "set (qa_evidence (qr_qa x)) \<subseteq> set ds"
    "length (qa_evidence (qr_qa x)) \<le> 2 ^ 53"
  shows "qs_recall (score_question x) = 1"
  using recall_one [of x] assms mset_eq_setD [OF assms(1)] by simp

text \<open>
  The basic strategy answers every question with the dialog identifiers of all turns of
  the sample (as long as there are at most 10000), each once per turn. So whenever the
  evidence of a question consists of turns of the sample, its recall is 1.
\<close>

theorem basic_strategy_retrieves:
  assumes "inj (ie_uuid env)" "length (all_dia sa) \<le> 10000"
    and "fst (sg_ingest (basic_strategy env) sa s) = Inr r"
    and "key_order (ms_index (in_store r)) (order 0)"
    and "fst (sg_query (basic_strategy env) order r qa s) = Inr results"
  shows "map qr_qa results = qa \<and>
    (\<forall>x \<in> set results. mset (qr_retrieved x) = mset (all_dia sa) \<and>
       (set (qa_evidence (qr_qa x)) \<subseteq> set (all_dia sa) \<longrightarrow>
        length (qa_evidence (qr_qa x)) \<le> 2 ^ 53 \<longrightarrow> qs_recall (score_question x) = 1))"
proof -
  have "holds_turns env sa r"
    using ingest_holds [OF assms(1), of sa] assms(3) by (auto simp: basic_strategy_def holds_turns_def)
  from execute_queries_all [OF assms(1,2) this assms(4), of qa] assms(5) recall_all show ?thesis
    by (auto simp: basic_strategy_def)
qed

definition chat_sample :: sample where
  "chat_sample = zero_sample\<lparr>sa_id := ''s'', sa_sessions :=
     [\<lparr>ss_index = 1, ss_date = [], ss_turns = [zero_turn\<lparr>tu_dia := ''D1''\<rparr>, zero_turn\<lparr>tu_dia := ''D2''\<rparr>]\<rparr>]\<rparr>"

definition chat_env :: ingest_env where
  "chat_env = \<lparr>ie_uuid = (\<lambda>k. show_int (int k)), ie_now = int, ie_parse = \<lambda>_ _. None\<rparr>"

theorem basic_strategy_retrieves_witness:
  "\<exists>r order results.
     fst (sg_ingest (basic_strategy chat_env) chat_sample ()) = Inr r \<and>
     fst (sg_query (basic_strategy chat_env) order r [zero_qa\<lparr>qa_evidence := [''D2'']\<rparr>] ()) = Inr results \<and>
     map (\<lambda>x. qs_recall (score_question x)) results = [1]"
proof -
  have inj: "inj (ie_uuid chat_env)" by (auto simp: chat_env_def inj_def show_int_inj)
  have dia: "all_dia chat_sample = [''D1'', ''D2'']" by (simp add: all_dia_def chat_sample_def)
  obtain r where r: "ingest chat_env chat_sample = Inr r" "holds (ie_uuid chat_env) [''D1'', ''D2''] r"
    using ingest_holds [OF inj, of chat_sample] dia by auto
  from r(2) have "finite (dom (ms_index (in_store r)))" by (simp add: holds_def finite_dom_map_of)
  then obtain ks where ks: "key_order (ms_index (in_store r)) ks" using key_order_ex by blast
  let ?qa = "[zero_qa\<lparr>qa_evidence := [''D2'']\<rparr>]"
  obtain results where q: "execute_queries ks r ?qa = Inr results"
    by (simp add: execute_queries_def plane_search_def inmemory_def mem_search_def Let_def)
  have run: "fst (sg_ingest (basic_strategy chat_env) chat_sample ()) = Inr r"
    "fst (sg_query (basic_strategy chat_env) (\<lambda>_. ks) r ?qa ()) = Inr results"
    using r(1) q by (simp_all add: basic_strategy_def)
  from basic_strategy_retrieves [OF inj _ run(1) _ run(2)] ks
  have "map qr_qa results = ?qa"
    "\<forall>x \<in> set results. set (qa_evidence (qr_qa x)) \<subseteq> {''D1'', ''D2''} \<longrightarrow>
       length (qa_evidence (qr_qa x)) \<le> 2 ^ 53 \<longrightarrow> qs_recall (score_question x) = 1"
    by (simp_all add: dia)
  then have "map (\<lambda>x. qs_recall (score_question x)) results = [1]" by (cases results) auto
  then show ?thesis using run by (intro exI conjI)
qed

end
