(* ===== verification/Bench_LLM.thy ===== *)
theory Bench_LLM
  imports Bench_Ingest
begin

text \<open>
  The LLM strategy (\<open>bench/locomo/strategy_llm.go\<close>): turns are classified in batches by the
  sidecar and stored with the type, confidence and tags it gives; each question is planned
  into a search by the sidecar. Every failure of the sidecar has a fallback. Progress and
  warning lines on standard error are left out.
\<close>

section \<open>Prompts\<close>

text \<open>A text by its lines; a caret stands for a double quote.\<close>

definition quoted :: "string list \<Rightarrow> string" where
  "quoted ls = map (\<lambda>c. if c = CHR ''^'' then CHR 0x22 else c) (join [CHR 0x0A] ls)"

definition classify_prompt :: string where
  "classify_prompt = quoted
     [''You are a memory classification engine. Classify each dialogue turn into a memory type with confidence and tags.'',
      [],
      ''Memory types:'',
      ''- episodic: Time-bounded events, experiences, interactions. ^We went to Paris last summer.^'',
      ''- semantic: General knowledge, facts, preferences, relationships. ^I'm allergic to peanuts.^'',
      ''- operational: Procedures, instructions, how-to knowledge. ^To reset your password, go to settings.^'',
      ''- working: Transient filler, greetings, acknowledgments. ^Haha yeah^ or ^Let me check.^'',
      [],
      ''For each turn, respond with a JSON array where each element has:'',
      ''- ^dia_id^: the dialog ID from the input'',
      ''- ^memory_type^: one of episodic, semantic, operational, working'',
      ''- ^confidence^: 0.0 to 1.0 (how strongly this turn contains memorable information; filler/greetings should be 0.1-0.2)'',
      ''- ^tags^: 1-5 relevant topic tags from this vocabulary: travel, food, health, family, work, hobby, birthday, preference, location, relationship, event, plan, opinion, music, sports, education, finance, technology, pet, weather'',
      ''- ^summary^: one-sentence summary of the memorable content'',
      [],
      ''Respond ONLY with the JSON array, no other text or markdown.'']"

definition query_prompt :: string where
  "query_prompt = quoted
     [''You are a memory retrieval planner. Given a question about a conversation, determine the best search parameters to find relevant memories.'',
      [],
      ''Available memory types: episodic, semantic, operational, working'',
      ''Available tags: travel, food, health, family, work, hobby, birthday, preference, location, relationship, event, plan, opinion, music, sports, education, finance, technology, pet, weather'',
      [],
      ''Respond with a JSON object:'',
      ''- ^memory_type^: which type is most likely to contain the answer (use ^^ to search all types)'',
      ''- ^tags^: array with exactly ONE most-relevant tag (the system requires ALL tags to match, so use only the single best one; use [] to skip tag filtering)'',
      ''- ^min_confidence^: minimum confidence threshold (use 0.3 to filter noise, 0.0 to include everything)'',
      ''- ^reasoning^: brief explanation of your search strategy'',
      [],
      ''Respond ONLY with the JSON object, no other text or markdown.'']"

section \<open>Answers of the sidecar\<close>

record turn_class =
  tc_dia :: string
  tc_type :: string
  tc_confidence :: rat
  tc_tags :: "string list"
  tc_summary :: string

record smart_query =
  sm_type :: string
  sm_tags :: "string list"
  sm_min_confidence :: rat
  sm_reasoning :: string

definition zero_class :: turn_class where
  "zero_class = \<lparr>tc_dia = [], tc_type = [], tc_confidence = 0, tc_tags = [], tc_summary = []\<rparr>"

definition zero_smart :: smart_query where
  "zero_smart = \<lparr>sm_type = [], sm_tags = [], sm_min_confidence = 0, sm_reasoning = []\<rparr>"

definition dec_class :: "turn_class decoder" where
  "dec_class v c =
     bind (obj_fields v) (\<lambda>fs.
     bind (dec_field ''dia_id'' dec_string fs (tc_dia c)) (\<lambda>d.
     bind (dec_field ''memory_type'' dec_string fs (tc_type c)) (\<lambda>t.
     bind (dec_field ''confidence'' dec_float fs (tc_confidence c)) (\<lambda>cf.
     bind (dec_field ''tags'' dec_strings fs (tc_tags c)) (\<lambda>tg.
     bind (dec_field ''summary'' dec_string fs (tc_summary c)) (\<lambda>s.
       Inr \<lparr>tc_dia = d, tc_type = t, tc_confidence = cf, tc_tags = tg, tc_summary = s\<rparr>))))))"

definition dec_smart :: "smart_query decoder" where
  "dec_smart v q =
     bind (obj_fields v) (\<lambda>fs.
     bind (dec_field ''memory_type'' dec_string fs (sm_type q)) (\<lambda>t.
     bind (dec_field ''tags'' dec_strings fs (sm_tags q)) (\<lambda>tg.
     bind (dec_field ''min_confidence'' dec_float fs (sm_min_confidence q)) (\<lambda>mc.
     bind (dec_field ''reasoning'' dec_string fs (sm_reasoning q)) (\<lambda>r.
       Inr \<lparr>sm_type = t, sm_tags = tg, sm_min_confidence = mc, sm_reasoning = r\<rparr>)))))"

definition llm_parse_memory_type :: "string \<Rightarrow> mem_type" where
  "llm_parse_memory_type s =
     (let t = to_lower (trim_space s)
      in if t = ''episodic'' then episodic else if t = ''semantic'' then semantic
         else if t = ''operational'' then operational else if t = ''working'' then working
         else episodic)"

definition clamp_confidence :: "rat \<Rightarrow> rat" where
  "clamp_confidence c = (if c < 0 then 0 else if 1 < c then 1 else c)"

definition fallback_classify :: "turn list \<Rightarrow> turn_class list" where
  "fallback_classify turns =
     map (\<lambda>t. \<lparr>tc_dia = tu_dia t, tc_type = ''episodic'', tc_confidence = 1 / 2, tc_tags = [],
              tc_summary = tu_text t\<rparr>) turns"

text \<open>Stripping the code fence a model may put around its JSON.\<close>

definition fence :: string where
  "fence = [CHR 0x60, CHR 0x60, CHR 0x60]"

definition clean_json :: "string \<Rightarrow> string" where
  "clean_json s =
     trim_space (trim_suffix fence (trim_prefix fence (trim_prefix (fence @ ''json'') (trim_space s))))"

section \<open>Calls\<close>

record 'n llm_state =
  lt_usage :: usage
  lt_fallbacks :: gint
  lt_net :: 'n

definition add_usage :: "usage \<Rightarrow> usage \<Rightarrow> usage" where
  "add_usage u v = \<lparr>us_input = us_input u + us_input v, us_output = us_output u + us_output v\<rparr>"

text \<open>
  The errors of the two calls are only logged. The text of an answer that does not parse,
  cut to 500 bytes there, is left out of them.
\<close>

definition ask :: "(rat \<Rightarrow> string) \<Rightarrow> 'n net \<Rightarrow> llm_client \<Rightarrow> string \<Rightarrow> string \<Rightarrow> gint \<Rightarrow> 'n llm_state \<Rightarrow>
    complete_response result \<times> 'n llm_state" where
  "ask ff net c system user max_tokens s =
     (case complete ff net c \<lparr>cq_system = system, cq_user = user, cq_max_tokens = max_tokens,
                              cq_temperature = None, cq_model = []\<rparr> (lt_net s) of
        (Inl e, n) \<Rightarrow> (Inl (Wrapf ''llm complete: %w'' [] e), s\<lparr>lt_net := n\<rparr>)
      | (Inr r, n) \<Rightarrow> (Inr r, s\<lparr>lt_net := n, lt_usage := add_usage (lt_usage s) (cp_usage r)\<rparr>))"

definition turn_line :: "turn \<Rightarrow> string" where
  "turn_line t = sprintf ''%s | %s: %s'' [FStr (tu_dia t), FStr (tu_speaker t), FStr (tu_text t)]"

definition classify_batch :: "(rat \<Rightarrow> string) \<Rightarrow> 'n net \<Rightarrow> llm_client \<Rightarrow> sample \<Rightarrow> session \<Rightarrow> turn list \<Rightarrow>
    'n llm_state \<Rightarrow> turn_class list result \<times> 'n llm_state" where
  "classify_batch ff net c sa sess turns s =
     (let user = sprintf (''Conversation between %s and %s, session %d (%s):'' @ [CHR 0x0A, CHR 0x0A] @ ''%s'')
                   [FStr (sa_speaker_a sa), FStr (sa_speaker_b sa), FInt (ss_index sess), FStr (ss_date sess),
                    FStr (join [CHR 0x0A] (map turn_line turns))]
      in case ask ff net c classify_prompt user 2048 s of
           (Inl e, s) \<Rightarrow> (Inl e, s)
         | (Inr r, s) \<Rightarrow>
             let body = clean_json (cp_text r)
             in if body = []
                then (Inl (Errf ''LLM returned empty response (tokens: %d in / %d out)''
                             [FInt (sint (us_input (cp_usage r))), FInt (sint (us_output (cp_usage r)))]), s)
                else case dec_list dec_class zero_class body [] of
                       Inl e \<Rightarrow> (Inl (Wrapf ''parse classification JSON: %w'' [] e), s)
                     | Inr cs \<Rightarrow> (Inr cs, s))"

definition plan_query :: "(rat \<Rightarrow> string) \<Rightarrow> 'n net \<Rightarrow> llm_client \<Rightarrow> qa_item \<Rightarrow> 'n llm_state \<Rightarrow>
    smart_query result \<times> 'n llm_state" where
  "plan_query ff net c q s =
     (let user = sprintf (''Question: %s'' @ [CHR 0x0A] @ ''Category: %s'')
                   [FStr (qa_question q), FStr (category_string (qa_category q))]
      in case ask ff net c query_prompt user 256 s of
           (Inl e, s) \<Rightarrow> (Inl e, s)
         | (Inr r, s) \<Rightarrow>
             let body = clean_json (cp_text r)
             in if body = [] then (Inl (Errf ''LLM returned empty response for query'' []), s)
                else case dec_smart body zero_smart of
                       Inl e \<Rightarrow> (Inl (Wrapf ''parse query JSON: %w'' [] e), s)
                     | Inr p \<Rightarrow> (Inr p, s))"

section \<open>Ingest\<close>

definition class_map :: "turn_class list \<Rightarrow> string \<rightharpoonup> turn_class" where
  "class_map cs = fold (\<lambda>c m. m(tc_dia c \<mapsto> c)) cs Map.empty"

definition class_of :: "(string \<rightharpoonup> turn_class) \<Rightarrow> turn \<Rightarrow> turn_class" where
  "class_of m t =
     (case m (tu_dia t) of
        Some c \<Rightarrow> c
      | None \<Rightarrow> \<lparr>tc_dia = tu_dia t, tc_type = ''episodic'', tc_confidence = 1 / 2, tc_tags = [],
                 tc_summary = tu_text t\<rparr>)"

definition class_memory :: "ingest_env \<Rightarrow> sample \<Rightarrow> session \<Rightarrow> time \<Rightarrow> nat \<Rightarrow> turn \<Rightarrow> turn_class \<Rightarrow> nat \<Rightarrow> memory" where
  "class_memory env sa sess t i tu cls k =
     (new_memory (ie_uuid env k) (ie_now env k) (llm_parse_memory_type (tc_type cls))
        (print (JObj [(''dia_id'', JStr (tu_dia tu)), (''speaker'', JStr (tu_speaker tu)),
                      (''summary'', JStr (tc_summary cls)), (''text'', JStr (tu_text tu))]))
        (tu_speaker tu) (sa_id sa))
     \<lparr>mem_confidence := clamp_confidence (tc_confidence cls),
      mem_tags := session_tag sess # tc_tags cls,
      mem_meta := [''dia_id'' \<mapsto> tu_dia tu, ''session'' \<mapsto> sprintf ''%d'' [FInt (ss_index sess)],
                   ''summary'' \<mapsto> tc_summary cls],
      mem_created := turn_time t i\<rparr>"

fun store_batch :: "ingest_env \<Rightarrow> sample \<Rightarrow> session \<Rightarrow> time \<Rightarrow> (string \<rightharpoonup> turn_class) \<Rightarrow> nat \<Rightarrow> turn list \<Rightarrow>
    ingested \<Rightarrow> ingested result" where
  "store_batch env sa sess t m i [] r = Inr r"
| "store_batch env sa sess t m i (tu # tus) r =
     bind (store_turn (class_memory env sa sess t i tu (class_of m tu) (in_count r)) (tu_dia tu) r)
       (store_batch env sa sess t m (Suc i) tus)"

definition classify_batch_size :: nat where
  "classify_batch_size = 15"

text \<open>One round of the batch loop.\<close>

definition ingest_batch :: "(rat \<Rightarrow> string) \<Rightarrow> 'n net \<Rightarrow> llm_client \<Rightarrow> ingest_env \<Rightarrow> sample \<Rightarrow> session \<Rightarrow> time \<Rightarrow>
    nat \<Rightarrow> turn list \<Rightarrow> ingested \<Rightarrow> 'n llm_state \<Rightarrow> ingested result \<times> 'n llm_state" where
  "ingest_batch ff net c env sa sess t start batch r s =
     (let (res, s) = classify_batch ff net c sa sess batch s;
          cs = (case res of Inr cs \<Rightarrow> cs | Inl _ \<Rightarrow> fallback_classify batch)
      in (store_batch env sa sess t (class_map cs) start batch r, s))"

function batch_loop :: "(rat \<Rightarrow> string) \<Rightarrow> 'n net \<Rightarrow> llm_client \<Rightarrow> ingest_env \<Rightarrow> sample \<Rightarrow> session \<Rightarrow> time \<Rightarrow>
    nat \<Rightarrow> ingested \<Rightarrow> 'n llm_state \<Rightarrow> ingested result \<times> 'n llm_state" where
  "batch_loop ff net c env sa sess t start r s =
     (if start < length (ss_turns sess)
      then let stop = min (start + classify_batch_size) (length (ss_turns sess));
               batch = take (stop - start) (drop start (ss_turns sess))
           in case ingest_batch ff net c env sa sess t start batch r s of
                (Inl e, s) \<Rightarrow> (Inl e, s)
              | (Inr r, s) \<Rightarrow> batch_loop ff net c env sa sess t (start + classify_batch_size) r s
      else (Inr r, s))"
  by pat_completeness auto

termination
  by (relation "measure (\<lambda>(ff, net, c, env, sa, sess, t, start, r, s). length (ss_turns sess) - start)")
     (auto simp: classify_batch_size_def)

declare batch_loop.simps [simp del]

fun llm_sessions :: "(rat \<Rightarrow> string) \<Rightarrow> 'n net \<Rightarrow> llm_client \<Rightarrow> ingest_env \<Rightarrow> sample \<Rightarrow> session list \<Rightarrow> ingested \<Rightarrow>
    'n llm_state \<Rightarrow> ingested result \<times> 'n llm_state" where
  "llm_sessions ff net c env sa [] r s = (Inr r, s)"
| "llm_sessions ff net c env sa (sess # ss) r s =
     (case batch_loop ff net c env sa sess (parse_date_time env (in_count r) (ss_date sess)) 0 r s of
        (Inl e, s) \<Rightarrow> (Inl e, s)
      | (Inr r, s) \<Rightarrow> llm_sessions ff net c env sa ss r s)"

definition llm_ingest :: "(rat \<Rightarrow> string) \<Rightarrow> 'n net \<Rightarrow> llm_client \<Rightarrow> ingest_env \<Rightarrow> sample \<Rightarrow> 'n llm_state \<Rightarrow>
    ingested result \<times> 'n llm_state" where
  "llm_ingest ff net c env sa s = llm_sessions ff net c env sa (sa_sessions sa) (new_ingested (sa_id sa)) s"

section \<open>Query\<close>

text \<open>The \<open>float64\<close> nearest to 0.2.\<close>

definition fallback_query :: smart_query where
  "fallback_query = zero_smart\<lparr>sm_min_confidence := 3602879701896397 / 18014398509481984\<rparr>"

definition planned_query :: "string \<Rightarrow> smart_query \<Rightarrow> search_query" where
  "planned_query i p =
     \<lparr>sq_type = (if sm_type p \<noteq> [] then llm_parse_memory_type (sm_type p) else []),
      sq_tags = (if 0 < length (sm_tags p) then sm_tags p else []), sq_actor = [], sq_tenant = i,
      sq_limit = 10000, sq_since = zero_time, sq_min_confidence = sm_min_confidence p\<rparr>"

fun query_loop_llm :: "(rat \<Rightarrow> string) \<Rightarrow> 'n net \<Rightarrow> llm_client \<Rightarrow> (nat \<Rightarrow> string list) \<Rightarrow> ingested \<Rightarrow> nat \<Rightarrow>
    qa_item list \<Rightarrow> 'n llm_state \<Rightarrow> query_result list result \<times> 'n llm_state" where
  "query_loop_llm ff net c order r i [] s = (Inr [], s)"
| "query_loop_llm ff net c order r i (q # qs) s =
     (let (res, s) = plan_query ff net c q s;
          (p, s) = (case res of
                      Inr p \<Rightarrow> (p, s)
                    | Inl _ \<Rightarrow> (fallback_query, s\<lparr>lt_fallbacks := lt_fallbacks s + 1\<rparr>))
      in case plane_search inmemory (order i) (planned_query (in_id r) p) (in_store r) of
           (Inl e, _) \<Rightarrow> (Inl (Wrapf ''search for question %q: %w'' [FStr (qa_question q)] e), s)
         | (Inr rs, st) \<Rightarrow>
             let x = \<lparr>qr_qa = q, qr_retrieved = extract_dia_ids (map (\<lambda>a. ms_heap st ! a) rs) (in_dia r)\<rparr>
             in map_prod (map_sum id (Cons x)) id (query_loop_llm ff net c order r (Suc i) qs s))"

definition new_llm_state :: "'n \<Rightarrow> 'n llm_state" where
  "new_llm_state n = \<lparr>lt_usage = zero_usage, lt_fallbacks = 0, lt_net = n\<rparr>"

definition llm_strategy :: "(rat \<Rightarrow> string) \<Rightarrow> 'n net \<Rightarrow> llm_client \<Rightarrow> ingest_env \<Rightarrow> 'n llm_state strategy" where
  "llm_strategy ff net c env =
     \<lparr>sg_name = ''llm'', sg_ingest = llm_ingest ff net c env,
      sg_query = \<lambda>order r qa s. query_loop_llm ff net c order r 0 qa s\<rparr>"

section \<open>Properties\<close>

definition classified :: "ingested \<Rightarrow> bool" where
  "classified r \<longleftrightarrow> (\<forall>m \<in> set (ms_heap (in_store r)).
     mem_type m \<in> {episodic, semantic, operational, working} \<and> 0 \<le> mem_confidence m \<and> mem_confidence m \<le> 1)"

lemma store_batch_holds:
  assumes "inj (ie_uuid env)" "holds (ie_uuid env) ds r" "in_id r = sa_id sa" "classified r"
  shows "\<exists>r'. store_batch env sa sess t m i tus r = Inr r' \<and>
    holds (ie_uuid env) (ds @ map tu_dia tus) r' \<and> in_id r' = sa_id sa \<and> classified r'"
  using assms(2-)
proof (induction tus arbitrary: i r ds)
  case (Cons tu tus)
  let ?m = "class_memory env sa sess t i tu (class_of m tu) (in_count r)"
  have "mem_id ?m = ie_uuid env (length ds)" "mem_tenant ?m = in_id r" "mem_meta ?m ''dia_id'' = Some (tu_dia tu)"
    using Cons.prems by (simp_all add: class_memory_def new_memory_def holds_def)
  from store_turn_holds [OF assms(1) Cons.prems(1) this] obtain r1 where
    r1: "store_turn ?m (tu_dia tu) r = Inr r1" "holds (ie_uuid env) (ds @ [tu_dia tu]) r1" "in_id r1 = in_id r"
      "ms_heap (in_store r1) = ms_heap (in_store r) @ [?m]" by blast
  have "mem_type ?m \<in> {episodic, semantic, operational, working}" "0 \<le> mem_confidence ?m" "mem_confidence ?m \<le> 1"
    by (simp_all add: class_memory_def new_memory_def llm_parse_memory_type_def clamp_confidence_def Let_def)
  then have "classified r1" using Cons.prems(3) by (simp add: classified_def r1(4))
  with Cons.IH [OF r1(2)] Cons.prems(2) r1 show ?case by simp
qed simp

lemma batch_split:
  "take (min (a + n) (length xs) - a) (drop a xs) @ drop (a + n) xs = drop a xs"
proof (cases "a + n \<le> length xs")
  case True
  have "drop (a + n) xs = drop n (drop a xs)" by (simp add: add.commute)
  with True show ?thesis by (simp add: min_def del: drop_drop)
qed simp

lemma batch_loop_holds:
  assumes "inj (ie_uuid env)" "holds (ie_uuid env) ds r" "in_id r = sa_id sa" "classified r"
  shows "\<exists>r' s'. batch_loop ff net c env sa sess t start r s = (Inr r', s') \<and>
    holds (ie_uuid env) (ds @ map tu_dia (drop start (ss_turns sess))) r' \<and> in_id r' = sa_id sa \<and> classified r'"
  using assms(2-)
proof (induction "length (ss_turns sess) - start" arbitrary: start r s ds rule: less_induct)
  case less
  show ?case
  proof (cases "start < length (ss_turns sess)")
    case True
    let ?b = "take (min (start + classify_batch_size) (length (ss_turns sess)) - start) (drop start (ss_turns sess))"
    obtain res s1 where cb: "classify_batch ff net c sa sess ?b s = (res, s1)" by force
    obtain r1 where r1: "ingest_batch ff net c env sa sess t start ?b r s = (Inr r1, s1)"
      "holds (ie_uuid env) (ds @ map tu_dia ?b) r1" "in_id r1 = sa_id sa" "classified r1"
      using store_batch_holds [OF assms(1) less.prems, of sess t _ start ?b]
      by (force simp: ingest_batch_def cb)
    have "length (ss_turns sess) - (start + classify_batch_size) < length (ss_turns sess) - start"
      using True by (simp add: classify_batch_size_def)
    from less.hyps [OF this r1(2-4), of s1] show ?thesis
      using True r1(1) batch_split [of start classify_batch_size "ss_turns sess"]
      by (subst batch_loop.simps) (simp add: Let_def flip: map_append)
  next
    case False
    with less.prems show ?thesis by (subst batch_loop.simps) simp
  qed
qed

lemma llm_sessions_holds:
  assumes "inj (ie_uuid env)" "holds (ie_uuid env) ds r" "in_id r = sa_id sa" "classified r"
  shows "\<exists>r' s'. llm_sessions ff net c env sa ss r s = (Inr r', s') \<and>
    holds (ie_uuid env) (ds @ concat (map (\<lambda>sess. map tu_dia (ss_turns sess)) ss)) r' \<and> in_id r' = sa_id sa \<and>
    classified r'"
  using assms(2-)
proof (induction ss arbitrary: r s ds)
  case (Cons sess ss)
  from batch_loop_holds [OF assms(1) Cons.prems, of ff net c sess _ 0 s] obtain r1 s1 where
    r1: "batch_loop ff net c env sa sess (parse_date_time env (in_count r) (ss_date sess)) 0 r s = (Inr r1, s1)"
      "holds (ie_uuid env) (ds @ map tu_dia (ss_turns sess)) r1" "in_id r1 = sa_id sa" "classified r1"
    by (metis drop_0)
  from Cons.IH [OF r1(2-4), of s1] r1(1) show ?case by simp
qed simp

lemma llm_ingest_holds:
  "inj (ie_uuid env) \<Longrightarrow> \<exists>r s'. llm_ingest ff net c env sa s = (Inr r, s') \<and>
     holds (ie_uuid env) (all_dia sa) r \<and> in_id r = sa_id sa \<and> classified r"
  using llm_sessions_holds [of env "[]" "new_ingested (sa_id sa)" sa ff net c "sa_sessions sa" s]
  by (simp add: llm_ingest_def all_dia_def) (simp add: new_ingested_def classified_def new_store_def)

text \<open>
  C21. Whatever the sidecar answers, errors and nonsense included, ingesting a sample ends
  and stores every turn once, in order, under its own record identifier and with its dialog
  identifier; every record has one of the four types and a confidence between 0 and 1.
\<close>

theorem llm_ingest_complete:
  assumes "inj (ie_uuid env)"
  shows "\<exists>r s'. sg_ingest (llm_strategy ff net c env) sa s = (Inr r, s') \<and>
    in_count r = length (all_dia sa) \<and> length (ms_heap (in_store r)) = length (all_dia sa) \<and>
    (\<forall>k < length (all_dia sa). let m = ms_heap (in_store r) ! k in
       ms_index (in_store r) (ie_uuid env k) = Some k \<and> mem_id m = ie_uuid env k \<and>
       mem_meta m ''dia_id'' = Some (all_dia sa ! k) \<and>
       mem_type m \<in> {episodic, semantic, operational, working} \<and>
       0 \<le> mem_confidence m \<and> mem_confidence m \<le> 1)"
proof -
  obtain r s' where r: "llm_ingest ff net c env sa s = (Inr r, s')" "holds (ie_uuid env) (all_dia sa) r" "classified r"
    using llm_ingest_holds [OF assms] by blast
  have "ms_index (in_store r) (ie_uuid env k) = Some k" if "k < length (all_dia sa)" for k
    using that r(2) uuid_index [OF assms, of "length (all_dia sa)" k] by (simp add: holds_def)
  moreover have "ms_heap (in_store r) ! k \<in> set (ms_heap (in_store r))" if "k < length (all_dia sa)" for k
    using that r(2) by (simp add: holds_def)
  ultimately show ?thesis using r by (fastforce simp: llm_strategy_def holds_def classified_def Let_def)
qed

definition dead_net :: "nat net" where
  "dead_net = \<lparr>nt_request = \<lambda>_ _. Inr (), nt_do = \<lambda>_ n. (Inl CtxDeadline, Suc n)\<rparr>"

lemma inj_chat_env: "inj (ie_uuid chat_env)"
  by (auto simp: chat_env_def inj_def show_int_inj)

theorem llm_ingest_complete_witness:
  "\<exists>r s'. sg_ingest (llm_strategy (\<lambda>_. []) dead_net (new_client []) chat_env) chat_sample (new_llm_state 0) = (Inr r, s') \<and>
     in_count r = 2 \<and> mem_meta (ms_heap (in_store r) ! 1) ''dia_id'' = Some ''D2''"
proof -
  have "all_dia chat_sample = [''D1'', ''D2'']" by (simp add: all_dia_def chat_sample_def)
  with llm_ingest_complete [OF inj_chat_env, of "\<lambda>_. []" dead_net "new_client []" chat_sample "new_llm_state 0"]
  show ?thesis by (auto simp: Let_def)
qed

lemma query_loop_results:
  assumes "inj uuid" "holds uuid ds r" "\<And>i. key_order (ms_index (in_store r)) (order i)"
  shows "\<exists>xs k s'. query_loop_llm ff net c order r i qa s = (Inr xs, s') \<and> map qr_qa xs = qa \<and>
    (\<forall>x \<in> set xs. mset (qr_retrieved x) \<subseteq># mset ds) \<and>
    k \<le> length qa \<and> lt_fallbacks s' = lt_fallbacks s + of_nat k"
proof (induction qa arbitrary: i s)
  case (Cons q qa)
  obtain res s0 where pq: "plan_query ff net c q s = (res, s0)" by force
  have "lt_fallbacks s0 = lt_fallbacks s"
    using pq by (auto simp: plan_query_def ask_def Let_def split: prod.splits sum.splits if_splits)
  then obtain p s1 k1 where ps: "(case res of Inr p \<Rightarrow> (p, s0)
        | Inl _ \<Rightarrow> (fallback_query, s0\<lparr>lt_fallbacks := lt_fallbacks s0 + 1\<rparr>)) = (p, s1)"
      "lt_fallbacks s1 = lt_fallbacks s + of_nat k1" "k1 \<le> 1"
    by (cases res) (auto intro: that [of _ _ 1] that [of _ _ 0])
  obtain sr st where sr: "plane_search inmemory (order i) (planned_query (in_id r) p) (in_store r) = (sr, st)"
    by force
  from search_holds [OF assms(2,1,3) sr] obtain rs where
    rs: "sr = Inr rs" "st = in_store r" "distinct rs" "set rs \<subseteq> {..<length ds}" by blast
  let ?x = "\<lparr>qr_qa = q, qr_retrieved = map (\<lambda>k. ds ! k) rs\<rparr>"
  have "mset_set (set rs) \<subseteq># mset_set {..<length ds}"
    using rs(4) by (intro subset_imp_msubset_mset_set) simp_all
  then have "mset rs \<subseteq># mset [0..<length ds]"
    using mset_set_set [OF rs(3)] mset_set_set [of "[0..<length ds]"] by (simp add: lessThan_atLeast0)
  then have "image_mset (\<lambda>k. ds ! k) (mset rs) \<subseteq># image_mset (\<lambda>k. ds ! k) (mset [0..<length ds])"
    by (rule image_mset_subseteq_mono)
  then have "mset (map (\<lambda>k. ds ! k) rs) \<subseteq># mset (map (\<lambda>k. ds ! k) [0..<length ds])"
    by (simp only: mset_map)
  then have sub: "mset (qr_retrieved ?x) \<subseteq># mset ds" by (simp only: map_nth) simp
  from Cons.IH [of "Suc i" s1] obtain xs k s' where
    IH: "query_loop_llm ff net c order r (Suc i) qa s1 = (Inr xs, s')" "map qr_qa xs = qa"
      "\<forall>x \<in> set xs. mset (qr_retrieved x) \<subseteq># mset ds" "k \<le> length qa" "lt_fallbacks s' = lt_fallbacks s1 + of_nat k"
    by blast
  have "query_loop_llm ff net c order r i (q # qa) s = (Inr (?x # xs), s')"
    using extract_holds [OF assms(2) rs(4)] by (simp add: pq ps(1) sr rs(1,2) IH(1) Let_def)
  then show ?case using IH ps(2,3) sub
    by (intro exI [of _ "?x # xs"] exI [of _ "k1 + k"] exI [of _ s']) simp
qed simp

text \<open>
  C37. After an ingest by the LLM strategy, querying answers every question, in order, with
  dialog identifiers of turns of the sample, none of them more often than there are turns with
  it, whatever the sidecar answers. The fallback counter grows by at most one per question.
\<close>

theorem llm_query_sound:
  assumes "inj (ie_uuid env)" "sg_ingest (llm_strategy ff net c env) sa s = (Inr r, s1)"
    and "\<And>i. key_order (ms_index (in_store r)) (order i)"
  shows "\<exists>xs k s2. sg_query (llm_strategy ff net c env) order r qa s1 = (Inr xs, s2) \<and> map qr_qa xs = qa \<and>
    (\<forall>x \<in> set xs. mset (qr_retrieved x) \<subseteq># mset (all_dia sa)) \<and>
    k \<le> length qa \<and> lt_fallbacks s2 = lt_fallbacks s1 + of_nat k"
proof -
  have "holds (ie_uuid env) (all_dia sa) r"
    using llm_ingest_holds [OF assms(1), of ff net c sa s] assms(2) by (auto simp: llm_strategy_def)
  from query_loop_results [OF assms(1) this assms(3)] show ?thesis by (simp add: llm_strategy_def)
qed

theorem llm_query_sound_witness:
  "\<exists>r s1 order xs s2.
     sg_ingest (llm_strategy (\<lambda>_. []) dead_net (new_client []) chat_env) chat_sample (new_llm_state 0) = (Inr r, s1) \<and>
     sg_query (llm_strategy (\<lambda>_. []) dead_net (new_client []) chat_env) order r [zero_qa] s1 = (Inr xs, s2) \<and>
     map qr_qa xs = [zero_qa]"
proof -
  obtain r s1 where r: "llm_ingest (\<lambda>_. []) dead_net (new_client []) chat_env chat_sample (new_llm_state 0) = (Inr r, s1)"
    "holds (ie_uuid chat_env) (all_dia chat_sample) r"
    using llm_ingest_holds [OF inj_chat_env] by blast
  from r(2) have "finite (dom (ms_index (in_store r)))" by (simp add: holds_def finite_dom_map_of)
  then obtain ks where ks: "key_order (ms_index (in_store r)) ks" using key_order_ex by blast
  have run: "sg_ingest (llm_strategy (\<lambda>_. []) dead_net (new_client []) chat_env) chat_sample (new_llm_state 0) = (Inr r, s1)"
    using r(1) by (simp add: llm_strategy_def)
  from llm_query_sound [OF inj_chat_env run, of "\<lambda>_. ks" "[zero_qa]", OF ks] obtain xs s2 where
    "sg_query (llm_strategy (\<lambda>_. []) dead_net (new_client []) chat_env) (\<lambda>_. ks) r [zero_qa] s1 = (Inr xs, s2)"
    "map qr_qa xs = [zero_qa]" by (elim exE conjE) rule
  with run show ?thesis by (intro exI conjI)
qed

end
