(* ===== verification/Adapters.thy ===== *)
theory Adapters
  imports Gateway Json_Values
begin

text \<open>
  The transport adapters (\<open>internal/adapter\<close>): HTTP, command line and Slack, each turning
  raw bytes and a metadata map into an envelope and an envelope into bytes. The metadata map
  is an address in the heap of string maps, \<open>None\<close> for nil; uuids and the clock are
  arguments, as is HMAC-SHA256.
\<close>

section \<open>The interface\<close>

text \<open>
  \<open>to_env raw md ks h\<close> converts, ranging over the metadata \<open>md\<close> in the order \<open>ks\<close>. Every
  adapter promises a request envelope whose payload is JSON, whose actor belongs to the
  envelope's tenant, and whose metadata is a map of its own that has the entries given,
  except for the keys in \<open>own\<close> that the adapter sets itself. No existing map changes.
\<close>

type_synonym converter = "raw \<Rightarrow> ref option \<Rightarrow> string list \<Rightarrow> meta_heap \<Rightarrow> (envelope \<times> meta_heap) result"

record transport =
  ad_name :: string
  ad_to :: converter
  ad_from :: "meta_heap \<Rightarrow> string list \<Rightarrow> envelope \<Rightarrow> raw result"

locale adapter =
  fixes to_env :: converter and own :: "string set"
  assumes conv_request: "to_env raw md ks h = Inr (e, h') \<Longrightarrow>
      env_type e = env_request \<and> env_action e \<noteq> [] \<and> parse (env_payload e) \<noteq> None \<and>
      actor_tenant (env_actor e) = tenant_id (env_tenant e)"
    and conv_meta: "to_env raw md ks h = Inr (e, h') \<Longrightarrow> key_order (meta_read h md) ks \<Longrightarrow>
      k \<notin> own \<Longrightarrow> meta_read h' (env_meta e) k = meta_read h md k"
    and conv_heap: "to_env raw md ks h = Inr (e, h') \<Longrightarrow> key_order (meta_read h md) ks \<Longrightarrow>
      take (length h) h' = h \<and> (\<forall>a. env_meta e = Some a \<longrightarrow> length h \<le> a \<and> a < length h')"
begin

lemma conv_keeps_maps:
  assumes "to_env raw md ks h = Inr (e, h')" "key_order (meta_read h md) ks" "meta_valid h r"
  shows "meta_read h' r = meta_read h r \<and> (r \<noteq> None \<longrightarrow> env_meta e \<noteq> r)"
proof (cases r)
  case (Some a)
  with assms(3) have a: "a < length h" by (simp add: meta_valid_def)
  from conv_heap [OF assms(1,2)] have h: "take (length h) h' = h" by blast
  have "h' ! a = take (length h) h' ! a" using a by simp
  also have "\<dots> = h ! a" unfolding h ..
  finally have "h' ! a = h ! a" .
  with conv_heap [OF assms(1,2)] Some a show ?thesis by (fastforce simp: meta_read_def)
qed (simp add: meta_read_def)

end

section \<open>HTTP\<close>

record http_body =
  hb_action :: string
  hb_actor :: string
  hb_kind :: string
  hb_tenant :: string

definition dec_http_body :: "raw \<Rightarrow> http_body result" where
  "dec_http_body p =
     bind (obj_fields p) (\<lambda>fs.
     bind (dec_field ''action'' dec_string fs []) (\<lambda>ac.
     bind (dec_field ''actor_id'' dec_string fs []) (\<lambda>a.
     bind (dec_field ''actor_kind'' dec_string fs []) (\<lambda>k.
     bind (dec_field ''tenant_id'' dec_string fs []) (\<lambda>t.
       Inr \<lparr>hb_action = ac, hb_actor = a, hb_kind = k, hb_tenant = t\<rparr>)))))"

text \<open>A copy of a metadata map; nil stays nil.\<close>

definition meta_clone :: "ref option \<Rightarrow> string list \<Rightarrow> meta_heap \<Rightarrow> ref option \<times> meta_heap" where
  "meta_clone md ks h =
     (case md of
        None \<Rightarrow> (None, h)
      | Some _ \<Rightarrow>
          let (a, h1) = meta_alloc Map.empty h
          in (Some a, fold (\<lambda>k h'. h'[a := (h' ! a)(k \<mapsto> map_get [] (meta_read h md) k)]) ks h1))"

definition http_to_envelope :: "string \<Rightarrow> string \<Rightarrow> time \<Rightarrow> converter" where
  "http_to_envelope uuid trace now raw md ks h =
     (case dec_http_body raw of
        Inl e \<Rightarrow> Inl (Wrapf ''http adapter: parse json: %w'' [] e)
      | Inr b \<Rightarrow>
          if hb_action b = [] then Inl (Errf ''http adapter: action is required'' [])
          else let kind = (if hb_kind b = [] then actor_human else hb_kind b);
                   actor = \<lparr>actor_id = hb_actor b, actor_kind = kind, actor_roles = [],
                            actor_tenant = hb_tenant b\<rparr>;
                   ten = \<lparr>tenant_id = hb_tenant b, tenant_name = []\<rparr>;
                   e = (new_envelope uuid trace now env_request (hb_action b) actor ten)\<lparr>env_payload := raw\<rparr>;
                   (m, h') = meta_clone md ks h
               in Inr (e\<lparr>env_meta := m\<rparr>, h'))"

definition http_from_envelope :: "(time \<Rightarrow> string) \<Rightarrow> meta_heap \<Rightarrow> string list \<Rightarrow> envelope \<Rightarrow> raw result" where
  "http_from_envelope ft h ks e =
     (case envelope_json ft h ks e of
        Inl err \<Rightarrow> Inl (Wrapf ''http adapter: marshal envelope: %w'' [] err)
      | Inr j \<Rightarrow> Inr (print j))"

definition new_http_adapter :: "string \<Rightarrow> string \<Rightarrow> time \<Rightarrow> (time \<Rightarrow> string) \<Rightarrow> transport" where
  "new_http_adapter uuid trace now ft =
     \<lparr>ad_name = ''http'', ad_to = http_to_envelope uuid trace now, ad_from = http_from_envelope ft\<rparr>"

section \<open>Command line\<close>

record cli_body =
  cb_action :: string
  cb_input :: string
  cb_actor :: string
  cb_tenant :: string

definition dec_cli_body :: "raw \<Rightarrow> cli_body result" where
  "dec_cli_body p =
     bind (obj_fields p) (\<lambda>fs.
     bind (dec_field ''action'' dec_string fs []) (\<lambda>ac.
     bind (dec_field ''input'' dec_string fs []) (\<lambda>i.
     bind (dec_field ''actor_id'' dec_string fs []) (\<lambda>a.
     bind (dec_field ''tenant_id'' dec_string fs []) (\<lambda>t.
       Inr \<lparr>cb_action = ac, cb_input = i, cb_actor = a, cb_tenant = t\<rparr>)))))"

definition cli_to_envelope :: "string \<Rightarrow> string \<Rightarrow> time \<Rightarrow> converter" where
  "cli_to_envelope uuid trace now raw md ks h =
     (case dec_cli_body raw of
        Inl e \<Rightarrow> Inl (Wrapf ''cli adapter: parse json: %w'' [] e)
      | Inr b \<Rightarrow>
          if cb_action b = [] then Inl (Errf ''cli adapter: action is required'' [])
          else let actor = \<lparr>actor_id = cb_actor b, actor_kind = actor_human, actor_roles = [],
                            actor_tenant = cb_tenant b\<rparr>;
                   ten = \<lparr>tenant_id = cb_tenant b, tenant_name = []\<rparr>;
                   e = (new_envelope uuid trace now env_request (cb_action b) actor ten)
                         \<lparr>env_payload := print (JObj [(''input'', JStr (cb_input b))])\<rparr>;
                   (m, h') = meta_clone md ks h
               in Inr (e\<lparr>env_meta := m\<rparr>, h'))"

text \<open>\<open>MarshalIndent\<close> with an indent of two spaces, at nesting depth \<open>n\<close>.\<close>

definition newline :: "nat \<Rightarrow> string" where
  "newline n = CHR 0x0A # replicate (2 * n) (CHR '' '')"

fun print_ind :: "nat \<Rightarrow> json \<Rightarrow> string" and prints_ind :: "nat \<Rightarrow> json list \<Rightarrow> string list"
  and fields_ind :: "nat \<Rightarrow> (string \<times> json) list \<Rightarrow> string list" where
  "print_ind n (JArr vs) =
     (if vs = [] then ''[]''
      else ''['' @ newline (Suc n) @ join ('','' @ newline (Suc n)) (prints_ind (Suc n) vs) @ newline n @ '']'')"
| "print_ind n (JObj kvs) =
     (if kvs = [] then ''{}''
      else ''{'' @ newline (Suc n) @ join ('','' @ newline (Suc n)) (fields_ind (Suc n) kvs) @ newline n @ ''}'')"
| "print_ind n v = print v"
| "prints_ind n [] = []"
| "prints_ind n (v # vs) = print_ind n v # prints_ind n vs"
| "fields_ind n [] = []"
| "fields_ind n ((k, v) # kvs) = (print_string k @ '': '' @ print_ind n v) # fields_ind n kvs"

text \<open>\<open>strings.Trim\<close> of double quotes.\<close>

definition trim_quotes :: "string \<Rightarrow> string" where
  "trim_quotes s = trim_right (\<lambda>c. c = quote) (trim_left (\<lambda>c. c = quote) s)"

definition cli_from_envelope :: "(rat \<Rightarrow> string) \<Rightarrow> envelope \<Rightarrow> raw result" where
  "cli_from_envelope ff e =
     (if env_type e = env_error
      then Inr (sprintf ''ERROR: %s'' [FStr (trim_quotes (trim_space (env_payload e)))])
      else let pretty = (if 0 < length (env_payload e)
                         then case parse (env_payload e) of
                                Some j \<Rightarrow> (case any_json ff j of Inr v \<Rightarrow> print_ind 0 v | Inl _ \<Rightarrow> [])
                              | None \<Rightarrow> []
                         else [])
           in Inr (sprintf (''Action: %s'' @ [CHR 0x0A] @ ''Result: %s'') [FStr (env_action e), FStr pretty]))"

definition new_cli_adapter :: "string \<Rightarrow> string \<Rightarrow> time \<Rightarrow> (rat \<Rightarrow> string) \<Rightarrow> transport" where
  "new_cli_adapter uuid trace now ff =
     \<lparr>ad_name = ''cli'', ad_to = cli_to_envelope uuid trace now, ad_from = (\<lambda>h ks. cli_from_envelope ff)\<rparr>"

section \<open>Slack\<close>

record slack_adapter =
  sl_secret :: string

record slack_message =
  sm_text :: string
  sm_user :: string
  sm_channel :: string

record slack_event =
  se_event :: slack_message
  se_team :: string

definition dec_message :: "slack_message decoder" where
  "dec_message v m =
     bind (obj_fields v) (\<lambda>fs.
     bind (dec_field ''text'' dec_string fs (sm_text m)) (\<lambda>t.
     bind (dec_field ''user'' dec_string fs (sm_user m)) (\<lambda>u.
     bind (dec_field ''channel'' dec_string fs (sm_channel m)) (\<lambda>c.
       Inr \<lparr>sm_text = t, sm_user = u, sm_channel = c\<rparr>))))"

definition dec_event :: "raw \<Rightarrow> slack_event result" where
  "dec_event p =
     bind (obj_fields p) (\<lambda>fs.
     bind (dec_field ''event'' dec_message fs \<lparr>sm_text = [], sm_user = [], sm_channel = []\<rparr>) (\<lambda>m.
     bind (dec_field ''team_id'' dec_string fs []) (\<lambda>t.
       Inr \<lparr>se_event = m, se_team = t\<rparr>)))"

definition slack_payload :: "slack_event \<Rightarrow> json" where
  "slack_payload ev =
     JObj [(''channel'', JStr (sm_channel (se_event ev))), (''team_id'', JStr (se_team ev)),
           (''text'', JStr (sm_text (se_event ev))), (''user'', JStr (sm_user (se_event ev)))]"

definition slack_to_envelope :: "string \<Rightarrow> string \<Rightarrow> time \<Rightarrow> converter" where
  "slack_to_envelope uuid trace now raw md ks h =
     (case dec_event raw of
        Inl e \<Rightarrow> Inl (Wrapf ''slack adapter: parse json: %w'' [] e)
      | Inr ev \<Rightarrow>
          let actor = \<lparr>actor_id = sm_user (se_event ev), actor_kind = actor_human, actor_roles = [],
                       actor_tenant = se_team ev\<rparr>;
              ten = \<lparr>tenant_id = se_team ev, tenant_name = []\<rparr>;
              e = (new_envelope uuid trace now env_request ''chat'' actor ten)
                    \<lparr>env_payload := print (slack_payload ev)\<rparr>
          in map_sum id (\<lambda>(a, h'). (e\<lparr>env_meta := Some a\<rparr>, h'))
               (meta_copy h md ks ''channel'' (sm_channel (se_event ev))))"

definition dec_text :: "raw \<Rightarrow> string result" where
  "dec_text p = bind (obj_fields p) (\<lambda>fs. dec_field ''text'' dec_string fs [])"

definition slack_from_envelope :: "envelope \<Rightarrow> raw result" where
  "slack_from_envelope e =
     (let text = (if 0 < length (env_payload e)
                  then case dec_text (env_payload e) of
                         Inr t \<Rightarrow> if t \<noteq> [] then t else env_payload e
                       | Inl _ \<Rightarrow> env_payload e
                  else [])
      in Inr (print (JObj [(''text'', JStr text)])))"

definition new_slack_adapter :: "string \<Rightarrow> slack_adapter" where
  "new_slack_adapter secret = \<lparr>sl_secret = secret\<rparr>"

definition slack_transport :: "string \<Rightarrow> string \<Rightarrow> time \<Rightarrow> transport" where
  "slack_transport uuid trace now =
     \<lparr>ad_name = ''slack'', ad_to = slack_to_envelope uuid trace now, ad_from = (\<lambda>h ks. slack_from_envelope)\<rparr>"

definition hex_encode :: "string \<Rightarrow> string" where
  "hex_encode b = concat (map (\<lambda>c. [hex_digit (of_char c div 16), hex_digit (of_char c mod 16)]) b)"

definition verify_signature :: "(string \<Rightarrow> string \<Rightarrow> string) \<Rightarrow> slack_adapter \<Rightarrow> raw \<Rightarrow> string \<Rightarrow> string \<Rightarrow> bool" where
  "verify_signature hmac a body timestamp signature =
     (if sl_secret a = [] then True
      else let base_string = sprintf ''v0:%s:%s'' [FStr timestamp, FStr body];
               expected = ''v0='' @ hex_encode (hmac (sl_secret a) base_string)
           in expected = signature)"

section \<open>The three adapters keep the contract\<close>

lemma meta_clone_eq:
  "key_order (meta_read h md) ks \<Longrightarrow> meta_clone md ks h =
     (case md of None \<Rightarrow> (None, h) | Some _ \<Rightarrow> (Some (length h), h @ [meta_read h md]))"
  by (auto simp: meta_clone_def meta_alloc_def meta_fill key_order_def map_get_def fun_eq_iff domIff
      split: option.split)

lemma obj_fields_valid: "obj_fields p = Inr fs \<Longrightarrow> parse p \<noteq> None"
  by (auto simp: obj_fields_def split: option.splits)

lemma http_to_envelope_Inr:
  assumes "http_to_envelope uuid trace now raw md ks h = Inr (e, h')"
  obtains b where "dec_http_body raw = Inr b" "hb_action b \<noteq> []" "meta_clone md ks h = (env_meta e, h')"
    "env_payload e = raw" "env_action e = hb_action b" "env_type e = env_request"
    "env_actor e = \<lparr>actor_id = hb_actor b, actor_kind = (if hb_kind b = [] then actor_human else hb_kind b),
       actor_roles = [], actor_tenant = hb_tenant b\<rparr>"
    "env_tenant e = \<lparr>tenant_id = hb_tenant b, tenant_name = []\<rparr>"
  using assms that
  by (auto simp: http_to_envelope_def new_envelope_def Let_def split: sum.splits if_splits prod.splits)

lemma cli_to_envelope_Inr:
  assumes "cli_to_envelope uuid trace now raw md ks h = Inr (e, h')"
  obtains b where "dec_cli_body raw = Inr b" "cb_action b \<noteq> []" "meta_clone md ks h = (env_meta e, h')"
    "env_payload e = print (JObj [(''input'', JStr (cb_input b))])" "env_action e = cb_action b"
    "env_type e = env_request" "actor_tenant (env_actor e) = tenant_id (env_tenant e)"
  using assms that
  by (auto simp: cli_to_envelope_def new_envelope_def Let_def simp del: print.simps
      split: sum.splits if_splits prod.splits)

lemma slack_to_envelope_Inr:
  assumes "slack_to_envelope uuid trace now raw md ks h = Inr (e, h')"
  obtains ev a where "dec_event raw = Inr ev" "env_meta e = Some a"
    "meta_copy h md ks ''channel'' (sm_channel (se_event ev)) = Inr (a, h')"
    "env_payload e = print (slack_payload ev)" "env_action e = ''chat''" "env_type e = env_request"
    "actor_tenant (env_actor e) = tenant_id (env_tenant e)"
proof -
  from assms obtain ev where ev: "dec_event raw = Inr ev" by (auto simp: slack_to_envelope_def split: sum.splits)
  with assms obtain a where "meta_copy h md ks ''channel'' (sm_channel (se_event ev)) = Inr (a, h')"
    by (cases "meta_copy h md ks ''channel'' (sm_channel (se_event ev))")
       (auto simp: slack_to_envelope_def Let_def)
  with ev assms that show thesis by (auto simp: slack_to_envelope_def new_envelope_def Let_def)
qed

lemma dec_http_parse: "dec_http_body raw = Inr b \<Longrightarrow> parse raw \<noteq> None"
  by (cases "obj_fields raw") (auto simp: dec_http_body_def dest: obj_fields_valid)

interpretation http: adapter "http_to_envelope uuid trace now" "{}"
proof unfold_locales
  fix raw md ks h e h'
  assume run: "http_to_envelope uuid trace now raw md ks h = Inr (e, h')"
  then show "env_type e = env_request \<and> env_action e \<noteq> [] \<and> parse (env_payload e) \<noteq> None \<and>
      actor_tenant (env_actor e) = tenant_id (env_tenant e)"
    by (rule http_to_envelope_Inr) (simp add: dec_http_parse)
  assume ks: "key_order (meta_read h md) ks"
  from run show "meta_read h' (env_meta e) k = meta_read h md k" for k
    by (rule http_to_envelope_Inr) (auto simp: meta_clone_eq [OF ks] meta_read_def split: option.splits)
  from run show "take (length h) h' = h \<and> (\<forall>a. env_meta e = Some a \<longrightarrow> length h \<le> a \<and> a < length h')"
    by (rule http_to_envelope_Inr) (auto simp: meta_clone_eq [OF ks] split: option.splits)
qed

interpretation cli: adapter "cli_to_envelope uuid trace now" "{}"
proof unfold_locales
  fix raw md ks h e h'
  assume run: "cli_to_envelope uuid trace now raw md ks h = Inr (e, h')"
  have "parse (print (JObj [(''input'', JStr i)])) \<noteq> None" for i by (simp add: parse_print del: print.simps)
  with run show "env_type e = env_request \<and> env_action e \<noteq> [] \<and> parse (env_payload e) \<noteq> None \<and>
      actor_tenant (env_actor e) = tenant_id (env_tenant e)"
    by (elim cli_to_envelope_Inr) metis
  assume ks: "key_order (meta_read h md) ks"
  from run show "meta_read h' (env_meta e) k = meta_read h md k" for k
    by (rule cli_to_envelope_Inr) (auto simp: meta_clone_eq [OF ks] meta_read_def split: option.splits)
  from run show "take (length h) h' = h \<and> (\<forall>a. env_meta e = Some a \<longrightarrow> length h \<le> a \<and> a < length h')"
    by (rule cli_to_envelope_Inr) (auto simp: meta_clone_eq [OF ks] split: option.splits)
qed

interpretation slack: adapter "slack_to_envelope uuid trace now" "{''channel''}"
proof unfold_locales
  fix raw md ks h e h'
  assume run: "slack_to_envelope uuid trace now raw md ks h = Inr (e, h')"
  have "json_ok (slack_payload ev)" for ev by (simp add: slack_payload_def)
  then have "parse (print (slack_payload ev)) \<noteq> None" for ev by (simp add: parse_print)
  with run show "env_type e = env_request \<and> env_action e \<noteq> [] \<and> parse (env_payload e) \<noteq> None \<and>
      actor_tenant (env_actor e) = tenant_id (env_tenant e)"
    by (elim slack_to_envelope_Inr) simp
  assume ks: "key_order (meta_read h md) ks"
  from run show "meta_read h' (env_meta e) k = meta_read h md k" if "k \<notin> {''channel''}" for k
    using that by (elim slack_to_envelope_Inr) (auto simp: meta_copy_eq [OF ks] meta_read_def)
  from run show "take (length h) h' = h \<and> (\<forall>a. env_meta e = Some a \<longrightarrow> length h \<le> a \<and> a < length h')"
    by (elim slack_to_envelope_Inr) (auto simp: meta_copy_eq [OF ks])
qed

text \<open>What becomes of all the metadata.\<close>

lemma clone_meta:
  "http_to_envelope u t now raw md ks h = Inr (e, h') \<Longrightarrow> key_order (meta_read h md) ks \<Longrightarrow>
     meta_read h' (env_meta e) = meta_read h md"
  "cli_to_envelope u t now raw md ks h = Inr (e, h') \<Longrightarrow> key_order (meta_read h md) ks \<Longrightarrow>
     meta_read h' (env_meta e) = meta_read h md"
  by (rule ext, rule http.conv_meta, simp_all) (rule ext, rule cli.conv_meta, simp_all)

lemma slack_meta:
  assumes "slack_to_envelope u t now raw md ks h = Inr (e, h')" "key_order (meta_read h md) ks"
  shows "\<exists>ev. dec_event raw = Inr ev \<and>
    meta_read h' (env_meta e) = (meta_read h md)(''channel'' \<mapsto> sm_channel (se_event ev))"
  using assms(1) by (rule slack_to_envelope_Inr) (auto simp: meta_copy_eq [OF assms(2)] meta_read_def)

text \<open>
  C36. Whichever adapter converted it, an envelope is a request for some action, carries JSON
  as its payload and an actor of its own tenant; its metadata is what was handed over, entry
  for entry, except that the Slack adapter sets \<open>channel\<close> to the channel of the event; and no
  envelope that existed before sees its metadata change, nor shares its map with the new one.
\<close>

theorem adapters_contract:
  assumes "ad \<in> {new_http_adapter u t now ft, new_cli_adapter u t now ff, slack_transport u t now}"
    and "ad_to ad raw md ks h = Inr (e, h')" "key_order (meta_read h md) ks"
    and "meta_valid h (env_meta old)"
  shows "env_type e = env_request \<and> env_action e \<noteq> [] \<and> parse (env_payload e) \<noteq> None \<and>
    actor_tenant (env_actor e) = tenant_id (env_tenant e) \<and>
    (if ad_name ad = ''slack''
     then \<exists>ev. dec_event raw = Inr ev \<and>
       meta_read h' (env_meta e) = (meta_read h md)(''channel'' \<mapsto> sm_channel (se_event ev))
     else meta_read h' (env_meta e) = meta_read h md) \<and>
    meta_read h' (env_meta old) = meta_read h (env_meta old) \<and>
    (env_meta old \<noteq> None \<longrightarrow> env_meta e \<noteq> env_meta old)"
proof -
  consider "ad_to ad = http_to_envelope u t now" "ad_name ad \<noteq> ''slack''"
    | "ad_to ad = cli_to_envelope u t now" "ad_name ad \<noteq> ''slack''"
    | "ad_to ad = slack_to_envelope u t now" "ad_name ad = ''slack''"
    using assms(1) by (auto simp: new_http_adapter_def new_cli_adapter_def slack_transport_def)
  then show ?thesis
  proof cases
    case 1
    note run = assms(2) [unfolded 1(1)]
    show ?thesis using http.conv_request [OF run] clone_meta(1) [OF run assms(3)]
        http.conv_keeps_maps [OF run assms(3,4)] 1(2) by simp
  next
    case 2
    note run = assms(2) [unfolded 2(1)]
    show ?thesis using cli.conv_request [OF run] clone_meta(2) [OF run assms(3)]
        cli.conv_keeps_maps [OF run assms(3,4)] 2(2) by simp
  next
    case 3
    note run = assms(2) [unfolded 3(1)]
    show ?thesis using slack.conv_request [OF run] slack_meta [OF run assms(3)]
        slack.conv_keeps_maps [OF run assms(3,4)] 3(2) by simp
  qed
qed

definition slack_hello :: slack_event where
  "slack_hello = \<lparr>se_event = \<lparr>sm_text = ''hi'', sm_user = ''U1'', sm_channel = ''C1''\<rparr>, se_team = ''T1''\<rparr>"

definition slack_hello_raw :: raw where
  "slack_hello_raw = print (JObj [(''event'', JObj [(''text'', JStr ''hi''), (''user'', JStr ''U1''),
     (''channel'', JStr ''C1'')]), (''team_id'', JStr ''T1'')])"

lemma dec_slack_hello: "dec_event slack_hello_raw = Inr slack_hello"
proof -
  have msg: "dec_message (print (JObj [(''text'', JStr ''hi''), (''user'', JStr ''U1''), (''channel'', JStr ''C1'')])) m =
      Inr \<lparr>sm_text = ''hi'', sm_user = ''U1'', sm_channel = ''C1''\<rparr>" for m
    unfolding dec_message_def by (subst obj_fields_print) (simp_all add: field_names del: print.simps)
  show ?thesis
    unfolding dec_event_def slack_hello_raw_def slack_hello_def
    by (subst obj_fields_print) (simp_all add: field_names msg del: print.simps)
qed

theorem adapters_contract_witness:
  "\<exists>e h'. ad_to (slack_transport ''u'' ''t'' 5) slack_hello_raw (Some 0) [''k''] [[''k'' \<mapsto> ''v'']] = Inr (e, h') \<and>
     meta_read h' (env_meta e) ''k'' = Some ''v'' \<and> meta_read h' (env_meta e) ''channel'' = Some ''C1'' \<and>
     env_meta e \<noteq> Some 0 \<and> env_type e = env_request"
proof -
  let ?h = "[[''k'' \<mapsto> ''v'']] :: meta_heap"
  have ks: "key_order (meta_read ?h (Some 0)) [''k'']" by (simp add: key_order_def meta_read_def)
  obtain e h' where run: "ad_to (slack_transport ''u'' ''t'' 5) slack_hello_raw (Some 0) [''k''] ?h = Inr (e, h')"
    by (simp add: slack_transport_def slack_to_envelope_def dec_slack_hello meta_copy_eq [OF ks] Let_def)
  have "meta_valid ?h (env_meta ((new_envelope [] [] 0 [] [] no_actor no_tenant)\<lparr>env_meta := Some 0\<rparr>))"
    by (simp add: meta_valid_def)
  from adapters_contract [of "slack_transport ''u'' ''t'' 5" "''u''" "''t''" 5, OF _ run ks this] run
  show ?thesis by (simp add: meta_read_def slack_transport_def dec_slack_hello slack_hello_def)
qed

lemma envelope_json_fields:
  assumes "payload_json (env_payload e) = Inr p"
  shows "\<exists>kvs. envelope_json ft h ks e = Inr (JObj kvs) \<and> map_of kvs ''payload'' = Some p \<and>
    map_of kvs ''action'' = Some (JStr (env_action e)) \<and>
    map_of kvs ''trace_id'' = Some (JStr (env_trace e))"
  by (simp add: envelope_json_def assms)

text \<open>
  The bytes that the HTTP adapter makes of an envelope it converted hold the same action
  and, as the payload, the JSON value of the original body. What the Slack adapter sends back
  for an event it converted is the event's text.
\<close>

theorem adapter_round_trips:
  "(http_to_envelope u t now raw md ks h = Inr (e, h') \<longrightarrow>
      (\<exists>kvs. http_from_envelope ft h' ks' e = Inr (print (JObj kvs)) \<and>
        map_of kvs ''payload'' = parse raw \<and> map_of kvs ''action'' = Some (JStr (env_action e)) \<and>
        map_of kvs ''trace_id'' = Some (JStr (env_trace e)))) \<and>
   (slack_to_envelope u t now raw md ks h = Inr (e, h') \<longrightarrow> dec_event raw = Inr ev \<longrightarrow>
      sm_text (se_event ev) \<noteq> [] \<longrightarrow>
      slack_from_envelope e = Inr (print (JObj [(''text'', JStr (sm_text (se_event ev)))])))"
proof (intro conjI impI)
  assume "http_to_envelope u t now raw md ks h = Inr (e, h')"
  then obtain j where j: "parse raw = Some j" "env_payload e = raw"
    by (rule http_to_envelope_Inr) (use dec_http_parse in blast)
  then have "raw \<noteq> []" by (auto simp: parse_def)
  with j have "payload_json (env_payload e) = Inr j" by (simp add: payload_json_def)
  from envelope_json_fields [OF this, of ft h' ks'] j(1)
  show "\<exists>kvs. http_from_envelope ft h' ks' e = Inr (print (JObj kvs)) \<and>
      map_of kvs ''payload'' = parse raw \<and> map_of kvs ''action'' = Some (JStr (env_action e)) \<and>
      map_of kvs ''trace_id'' = Some (JStr (env_trace e))"
    unfolding http_from_envelope_def by (elim exE conjE) (simp only: sum.case, blast)
next
  assume "slack_to_envelope u t now raw md ks h = Inr (e, h')" "dec_event raw = Inr ev"
  then have p: "env_payload e = print (slack_payload ev)" by (auto elim: slack_to_envelope_Inr)
  assume nonempty: "sm_text (se_event ev) \<noteq> []"
  have "dec_text (print (slack_payload ev)) = Inr (sm_text (se_event ev))"
    unfolding dec_text_def slack_payload_def
    by (subst obj_fields_print) (simp_all add: field_names del: print.simps)
  moreover have "print (slack_payload ev) \<noteq> []" by (simp add: slack_payload_def)
  ultimately show "slack_from_envelope e = Inr (print (JObj [(''text'', JStr (sm_text (se_event ev)))]))"
    using nonempty by (simp add: slack_from_envelope_def p del: print.simps)
qed

theorem adapter_round_trips_witness:
  "\<exists>e h'. slack_to_envelope ''u'' ''t'' 5 slack_hello_raw None [] [] = Inr (e, h') \<and>
     slack_from_envelope e = Inr (print (JObj [(''text'', JStr ''hi'')]))"
proof -
  obtain e h' where run: "slack_to_envelope ''u'' ''t'' 5 slack_hello_raw None [] [] = Inr (e, h')"
    using meta_copy_eq [of "[]" None "[]"]
    by (simp add: slack_to_envelope_def dec_slack_hello meta_read_def Let_def)
  with adapter_round_trips [of "''u''" "''t''" 5 slack_hello_raw None "[]" "[]" e h' _ _ slack_hello] dec_slack_hello
  show ?thesis by (simp add: slack_hello_def del: print.simps)
qed

text \<open>
  With a signing secret, exactly one signature is accepted for a request: \<open>v0=\<close> and the
  hexadecimal HMAC of timestamp and body; without one, every signature is. The check does not
  separate the timestamp from the body and never looks at how old it is: a signature is also
  accepted for any other request whose timestamp and body concatenate to the same string.
\<close>

theorem verify_signature_accepts:
  "(sl_secret a = [] \<longrightarrow> verify_signature hmac a body ts sig) \<and>
   (sl_secret a \<noteq> [] \<longrightarrow>
     (verify_signature hmac a body ts sig \<longleftrightarrow>
        sig = ''v0='' @ hex_encode (hmac (sl_secret a) (''v0:'' @ ts @ '':'' @ body)))) \<and>
   (verify_signature hmac a body ts sig \<longrightarrow> ts @ '':'' @ body = ts' @ '':'' @ body' \<longrightarrow>
      verify_signature hmac a body' ts' sig)"
  unfolding verify_signature_def by (auto simp: Let_def)

theorem verify_signature_accepts_witness:
  "verify_signature (\<lambda>k m. k @ m) \<lparr>sl_secret = ''s''\<rparr> ''2:x'' ''1''
     (''v0='' @ hex_encode (''s'' @ ''v0:1:2:x'')) \<and>
   verify_signature (\<lambda>k m. k @ m) \<lparr>sl_secret = ''s''\<rparr> ''x'' ''1:2''
     (''v0='' @ hex_encode (''s'' @ ''v0:1:2:x''))"
  using verify_signature_accepts [of "\<lparr>sl_secret = ''s''\<rparr>" "\<lambda>k m. k @ m" "''2:x''" "''1''"
      "''v0='' @ hex_encode (''s'' @ ''v0:1:2:x'')" "''1:2''" "''x''"]
  by simp

end
