(* ===== verification/Bench_Run.thy ===== *)
theory Bench_Run
  imports Bench_LLM Adapters
begin

text \<open>
  The benchmark program (\<open>cmd/bench-locomo/main.go\<close>) and its reports
  (\<open>bench/locomo/report.go\<close>): a dataset is ingested and queried sample by sample with the
  chosen strategy, the questions are scored, and the averages are printed. Lines on standard
  error are left out; \<open>orders i k\<close> is the order in which the k-th search on the i-th
  sample ranges over its records.
\<close>

section \<open>Reports\<close>

record bench_result =
  br_provider :: string
  br_samples :: nat
  br_questions :: nat
  br_categories :: "category_score list"
  br_overall :: category_score
  br_tokens :: "usage option"
  br_fallbacks :: gint

text \<open>The verb \<open>%.4f\<close>; the float is rounded from its exact value, ties to even.\<close>

definition fixed4 :: "rat \<Rightarrow> string" where
  "fixed4 q =
     (let n = round_even (\<bar>q\<bar> * 10000); d = show_int (n mod 10000)
      in (if q < 0 then ''-'' else []) @ show_int (n div 10000) @ ''.'' @
         replicate (4 - length d) (CHR ''0'') @ d)"

text \<open>
  A \<open>tabwriter\<close> with padding 3 on rows of equally many cells: every cell but the last of its
  row is filled up to the width of its column. The width is in runes.
\<close>

definition pad_cell :: "nat \<Rightarrow> string \<Rightarrow> string" where
  "pad_cell w c = c @ replicate (w - length (runes c)) (CHR '' '')"

definition col_width :: "string list list \<Rightarrow> nat \<Rightarrow> nat" where
  "col_width rows j = fold (\<lambda>r. max (length (runes (r ! j)))) rows 0 + 3"

definition tab_row :: "string list list \<Rightarrow> string list \<Rightarrow> string" where
  "tab_row rows r =
     concat (map (\<lambda>j. pad_cell (col_width rows j) (r ! j)) [0..<length r - 1]) @ r ! (length r - 1) @ [CHR 0x0A]"

definition tab_table :: "string list list \<Rightarrow> string" where
  "tab_table rows = concat (map (tab_row rows) rows)"

definition score_row :: "category_score \<Rightarrow> string list" where
  "score_row s =
     [cs_category s, show_int (int (cs_count s)), fixed4 (cs_precision s), fixed4 (cs_recall s), fixed4 (cs_f1 s)]"

definition rule_row :: "string list" where
  "rule_row = [''--------'', ''-----'', ''---------'', ''------'', ''--'']"

definition report_table :: "bench_result \<Rightarrow> string" where
  "report_table b =
     (let nl = [CHR 0x0A]
      in nl @ ''LoCoMo Benchmark Results'' @ nl @ ''========================'' @ nl @
         sprintf (''Provider:   %s'' @ nl) [FStr (br_provider b)] @
         sprintf (''Samples:    %d'' @ nl) [FInt (int (br_samples b))] @
         sprintf (''Questions:  %d'' @ nl) [FInt (int (br_questions b))] @ nl @
         tab_table ([[''Category'', ''Count'', ''Precision'', ''Recall'', ''F1''], rule_row] @
           map score_row (br_categories b) @ [rule_row, score_row (br_overall b)]) @
         (case br_tokens b of
            None \<Rightarrow> []
          | Some u \<Rightarrow> sprintf (nl @ ''Token Usage: %d input, %d output (%d total)'' @ nl)
                        [FInt (sint (us_input u)), FInt (sint (us_output u)), FInt (sint (us_input u + us_output u))]) @
         (if 0 <s br_fallbacks b then sprintf (''Query planner fallbacks: %d'' @ nl) [FInt (sint (br_fallbacks b))]
          else []) @ nl)"

definition category_json :: "(rat \<Rightarrow> string) \<Rightarrow> category_score \<Rightarrow> json" where
  "category_json ff s =
     JObj [(''Category'', JStr (cs_category s)), (''Count'', JNum (show_int (int (cs_count s)))),
           (''Precision'', JNum (ff (cs_precision s))), (''Recall'', JNum (ff (cs_recall s))),
           (''F1'', JNum (ff (cs_f1 s)))]"

definition result_json :: "(rat \<Rightarrow> string) \<Rightarrow> bench_result \<Rightarrow> json" where
  "result_json ff b =
     JObj ([(''Provider'', JStr (br_provider b)), (''Samples'', JNum (show_int (int (br_samples b)))),
            (''Questions'', JNum (show_int (int (br_questions b)))),
            (''Categories'', if br_categories b = [] then JNull else JArr (map (category_json ff) (br_categories b))),
            (''Overall'', category_json ff (br_overall b))] @
       (case br_tokens b of None \<Rightarrow> [] | Some u \<Rightarrow> [(''tokens'', usage_json u)]) @
       (if br_fallbacks b = 0 then [] else [(''planFallbacks'', int_json (br_fallbacks b))]))"

definition report_json :: "(rat \<Rightarrow> string) \<Rightarrow> bench_result \<Rightarrow> string" where
  "report_json ff b = print_ind 0 (result_json ff b) @ [CHR 0x0A]"

section \<open>The run\<close>

fun run_samples :: "'s strategy \<Rightarrow> (nat \<Rightarrow> nat \<Rightarrow> string list) \<Rightarrow> nat \<Rightarrow> sample list \<Rightarrow> 's \<Rightarrow>
    question_score list result \<times> 's" where
  "run_samples strat orders i [] s = (Inr [], s)"
| "run_samples strat orders i (sa # sas) s =
     (case sg_ingest strat sa s of
        (Inl e, s) \<Rightarrow> (Inl (Wrapf ''ingest sample %s: %w'' [FStr (sa_id sa)] e), s)
      | (Inr r, s) \<Rightarrow>
     (case sg_query strat (orders i) r (sa_qa sa) s of
        (Inl e, s) \<Rightarrow> (Inl (Wrapf ''query sample %s: %w'' [FStr (sa_id sa)] e), s)
      | (Inr results, s) \<Rightarrow>
          map_prod (map_sum id (\<lambda>scores. map score_question results @ scores)) id
            (run_samples strat orders (Suc i) sas s)))"

text \<open>The two implementations of the interface; \<open>main\<close> asks which of them it has.\<close>

datatype selected = Basic_Strategy | LLM_Strategy llm_client

definition the_strategy :: "(rat \<Rightarrow> string) \<Rightarrow> 'n net \<Rightarrow> ingest_env \<Rightarrow> selected \<Rightarrow> 'n llm_state strategy" where
  "the_strategy ff net env sel =
     (case sel of Basic_Strategy \<Rightarrow> basic_strategy env | LLM_Strategy c \<Rightarrow> llm_strategy ff net c env)"

definition run_benchmark :: "(rat \<Rightarrow> string) \<Rightarrow> 'n net \<Rightarrow> ingest_env \<Rightarrow> (nat \<Rightarrow> nat \<Rightarrow> string list) \<Rightarrow> selected \<Rightarrow>
    sample list \<Rightarrow> 'n llm_state \<Rightarrow> bench_result result \<times> 'n llm_state" where
  "run_benchmark ff net env orders sel ds s =
     (let strat = the_strategy ff net env sel
      in case run_samples strat orders 0 ds s of
           (Inl e, s) \<Rightarrow> (Inl e, s)
         | (Inr scores, s) \<Rightarrow>
             (let b = \<lparr>br_provider = sg_name strat, br_samples = length ds, br_questions = length scores,
                       br_categories = aggregate_by_category scores, br_overall = aggregate_overall scores,
                       br_tokens = None, br_fallbacks = 0\<rparr>
              in (Inr (case sel of
                         Basic_Strategy \<Rightarrow> b
                       | LLM_Strategy _ \<Rightarrow> b\<lparr>br_tokens := Some (lt_usage s), br_fallbacks := lt_fallbacks s\<rparr>), s)))"

definition select_strategy :: "'n net \<Rightarrow> string \<Rightarrow> string \<Rightarrow> 'n \<Rightarrow> selected result \<times> 'n" where
  "select_strategy net name sidecar_url n =
     (if name = ''basic'' then (Inr Basic_Strategy, n)
      else if name = ''llm''
      then let client = new_client [With_Base_URL sidecar_url]
           in case llm_health net client n of
                (Inl e, n) \<Rightarrow> (Inl (Wrapf ''sidecar health check failed: %w'' [] e), n)
              | (Inr _, n) \<Rightarrow> (Inr (LLM_Strategy client), n)
      else (Inl (Errf ''unknown strategy: %s (use basic or llm)'' [FStr name]), n))"

record bench_flags =
  bf_data :: string
  bf_json :: bool
  bf_limit :: gint
  bf_strategy :: string
  bf_sidecar :: string

definition default_flags :: bench_flags where
  "default_flags = \<lparr>bf_data = [], bf_json = False, bf_limit = 0, bf_strategy = ''basic'',
     bf_sidecar = ''http://localhost:3100''\<rparr>"

definition limit_dataset :: "gint \<Rightarrow> sample list \<Rightarrow> sample list" where
  "limit_dataset n ds =
     (if 0 <s n \<and> sint n < int (length ds) then take (nat (sint n)) ds else ds)"

text \<open>The exit code and the standard output, after the flags have been parsed.\<close>

definition bench_main :: "(rat \<Rightarrow> string) \<Rightarrow> ((string \<rightharpoonup> raw) \<Rightarrow> string list) \<Rightarrow> host_errors \<Rightarrow> 'n net \<Rightarrow>
    ingest_env \<Rightarrow> (nat \<Rightarrow> nat \<Rightarrow> string list) \<Rightarrow> bench_flags \<Rightarrow> 'n host \<Rightarrow> nat \<times> string" where
  "bench_main ff order er net env orders fl h =
     (case load_dataset order er net (bf_data fl) h of
        (Inl _, _) \<Rightarrow> (1, [])
      | (Inr ds, h) \<Rightarrow>
     (let ds = limit_dataset (bf_limit fl) ds
      in case select_strategy net (bf_strategy fl) (bf_sidecar fl) (ho_net h) of
           (Inl _, _) \<Rightarrow> (1, [])
         | (Inr sel, n) \<Rightarrow>
     (case run_benchmark ff net env orders sel ds (new_llm_state n) of
        (Inl _, _) \<Rightarrow> (1, [])
      | (Inr b, _) \<Rightarrow> (0, if bf_json fl then report_json ff b else report_table b))))"

section \<open>What a strategy promises\<close>

text \<open>
  The contract the run relies on: ingesting a sample that fits succeeds, and then every
  question is answered, in order, with an answer that is good for that sample.
\<close>

locale bench_strategy =
  fixes strat :: "'s strategy"
    and fit :: "sample \<Rightarrow> bool"
    and ingests :: "sample \<Rightarrow> ingested \<Rightarrow> bool"
    and order_ok :: "sample \<Rightarrow> (nat \<Rightarrow> string list) \<Rightarrow> bool"
    and good :: "sample \<Rightarrow> query_result \<Rightarrow> bool"
  assumes ingest_total: "fit sa \<Longrightarrow> \<exists>r s'. sg_ingest strat sa s = (Inr r, s') \<and> ingests sa r"
    and query_total: "fit sa \<Longrightarrow> ingests sa r \<Longrightarrow> order_ok sa order \<Longrightarrow>
      \<exists>xs s'. sg_query strat order r qa s = (Inr xs, s') \<and> map qr_qa xs = qa \<and> (\<forall>x \<in> set xs. good sa x)"
begin

definition good_score :: "sample list \<Rightarrow> question_score \<Rightarrow> bool" where
  "good_score sas x \<longleftrightarrow> (\<exists>sa \<in> set sas. \<exists>r. x = score_question r \<and> qr_qa r \<in> set (sa_qa sa) \<and> good sa r)"

lemma run_total:
  assumes "\<forall>sa \<in> set sas. fit sa" "\<forall>j < length sas. order_ok (sas ! j) (orders (i + j))"
  shows "\<exists>scores s'. run_samples strat orders i sas s = (Inr scores, s') \<and>
    length scores = sum_list (map (\<lambda>sa. length (sa_qa sa)) sas) \<and> (\<forall>x \<in> set scores. good_score sas x)"
  using assms
proof (induction sas arbitrary: i s)
  case (Cons sa sas)
  obtain r s1 where r: "sg_ingest strat sa s = (Inr r, s1)" "ingests sa r"
    using ingest_total Cons.prems(1) by (metis list.set_intros(1))
  have "order_ok sa (orders i)" using Cons.prems(2) by (metis add_0_right length_greater_0_conv list.discI nth_Cons_0)
  with query_total r(2) Cons.prems(1) obtain xs s2 where
    xs: "sg_query strat (orders i) r (sa_qa sa) s1 = (Inr xs, s2)" "map qr_qa xs = sa_qa sa" "\<forall>x \<in> set xs. good sa x"
    by (metis list.set_intros(1))
  have "\<forall>j < length sas. order_ok (sas ! j) (orders (Suc i + j))" using Cons.prems(2) by fastforce
  with Cons.IH [of "Suc i" s2] Cons.prems(1) obtain scores s3 where
    IH: "run_samples strat orders (Suc i) sas s2 = (Inr scores, s3)"
      "length scores = sum_list (map (\<lambda>sa. length (sa_qa sa)) sas)" "\<forall>x \<in> set scores. good_score sas x"
    by auto
  have "length xs = length (sa_qa sa)" using arg_cong [OF xs(2), of length] by simp
  moreover have "qr_qa x \<in> set (sa_qa sa)" if "x \<in> set xs" for x
    using that arg_cong [OF xs(2), of set] by auto
  ultimately show ?case using r(1) xs IH by (auto simp: good_score_def)
qed simp

end

text \<open>Any order of the record identifiers that the turns of a sample get.\<close>

definition turn_order :: "ingest_env \<Rightarrow> sample \<Rightarrow> string list \<Rightarrow> bool" where
  "turn_order env sa ks \<longleftrightarrow> key_order (map_of (map (\<lambda>k. (ie_uuid env k, k)) [0..<length (all_dia sa)])) ks"

definition fits :: "ingest_env \<Rightarrow> sample \<Rightarrow> bool" where
  "fits env sa \<longleftrightarrow> inj (ie_uuid env) \<and> length (all_dia sa) \<le> 10000"

lemma holds_order: "holds (ie_uuid env) (all_dia sa) r \<Longrightarrow> turn_order env sa ks \<longleftrightarrow> key_order (ms_index (in_store r)) ks"
  by (simp add: holds_def turn_order_def)

interpretation basic: bench_strategy "basic_strategy env" "fits env" "holds_turns env"
  "\<lambda>sa order. \<forall>k. turn_order env sa (order k)" "\<lambda>sa x. mset (qr_retrieved x) = mset (all_dia sa)"
  for env :: ingest_env
proof unfold_locales
  show "\<exists>r s'. sg_ingest (basic_strategy env) sa s = (Inr r, s') \<and> holds_turns env sa r" if "fits env sa" for sa s
    using ingest_holds [of env sa] that by (auto simp: basic_strategy_def fits_def holds_turns_def)
next
  fix sa r qa s and order :: "nat \<Rightarrow> string list"
  assume fit: "fits env sa" and r: "holds_turns env sa r" and ord: "\<forall>k. turn_order env sa (order k)"
  have "key_order (ms_index (in_store r)) (order 0)" using ord r holds_order by (auto simp: holds_turns_def)
  from execute_queries_all [OF _ _ r this, of qa] fit
  show "\<exists>xs s'. sg_query (basic_strategy env) order r qa s = (Inr xs, s') \<and> map qr_qa xs = qa \<and>
      (\<forall>x \<in> set xs. mset (qr_retrieved x) = mset (all_dia sa))"
    by (auto simp: basic_strategy_def fits_def)
qed

interpretation by_llm: bench_strategy "llm_strategy ff net c env" "fits env"
  "\<lambda>sa. holds (ie_uuid env) (all_dia sa)" "\<lambda>sa order. \<forall>k. turn_order env sa (order k)"
  "\<lambda>sa x. mset (qr_retrieved x) \<subseteq># mset (all_dia sa)"
  for ff net c and env :: ingest_env
proof unfold_locales
  show "\<exists>r s'. sg_ingest (llm_strategy ff net c env) sa s = (Inr r, s') \<and> holds (ie_uuid env) (all_dia sa) r"
    if "fits env sa" for sa s
    using llm_ingest_holds [of env ff net c sa s] that by (auto simp: llm_strategy_def fits_def)
next
  fix sa r qa s and order :: "nat \<Rightarrow> string list"
  assume fit: "fits env sa" and r: "holds (ie_uuid env) (all_dia sa) r" and ord: "\<forall>k. turn_order env sa (order k)"
  have "key_order (ms_index (in_store r)) (order i)" for i using ord holds_order [OF r] by blast
  from query_loop_results [where order = order, OF _ r this, where ff = ff and net = net and c = c and i = 0 and qa = qa and s = s] fit
  show "\<exists>xs s'. sg_query (llm_strategy ff net c env) order r qa s = (Inr xs, s') \<and> map qr_qa xs = qa \<and>
      (\<forall>x \<in> set xs. mset (qr_retrieved x) \<subseteq># mset (all_dia sa))"
    by (auto simp: llm_strategy_def fits_def)
qed

section \<open>A whole run\<close>

lemma recall_sum:
  assumes "\<forall>x \<in> set ss. qs_recall x = 1" "length ss \<le> 2 ^ 53"
  shows "ac_recall (fold accumulate ss zero_acc) = of_nat (length ss) \<and> ac_count (fold accumulate ss zero_acc) = length ss"
  using assms
proof (induction ss rule: rev_induct)
  case (snoc s ss)
  then have "f64 (of_nat (Suc (length ss))) = of_nat (Suc (length ss))" by (intro f64_nat) simp
  with snoc show ?case by (simp add: accumulate_def add.commute)
qed (simp add: zero_acc_def)

lemma overall_recall_one:
  assumes "\<forall>x \<in> set ss. qs_recall x = 1" "length ss \<le> 2 ^ 53" "ss \<noteq> []"
  shows "cs_recall (aggregate_overall ss) = 1"
  using recall_sum [OF assms(1,2)] f64_nat [OF assms(2)] assms(3)
  by (simp add: aggregate_overall_def average_def Let_def)

text \<open>What the dataset must satisfy: machine-size bounds, and evidence that names turns of its sample.\<close>

definition questions :: "sample list \<Rightarrow> nat" where
  "questions ds = sum_list (map (\<lambda>sa. length (sa_qa sa)) ds)"

definition sound_dataset :: "sample list \<Rightarrow> bool" where
  "sound_dataset ds \<longleftrightarrow> questions ds \<le> 2 ^ 53 \<and>
     (\<forall>sa \<in> set ds. length (all_dia sa) \<le> 10000 \<and>
        (\<forall>q \<in> set (sa_qa sa). length (qa_evidence q) \<le> 2 ^ 53 \<and> set (qa_evidence q) \<subseteq> set (all_dia sa)))"

lemma mset_sub_length: "mset xs \<subseteq># mset ys \<Longrightarrow> length xs \<le> length ys"
  using size_mset_mono [of "mset xs" "mset ys"] by simp

lemma run_scores:
  assumes "inj (ie_uuid env)" "sound_dataset ds" "\<And>i k. i < length ds \<Longrightarrow> turn_order env (ds ! i) (orders i k)"
  shows "\<exists>scores s'. run_samples (the_strategy ff net env sel) orders 0 ds s = (Inr scores, s') \<and>
    length scores = questions ds \<and> list_all unit_score scores \<and>
    (sel = Basic_Strategy \<longrightarrow> (\<forall>x \<in> set scores. qs_recall x = 1))"
proof -
  have fit: "\<forall>sa \<in> set ds. fits env sa" using assms(1,2) by (simp add: fits_def sound_dataset_def)
  have ord: "\<forall>j < length ds. \<forall>k. turn_order env (ds ! j) (orders (0 + j) k)" using assms(3) by simp
  have unit: "unit_score (score_question r)"
    if "sa \<in> set ds" "qr_qa r \<in> set (sa_qa sa)" "mset (qr_retrieved r) \<subseteq># mset (all_dia sa)" for sa r
    using mset_sub_length [OF that(3)] that(1,2) assms(2) by (intro score_unit) (fastforce simp: sound_dataset_def)+
  show ?thesis
  proof (cases sel)
    case Basic_Strategy
    have "qs_recall (score_question r) = 1"
      if "sa \<in> set ds" "qr_qa r \<in> set (sa_qa sa)" "mset (qr_retrieved r) = mset (all_dia sa)" for sa r
      using recall_all [OF that(3)] that(1,2) assms(2) by (fastforce simp: sound_dataset_def)
    with basic.run_total [OF fit ord, of s] unit Basic_Strategy show ?thesis
      by (fastforce simp: the_strategy_def list_all_iff basic.good_score_def questions_def)
  next
    case (LLM_Strategy c)
    with by_llm.run_total [OF fit ord, of ff net c s] unit show ?thesis
      by (fastforce simp: the_strategy_def list_all_iff by_llm.good_score_def questions_def)
  qed
qed

text \<open>
  C15. A run never fails on a sound dataset, whichever strategy is selected and whatever the
  sidecar answers: it counts every sample and every question, and its overall precision, recall
  and F1 are between 0 and 1. With at least one question, the basic strategy, which retrieves
  everything, has an overall recall of exactly 1. A sound dataset has at most 10000 turns per
  sample, evidence that names only turns of its own sample, and at most \<open>2 ^ 53\<close> questions and
  pieces of evidence; generated IDs are taken to be distinct.
\<close>

theorem run_benchmark_total:
  assumes "inj (ie_uuid env)" "sound_dataset ds" "\<And>i k. i < length ds \<Longrightarrow> turn_order env (ds ! i) (orders i k)"
  shows "\<exists>b s'. run_benchmark ff net env orders sel ds s = (Inr b, s') \<and>
    br_samples b = length ds \<and> br_questions b = questions ds \<and>
    cs_count (br_overall b) = questions ds \<and>
    {cs_precision (br_overall b), cs_recall (br_overall b), cs_f1 (br_overall b)} \<subseteq> {0..1} \<and>
    (sel = Basic_Strategy \<longrightarrow> 0 < questions ds \<longrightarrow> cs_recall (br_overall b) = 1)"
proof -
  note run_scores [where orders = orders and ds = ds and env = env and ff = ff and net = net and sel = sel and s = s]
  from this [OF assms(1,2)] assms(3) obtain scores s' where
    run: "run_samples (the_strategy ff net env sel) orders 0 ds s = (Inr scores, s')"
      "length scores = questions ds" "list_all unit_score scores"
      "sel = Basic_Strategy \<longrightarrow> (\<forall>x \<in> set scores. qs_recall x = 1)" by metis
  have len: "length scores \<le> 2 ^ 53" using run(2) assms(2) by (simp add: sound_dataset_def)
  note avg = overall_bounds [OF run(3) len]
  have "cs_recall (aggregate_overall scores) = 1" if "sel = Basic_Strategy" "0 < questions ds"
    using overall_recall_one [OF _ len] run(2,4) that by (cases scores) simp_all
  with avg run(1,2) show ?thesis by (cases sel) (simp_all add: run_benchmark_def Let_def)
qed

theorem run_benchmark_total_witness:
  "\<exists>b orders s'. run_benchmark (\<lambda>_. []) dead_net chat_env orders Basic_Strategy
     [chat_sample\<lparr>sa_qa := [zero_qa\<lparr>qa_evidence := [''D2'']\<rparr>]\<rparr>] (new_llm_state 0) = (Inr b, s') \<and>
   br_questions b = 1 \<and> cs_recall (br_overall b) = 1"
proof -
  let ?sa = "chat_sample\<lparr>sa_qa := [zero_qa\<lparr>qa_evidence := [''D2'']\<rparr>]\<rparr>"
  have dia: "all_dia ?sa = [''D1'', ''D2'']" by (simp add: all_dia_def chat_sample_def)
  have "finite (dom (map_of (map (\<lambda>k. (ie_uuid chat_env k, k)) [0..<length (all_dia ?sa)])))" by (rule finite_dom_map_of)
  then obtain ks where ks: "turn_order chat_env ?sa ks" unfolding turn_order_def using key_order_ex by blast
  have q: "questions [?sa] = 1" "sound_dataset [?sa]"
    by (simp_all add: sound_dataset_def questions_def dia)
  from run_benchmark_total [OF inj_chat_env q(2), of "\<lambda>_ _. ks" "\<lambda>_. []" dead_net Basic_Strategy "new_llm_state 0"] ks
  obtain b s' where
    "run_benchmark (\<lambda>_. []) dead_net chat_env (\<lambda>_ _. ks) Basic_Strategy [?sa] (new_llm_state 0) = (Inr b, s')"
    "br_questions b = 1" "cs_recall (br_overall b) = 1"
    unfolding q(1) by auto
  then show ?thesis by (intro exI conjI)
qed

end
