(* ===== verification/Spec2Isabelle.thy ===== *)
theory Spec2Isabelle
  imports Process Trace Bench_Run
begin

text \<open>
  Verification development of Hydra, a backend for agents in Go. This theory gathers the
  library; every theorem is in the theory of the component it is about.

  \<^bold>\<open>The program.\<close> A process (\<open>cmd/hydra/main.go\<close>) loads a configuration, builds five heads
  (HTTP gateway, agent runtime, execution plane, memory plane, policy engine) and files them
  in a registry that starts, stops and checks them. The gateway turns a POST to
  \<open>/api/v1/{action}\<close> into an envelope and runs the handler of that action; the handlers ask
  the policy engine, run an agent, submit a job or use the memory plane, and publish on the
  event bus. Agents have tools that write and search memory, query TardigradeDB, make HTTP
  requests and ask an LLM sidecar. Adapters convert other transports to envelopes. A second
  program (\<open>cmd/bench-locomo\<close>) measures the retrieval of the memory plane on a dataset.

  \<^bold>\<open>What models what.\<close>

  \<^item> \<open>Prelude\<close>: results and Go errors, 64-bit integers as words, durations and times, maps
    with an order in which they are ranged over. \<open>Go_Chan\<close>: buffered channels. \<open>Go_Strings\<close>,
    \<open>Go_Fmt\<close>, \<open>Go_Float\<close>: package \<open>strings\<close>, formatting, IEEE rounding to nearest even.
    \<open>Json\<close>, \<open>Json_Decode\<close>, \<open>Json_Values\<close>: \<open>encoding/json\<close>, printing, parsing and decoding
    into fields; \<open>Json_Reparse\<close>, \<open>Json_Slices\<close>: what is parsed can be printed, and the slice of
    a document that a field holds is itself a document. \<open>Http_Client\<close>: \<open>net/http\<close> as a client.
    \<open>Mux\<close>: its \<open>ServeMux\<close> for the one pattern of the gateway, with the redirect of paths that are
    not clean. \<open>Unique_Map\<close>: the contract of every registry. These model the language and its
    library as far as the source uses them.
  \<^item> \<open>Job\<close>, \<open>Job_Queue\<close>, \<open>Scheduler\<close>, \<open>Dag\<close>, \<open>Topo_Sort\<close>, \<open>Plane\<close>, \<open>Plane_Steps\<close>,
    \<open>Plane_Inv\<close>, \<open>Plane_Props\<close>: \<open>internal/execution\<close>. The worker and the scheduler loop are
    step relations over a store of jobs, so every interleaving with clients is a run.
    \<open>Lifecycle\<close>: the contexts, \<open>cancel\<close> fields and \<open>done\<close> channels under any number of \<open>Start\<close>
    and \<open>Stop\<close> calls, with each goroutine at its place in its loop, so that a handler's call or a
    flush under way goes on after the cancellation; \<open>Plane_Life\<close>: the detailed plane refines it.
  \<^item> \<open>Envelope\<close>, \<open>Event_Bus\<close>, \<open>Registry\<close>, \<open>Config\<close>, \<open>Trace\<close>: \<open>internal/body\<close>. \<open>Policy\<close>:
    \<open>internal/policy\<close>. \<open>Memory\<close>, \<open>Tdb_Key\<close>, \<open>Tdb\<close>: \<open>internal/memory\<close> with both providers.
    \<open>Agent\<close>, \<open>Tools\<close>: \<open>internal/agent\<close>. \<open>Gateway\<close>, \<open>Llm\<close>, \<open>Adapters\<close>: the packages of these
    names.
  \<^item> \<open>Handlers\<close>, \<open>Hydra_Main\<close>: the handlers and the life of the process in
    \<open>cmd/hydra/main.go\<close>. \<open>Wire\<close>: an envelope as the client of the API decodes it.
  \<^item> \<open>Api\<close>, \<open>Api_Props\<close>: a started process and its clients. \<open>api_call\<close> sends one request
    through the gateway of the process to its handlers, \<open>api_traffic\<close> a list of them, and the
    properties are about what goes in and comes out, at any point of any traffic. \<open>Process\<close>:
    the same with the background loops of the execution plane moving between the requests.
  \<^item> \<open>Bench_Data\<close>, \<open>Bench_Score\<close>, \<open>Bench_Ingest\<close>, \<open>Bench_LLM\<close>, \<open>Bench_Run\<close>: \<open>bench/locomo\<close>
    and \<open>cmd/bench-locomo\<close>.

  A struct is a record with a prefix for its fields, a method is a definition that takes the
  state and returns it updated, a pointer that is shared is an address in an explicit heap
  (jobs, memory records, metadata maps, channels), an error is the left case of a sum. A
  panic is an error value too, so that its absence is a theorem. What a lock protects is one
  step.

  \<^bold>\<open>Interfaces.\<close> \<open>job_queue\<close> (the execution queue), \<open>unique_map\<close> (heads, tools, roles),
  \<open>event_bus\<close>, \<open>memory_provider\<close>, \<open>adapter\<close> (HTTP, CLI, Slack) and \<open>bench_strategy\<close> (basic and
  LLM) are locales, interpreted on the definitions that model the code.

  \<^bold>\<open>What the lemmas show.\<close> For the execution plane: no job is lost, duplicated, run early,
  run too often or reopened in any interleaving; the graph algorithms are right and total.
  For the bus: no panic, and every subscriber gets what was published in order up to its
  buffer. For memory: the in-memory provider refines a finite map, and what a search returns.
  For the gateway and the handlers: which requests reach a handler, what the answers are, and
  that authorization and audit come first. For the process: when it starts, what then is
  registered, and what a shutdown leaves. For its goroutines: one \<open>Start\<close> never panics, a
  \<open>Stop\<close> after it waits for nothing but the job being worked on, and a second \<open>Start\<close> can take the
  process down. For the API as a whole, with the in-memory provider: no request panics the
  process or loses a stored memory, what is stored is found, a permitted task runs to
  completion, an accepted one is never lost silently, and every \<open>chat\<close> is decided and audited.
  For the clients, adapters and keys: round trips with the encoders and decoders. For the benchmark:
  it terminates with an answer to every question whatever the sidecar does, its scores are
  between 0 and 1 under rounding, and the averages are those of the categories.

  \<^bold>\<open>Bounds and fuel.\<close> \<open>int\<close> is a 64-bit word wherever arithmetic can wrap (backoffs,
  timeouts, hashes, budgets, counters); lengths and counts of allocated things are naturals,
  with \<open>2 ^ 53\<close> as the bound below which a count is an exact float. The depth-first search
  and the topological sort run on fuel, one unit per call, and their totality theorems show
  the fuel given suffices. The JSON parser has two units per byte and one more, and the round
  trip of printing and parsing shows them to be enough. The other loops are structural or
  have a termination proof.

  \<^bold>\<open>Parameters.\<close> Code that is not in the repository is an argument with its documented
  behaviour as hypotheses where a theorem needs it: koanf and its YAML parser, the struct
  validator, HMAC-SHA256, the servers behind the HTTP clients, \<open>time.Parse\<close> and the printing
  of floats and times. So are what the goroutines of the execution plane do while its \<open>Stop\<close> waits
  (in the theorem about the shutdown: any run of their moves that ends), uuids, clock readings, the file system's errors, and the
  random order in which Go ranges over a map: the theorems hold for every order. Floats that
  the code computes with are finite rationals rounded after every operation.

  \<^bold>\<open>Not modelled.\<close> Two handlers running at the same time: requests are handled one after the
  other, each as one step (the execution plane and its lifecycle are modelled with all
  interleavings, the bus with those of its calls). Log lines and progress on standard error;
  the operating system's signals and sockets beyond their outcomes; query strings, and the HTML
  page of a redirect; whether an empty slice of tags is nil; JSON numbers beyond the float
  range as errors of \<open>strconv\<close> with their exact text. Strings are bytes, and \<open>print\<close> and \<open>parse\<close>
  pass every byte from 128 on through: they agree with \<open>encoding/json\<close> on valid UTF-8
  (\<open>utf8_ok\<close> in \<open>Wire\<close>) but for the escapes of U+2028 and U+2029, which are read back as the same
  characters; on other strings Go writes U+FFFD. The \<open>Schedule\<close> calls of one \<open>SubmitDAG\<close> call of
  \<open>Plane\<close> share a reading of the clock (in \<open>Plane_Steps\<close> each has its own); attempt counters do
  not wrap. The package comments (\<open>doc.go\<close>), the tests, and the TypeScript sidecar, which is
  another program.
\<close>

end
